(* ===== verification/Go_Prelude.thy ===== *)
theory Go_Prelude
  imports Main "HOL-Library.Word" "HOL-Library.Sublist" "HOL-Library.Multiset"
begin

text \<open>
  The shared vocabulary of the development: Go's built-in data and the few functions of the
  packages \<open>strings\<close> and \<open>path\<close> that the program calls.

  \<^item> A Go \<open>string\<close> is a byte sequence: HOL's \<open>string\<close>, one \<open>char\<close> per byte.
  \<^item> A Go \<open>int64\<close> is a 64-bit word; addition wraps, comparison is signed (\<open>sint\<close>).
  \<^item> A Go \<open>map\<close> built by a loop is a partial function (\<open>index_by\<close>); the order in which
    \<open>range\<close> visits it is not specified by the language and is a parameter (\<open>range_order\<close>).
  \<^item> A function with an \<open>error\<close> result returns a sum, \<open>Inl\<close> for the error.
\<close>

type_synonym bytes = string
type_synonym int64 = "64 word"

named_theorems go_str "facts about splitting, joining and cutting strings"
named_theorems go_map "facts about maps built by loops"

section \<open>Strings\<close>

abbreviation has_prefix :: "string \<Rightarrow> string \<Rightarrow> bool" where
  "has_prefix s pre \<equiv> prefix pre s"

abbreviation has_suffix :: "string \<Rightarrow> string \<Rightarrow> bool" where
  "has_suffix s suf \<equiv> suffix suf s"

definition trim_prefix :: "string \<Rightarrow> string \<Rightarrow> string" where
  "trim_prefix s pre = (if has_prefix s pre then drop (length pre) s else s)"

definition trim_suffix :: "string \<Rightarrow> string \<Rightarrow> string" where
  "trim_suffix s suf = (if has_suffix s suf then take (length s - length suf) s else s)"

definition replace_ch :: "char \<Rightarrow> char \<Rightarrow> string \<Rightarrow> string" where
  "replace_ch a b s = map (\<lambda>c. if c = a then b else c) s"

text \<open>\<open>strings.Split\<close> and \<open>strings.Join\<close> at a one-byte separator.\<close>

fun split_ch :: "char \<Rightarrow> string \<Rightarrow> string list" where
  "split_ch c [] = [[]]"
| "split_ch c (x # xs) =
     (if x = c then [] # split_ch c xs
      else (case split_ch c xs of [] \<Rightarrow> [[x]] | s # ss \<Rightarrow> (x # s) # ss))"

fun join_ch :: "char \<Rightarrow> string list \<Rightarrow> string" where
  "join_ch c [] = []"
| "join_ch c [s] = s"
| "join_ch c (s # t # ss) = s @ c # join_ch c (t # ss)"

text \<open>\<open>strings.Cut\<close>: the text before and after the first separator, and whether there is one.\<close>

definition cut_ch :: "char \<Rightarrow> string \<Rightarrow> string \<times> string \<times> bool" where
  "cut_ch c s =
     (takeWhile (\<lambda>x. x \<noteq> c) s, drop 1 (dropWhile (\<lambda>x. x \<noteq> c) s), c \<in> set s)"

lemma trim_prefix_append [simp]: "trim_prefix (p @ s) p = s"
  by (simp add: trim_prefix_def)

lemma split_ch_nonempty [simp]: "split_ch c s \<noteq> []"
  by (induction s) (auto split: list.splits)

lemma join_split [simp, go_str]: "join_ch c (split_ch c s) = s"
proof (induction s)
  case (Cons x xs)
  then obtain t ts where "split_ch c xs = t # ts" and "join_ch c (t # ts) = xs"
    by (cases "split_ch c xs") auto
  then show ?case by (cases ts) auto
qed simp

lemma split_ch_no_sep [go_str]: "t \<in> set (split_ch c s) \<Longrightarrow> c \<notin> set t"
  by (induction s arbitrary: t) (auto split: list.splits if_splits)

lemma split_ch_chars [go_str]: "t \<in> set (split_ch c s) \<Longrightarrow> set t \<subseteq> set s"
proof (induction s arbitrary: t)
  case (Cons x xs)
  then show ?case
    by (cases "split_ch c xs") (auto split: if_splits, blast+)
qed simp

lemma split_ch_single [go_str]: "c \<notin> set s \<Longrightarrow> split_ch c s = [s]"
  by (induction s) auto

lemma split_ch_append_sep [go_str]:
  "c \<notin> set s \<Longrightarrow> split_ch c (s @ c # t) = s # split_ch c t"
  by (induction s) auto

lemma split_join [go_str]:
  "ss \<noteq> [] \<Longrightarrow> \<forall>s \<in> set ss. c \<notin> set s \<Longrightarrow> split_ch c (join_ch c ss) = ss"
  by (induction c ss rule: join_ch.induct) (auto simp: split_ch_single split_ch_append_sep)

lemma split_ch_append [go_str]:
  "split_ch c (s @ c # t) = split_ch c s @ split_ch c t"
  by (induction s) (auto split: list.splits)

lemma split_ch_eq_Nil_iff [simp]: "split_ch c s = [t] \<longleftrightarrow> c \<notin> set s \<and> t = s"
proof
  assume "split_ch c s = [t]"
  then show "c \<notin> set s \<and> t = s"
    using join_split[of c s] split_ch_no_sep[of t c s] by auto
qed (simp add: split_ch_single)

lemma sep_in_iff_length_split: "c \<in> set s \<longleftrightarrow> 1 < length (split_ch c s)"
proof (induction s)
  case (Cons x xs)
  then show ?case by (cases "split_ch c xs") auto
qed simp

lemma join_ch_append [go_str]:
  "xs \<noteq> [] \<Longrightarrow> ys \<noteq> [] \<Longrightarrow> join_ch c (xs @ ys) = join_ch c xs @ c # join_ch c ys"
proof (induction c xs rule: join_ch.induct)
  case (2 c s)
  then show ?case by (cases ys) auto
qed auto

lemma join_ch_inj:
  assumes "xs \<noteq> []" "ys \<noteq> []" "\<forall>s \<in> set xs. c \<notin> set s" "\<forall>s \<in> set ys. c \<notin> set s"
    and "join_ch c xs = join_ch c ys"
  shows "xs = ys"
  using split_join[of xs c] split_join[of ys c] assms by metis

lemma set_join_ch: "x \<in> set (join_ch c ss) \<Longrightarrow> x = c \<or> (\<exists>s \<in> set ss. x \<in> set s)"
  by (induction c ss rule: join_ch.induct) auto

lemma append_sep_eq:
  "x \<notin> set a \<Longrightarrow> x \<notin> set b \<Longrightarrow> a @ x # r = b @ x # s \<longleftrightarrow> a = b \<and> r = s"
proof (induction a arbitrary: b)
  case Nil
  then show ?case by (cases b) auto
next
  case (Cons c a)
  then show ?case by (cases b) auto
qed

lemma set_replace_ch: "a \<noteq> b \<Longrightarrow> a \<notin> set (replace_ch a b s)"
  by (auto simp: replace_ch_def)

lemma replace_ch_id [simp]: "a \<notin> set s \<Longrightarrow> replace_ch a b s = s"
  by (induction s) (auto simp: replace_ch_def)

lemma cut_ch_append [simp]: "c \<notin> set s \<Longrightarrow> cut_ch c (s @ c # t) = (s, t, True)"
proof -
  assume "c \<notin> set s"
  then have "\<forall>x \<in> set s. x \<noteq> c" by auto
  then show ?thesis by (simp add: cut_ch_def takeWhile_append2 dropWhile_append2)
qed

lemma cut_ch_True:
  assumes "cut_ch c s = (a, b, True)"
  shows "s = a @ c # b \<and> c \<notin> set a"
proof -
  from assms have "c \<in> set s" by (simp add: cut_ch_def)
  then obtain u v where s: "s = u @ c # v" and u: "c \<notin> set u"
    by (blast dest: split_list_first)
  with assms show ?thesis by simp
qed

section \<open>Signed 64-bit integers\<close>

text \<open>The arithmetic the code does on \<open>int64\<close> is the arithmetic of the words; the signed
  value of a sum is the sum of the signed values as long as that fits.\<close>

definition fits64 :: "int \<Rightarrow> bool" where
  "fits64 i \<longleftrightarrow> - (2 ^ 63) \<le> i \<and> i < 2 ^ 63"

lemma sint_fits64: "fits64 (sint (x :: int64))"
  using sint_ge[of x] sint_lt[of x] by (simp add: fits64_def)

lemma sint_of_int64: "fits64 i \<Longrightarrow> sint (word_of_int i :: int64) = i"
  by (simp add: fits64_def sint_sbintrunc' signed_take_bit_int_eq_self)

lemma sint_length: "int (length b) < 2 ^ 63 \<Longrightarrow> sint (of_nat (length b) :: int64) = int (length b)"
  using sint_of_int64[of "int (length b)"] by (simp add: fits64_def)

lemma sint_add64: "fits64 (sint a + sint b) \<Longrightarrow> sint ((a :: int64) + b) = sint a + sint b"
  using sint_of_int64[of "sint a + sint b"] by simp

lemma sint_sub64: "fits64 (sint a - sint b) \<Longrightarrow> sint ((a :: int64) - b) = sint a - sint b"
  using sint_of_int64[of "sint a - sint b"] by simp

section \<open>Maps built by loops\<close>

text \<open>\<open>for _, x := range xs { m[key(x)] = x }\<close>: a later element replaces an earlier one.\<close>

definition index_by :: "('a \<Rightarrow> 'k) \<Rightarrow> 'a list \<Rightarrow> ('k \<rightharpoonup> 'a)" where
  "index_by key xs = foldl (\<lambda>m x. m(key x \<mapsto> x)) Map.empty xs"

lemma index_by_Nil [simp]: "index_by key [] = Map.empty"
  by (simp add: index_by_def)

lemma index_by_snoc [simp]: "index_by key (xs @ [x]) = (index_by key xs)(key x \<mapsto> x)"
  by (simp add: index_by_def)

lemma index_by_Some [go_map]: "index_by key xs k = Some x \<Longrightarrow> x \<in> set xs \<and> key x = k"
  by (induction xs rule: rev_induct) (auto split: if_splits)

lemma dom_index_by [go_map]: "dom (index_by key xs) = key ` set xs"
proof (induction xs rule: rev_induct)
  case (snoc x xs)
  then show ?case by (simp only: index_by_snoc dom_fun_upd) simp
qed simp

lemma index_by_None_iff [go_map]: "index_by key xs k = None \<longleftrightarrow> k \<notin> key ` set xs"
  using dom_index_by[of key xs] by (auto simp: domIff)

lemma index_by_distinct [go_map]:
  "distinct (map key xs) \<Longrightarrow> x \<in> set xs \<Longrightarrow> index_by key xs (key x) = Some x"
  by (induction xs rule: rev_induct) (auto simp: image_iff)

lemma index_by_eq_map_of:
  "distinct (map key xs) \<Longrightarrow> index_by key xs = map_of (map (\<lambda>x. (key x, x)) xs)"
proof (rule ext)
  fix k
  assume d: "distinct (map key xs)"
  show "index_by key xs k = map_of (map (\<lambda>x. (key x, x)) xs) k"
  proof (cases "index_by key xs k")
    case None
    then have "k \<notin> key ` set xs" by (simp add: index_by_None_iff)
    then show ?thesis using None by (auto simp: map_of_eq_None_iff intro!: sym[of _ None])
  next
    case (Some x)
    then have "x \<in> set xs" "key x = k" by (auto dest: index_by_Some)
    moreover from d have "distinct (map fst (map (\<lambda>x. (key x, x)) xs))"
      by (simp add: comp_def)
    ultimately show ?thesis using Some by (auto intro!: sym[OF map_of_is_SomeI])
  qed
qed

text \<open>The order in which \<open>range\<close> visits a map: any function that permutes the keys.\<close>

definition range_order :: "('k list \<Rightarrow> 'k list) \<Rightarrow> bool" where
  "range_order rng \<longleftrightarrow> (\<forall>ks. mset (rng ks) = mset ks)"

lemma range_order_set: "range_order rng \<Longrightarrow> set (rng ks) = set ks"
  unfolding range_order_def by (metis set_mset_mset)

lemma range_order_distinct: "range_order rng \<Longrightarrow> distinct (rng ks) = distinct ks"
  unfolding range_order_def by (metis mset_eq_imp_distinct_iff)

lemma range_order_id: "range_order (\<lambda>ks. ks)"
  by (simp add: range_order_def)

lemma range_order_rev: "range_order rev"
  by (simp add: range_order_def)

text \<open>Appending inside a loop is a filtered copy: the shape of the loops that build lists.\<close>

lemma foldl_append_map: "foldl (\<lambda>acc x. acc @ [f x]) acc xs = acc @ map f xs"
  by (induction xs arbitrary: acc) auto

lemma foldl_append_if:
  "foldl (\<lambda>acc x. if P x then acc @ [f x] else acc) acc xs = acc @ map f (filter P xs)"
  by (induction xs arbitrary: acc) auto

section \<open>Hexadecimal\<close>

text \<open>\<open>hex.EncodeToString\<close> and \<open>hex.DecodeString\<close> of package \<open>encoding/hex\<close>.\<close>

definition hex_digits :: string where
  "hex_digits = ''0123456789abcdef''"

definition hex_encode :: "bytes \<Rightarrow> string" where
  "hex_encode bs =
     concat (map (\<lambda>c. [hex_digits ! (of_char c div 16), hex_digits ! (of_char c mod 16)]) bs)"

definition hex_value :: "char \<Rightarrow> nat option" where
  "hex_value c =
     (let n = of_char c :: nat in
      if 48 \<le> n \<and> n \<le> 57 then Some (n - 48)
      else if 97 \<le> n \<and> n \<le> 102 then Some (n - 87)
      else if 65 \<le> n \<and> n \<le> 70 then Some (n - 55)
      else None)"

fun hex_decode :: "string \<Rightarrow> bytes option" where
  "hex_decode [] = Some []"
| "hex_decode [c] = None"
| "hex_decode (a # b # cs) =
     (case (hex_value a, hex_value b, hex_decode cs) of
        (Some x, Some y, Some r) \<Rightarrow> Some (char_of (16 * x + y) # r)
      | _ \<Rightarrow> None)"

lemma hex_digits_value: "n < 16 \<Longrightarrow> hex_value (hex_digits ! n) = Some n"
proof -
  have "\<forall>n \<in> set [0..<16]. hex_value (hex_digits ! n) = Some n" by code_simp
  then show "n < 16 \<Longrightarrow> ?thesis" by simp
qed

lemma hex_digits_clean: "n < 16 \<Longrightarrow> hex_digits ! n \<noteq> CHR ''/'' \<and> hex_digits ! n \<noteq> CHR ''.''"
proof -
  have "\<forall>n \<in> set [0..<16]. hex_digits ! n \<noteq> CHR ''/'' \<and> hex_digits ! n \<noteq> CHR ''.''" by code_simp
  then show "n < 16 \<Longrightarrow> ?thesis" by simp
qed

lemma of_char_div_16: "(of_char c :: nat) div 16 < 16"
  by (rule less_mult_imp_div_less) simp

lemma hex_encode_clean: "CHR ''/'' \<notin> set (hex_encode bs) \<and> CHR ''.'' \<notin> set (hex_encode bs)"
proof (induction bs)
  case (Cons c bs)
  have "(of_char c :: nat) mod 16 < 16" by simp
  from Cons hex_digits_clean[OF this] hex_digits_clean[OF of_char_div_16[of c]] show ?case
    by (auto simp: hex_encode_def)
qed (simp add: hex_encode_def)

lemma length_hex_encode [simp]: "length (hex_encode bs) = 2 * length bs"
  by (induction bs) (simp_all add: hex_encode_def)

lemma hex_decode_encode: "hex_decode (hex_encode bs) = Some bs"
proof (induction bs)
  case (Cons c bs)
  have "(of_char c :: nat) div 16 < 16" by (rule of_char_div_16)
  moreover have "(of_char c :: nat) mod 16 < 16" by simp
  ultimately show ?case using Cons
    by (simp add: hex_encode_def hex_digits_value)
qed (simp add: hex_encode_def)

lemma hex_decode_Some_length: "hex_decode s = Some bs \<Longrightarrow> length s = 2 * length bs"
  by (induction s arbitrary: bs rule: hex_decode.induct) (auto split: option.splits)

end
