(* ===== verification/Manifest.thy ===== *)
theory Manifest
  imports Go_Prelude
begin

text \<open>
  \<^verbatim>\<open>internal/sync/manifest.go\<close>: the three-way comparison of a client's directory, its saved
  baseline and the server's manifest. \<open>BuildLocal\<close> derives the state of each local path from a
  scan and the baseline; \<open>Diff\<close> turns local states and the server's manifest into a plan of
  uploads, downloads, deletions and conflicts. The loops of the code are left folds over the
  plan; the final loop of \<open>Diff\<close> ranges over a Go map, whose order is the parameter \<open>rng\<close>.
  The abstract specification is \<open>decide\<close>: one action per path, from the local entry and the
  server's entry of that path alone.
\<close>

section \<open>Data\<close>

record file_entry =
  fe_Path :: string
  fe_Size :: int64
  fe_SHA256 :: string
  fe_Revision :: int64
  fe_Deleted :: bool

text \<open>\<open>LocalState\<close> is a string in the code; a baseline read from disk can hold any.\<close>

datatype local_state = StateClean | StateModified | StateDeleted | StateOther string

record local_entry =
  le_Path :: string
  le_Size :: int64
  le_BaseRevision :: int64
  le_BaseSHA256 :: string
  le_CurrentSHA256 :: string
  le_State :: local_state

record conflict =
  cf_Path :: string
  cf_LocalSHA :: string
  cf_RemoteSHA :: string

record plan =
  Upload :: "local_entry list"
  Download :: "file_entry list"
  Conflicts :: "conflict list"
  DeleteToRemote :: "local_entry list"
  DeleteToLocal :: "file_entry list"

definition zero_FileEntry :: file_entry where
  "zero_FileEntry =
     \<lparr>fe_Path = '''', fe_Size = 0, fe_SHA256 = '''', fe_Revision = 0, fe_Deleted = False\<rparr>"

definition empty_plan :: plan where
  "empty_plan =
     \<lparr>Upload = [], Download = [], Conflicts = [], DeleteToRemote = [], DeleteToLocal = []\<rparr>"

section \<open>\<open>Diff\<close>\<close>

definition serverAdvanced :: "(string \<rightharpoonup> file_entry) \<Rightarrow> local_entry \<Rightarrow> bool" where
  "serverAdvanced ri l =
     (case ri (le_Path l) of
        None \<Rightarrow> False
      | Some r \<Rightarrow> fe_Revision r \<noteq> le_BaseRevision l \<or> fe_Deleted r)"

definition diff_local :: "(string \<rightharpoonup> file_entry) \<Rightarrow> plan \<Rightarrow> local_entry \<Rightarrow> plan" where
  "diff_local ri p l =
     (let ok = ri (le_Path l) \<noteq> None;
          r = (case ri (le_Path l) of None \<Rightarrow> zero_FileEntry | Some r \<Rightarrow> r);
          advanced = serverAdvanced ri l
      in case le_State l of
           StateClean \<Rightarrow>
             if advanced then
               if fe_Deleted r then p\<lparr>DeleteToLocal := DeleteToLocal p @ [r]\<rparr>
               else p\<lparr>Download := Download p @ [r]\<rparr>
             else p
         | StateModified \<Rightarrow>
             if \<not> ok \<or> \<not> advanced then p\<lparr>Upload := Upload p @ [l]\<rparr>
             else if fe_SHA256 r = le_CurrentSHA256 l then p
             else p\<lparr>Conflicts := Conflicts p @
                    [\<lparr>cf_Path = le_Path l, cf_LocalSHA = le_CurrentSHA256 l,
                      cf_RemoteSHA = fe_SHA256 r\<rparr>]\<rparr>
         | StateDeleted \<Rightarrow>
             if \<not> ok \<or> \<not> advanced then p\<lparr>DeleteToRemote := DeleteToRemote p @ [l]\<rparr>
             else if \<not> fe_Deleted r then
               p\<lparr>Conflicts := Conflicts p @
                  [\<lparr>cf_Path = le_Path l, cf_LocalSHA = '''', cf_RemoteSHA = fe_SHA256 r\<rparr>]\<rparr>
             else p
         | StateOther _ \<Rightarrow> p)"

definition diff_remote ::
    "(string \<rightharpoonup> file_entry) \<Rightarrow> (string \<Rightarrow> bool) \<Rightarrow> plan \<Rightarrow> string \<Rightarrow> plan" where
  "diff_remote ri seen p path =
     (case ri path of
        None \<Rightarrow> p
      | Some r \<Rightarrow>
          if \<not> seen path \<and> \<not> fe_Deleted r then p\<lparr>Download := Download p @ [r]\<rparr> else p)"

definition Diff ::
    "(string list \<Rightarrow> string list) \<Rightarrow> local_entry list \<Rightarrow> file_entry list \<Rightarrow> plan" where
  "Diff rng local remote =
     (let ri = index_by fe_Path remote;
          seen = (\<lambda>path. path \<in> set (map le_Path local));
          p = foldl (diff_local ri) empty_plan local
      in foldl (diff_remote ri seen) p (rng (remdups (map fe_Path remote))))"

section \<open>\<open>BuildLocal\<close>\<close>

definition build_scanned :: "(string \<rightharpoonup> local_entry) \<Rightarrow> file_entry \<Rightarrow> local_entry" where
  "build_scanned bi s =
     (case bi (fe_Path s) of
        None \<Rightarrow>
          \<lparr>le_Path = fe_Path s, le_Size = fe_Size s, le_BaseRevision = 0, le_BaseSHA256 = '''',
           le_CurrentSHA256 = fe_SHA256 s, le_State = StateModified\<rparr>
      | Some b \<Rightarrow>
          \<lparr>le_Path = fe_Path s, le_Size = fe_Size s,
           le_BaseRevision = le_BaseRevision b, le_BaseSHA256 = le_BaseSHA256 b,
           le_CurrentSHA256 = fe_SHA256 s,
           le_State = (if fe_SHA256 s = le_BaseSHA256 b then StateClean else StateModified)\<rparr>)"

definition build_deleted :: "local_entry \<Rightarrow> local_entry" where
  "build_deleted b =
     \<lparr>le_Path = le_Path b, le_Size = 0, le_BaseRevision = le_BaseRevision b,
      le_BaseSHA256 = le_BaseSHA256 b, le_CurrentSHA256 = '''', le_State = StateDeleted\<rparr>"

definition BuildLocal :: "file_entry list \<Rightarrow> local_entry list \<Rightarrow> local_entry list" where
  "BuildLocal scanned base =
     (let bi = index_by le_Path base;
          seen = (\<lambda>path. path \<in> set (map fe_Path scanned));
          out = foldl (\<lambda>out s. out @ [build_scanned bi s]) [] scanned
      in foldl (\<lambda>out b. if \<not> seen (le_Path b) \<and> le_State b \<noteq> StateDeleted
                        then out @ [build_deleted b] else out) out base)"

section \<open>\<open>ConflictName\<close>\<close>

text \<open>A UTC instant to the second, as \<open>at.UTC()\<close> presents it to \<open>Format\<close>.\<close>

record utc_time =
  t_year :: nat
  t_month :: nat
  t_day :: nat
  t_hour :: nat
  t_minute :: nat
  t_second :: nat

definition utc_ok :: "utc_time \<Rightarrow> bool" where
  "utc_ok t \<longleftrightarrow> t_year t < 10000 \<and> t_month t < 100 \<and> t_day t < 100 \<and> t_hour t < 100 \<and>
     t_minute t < 100 \<and> t_second t < 100"

definition digit :: "nat \<Rightarrow> char" where
  "digit n = char_of (48 + n mod 10)"

definition pad2 :: "nat \<Rightarrow> string" where
  "pad2 n = [digit (n div 10), digit n]"

definition pad4 :: "nat \<Rightarrow> string" where
  "pad4 n = [digit (n div 1000), digit (n div 100), digit (n div 10), digit n]"

definition format_stamp :: "utc_time \<Rightarrow> string" where
  "format_stamp t = pad4 (t_year t) @ pad2 (t_month t) @ pad2 (t_day t) @ ''T'' @
     pad2 (t_hour t) @ pad2 (t_minute t) @ pad2 (t_second t) @ ''Z''"

definition ConflictName :: "string \<Rightarrow> string \<Rightarrow> utc_time \<Rightarrow> string" where
  "ConflictName path device at = path @ ''.conflict-'' @ device @ ''-'' @ format_stamp at"

section \<open>The abstract specification: one action per path\<close>

datatype action = NoAction | DoUpload | DoDownload | DoDeleteRemote | DoDeleteLocal | DoConflict

fun decide :: "local_entry option \<Rightarrow> file_entry option \<Rightarrow> action" where
  "decide None None = NoAction"
| "decide None (Some r) = (if fe_Deleted r then NoAction else DoDownload)"
| "decide (Some l) None =
     (case le_State l of StateModified \<Rightarrow> DoUpload | StateDeleted \<Rightarrow> DoDeleteRemote
      | _ \<Rightarrow> NoAction)"
| "decide (Some l) (Some r) =
     (let unchanged = fe_Revision r = le_BaseRevision l \<and> \<not> fe_Deleted r in
      case le_State l of
        StateClean \<Rightarrow>
          if unchanged then NoAction else if fe_Deleted r then DoDeleteLocal else DoDownload
      | StateModified \<Rightarrow>
          if unchanged then DoUpload
          else if fe_SHA256 r = le_CurrentSHA256 l then NoAction else DoConflict
      | StateDeleted \<Rightarrow>
          if unchanged then DoDeleteRemote else if fe_Deleted r then NoAction else DoConflict
      | StateOther _ \<Rightarrow> NoAction)"

definition planned :: "plan \<Rightarrow> string \<Rightarrow> action set" where
  "planned p k =
     (if k \<in> le_Path ` set (Upload p) then {DoUpload} else {}) \<union>
     (if k \<in> fe_Path ` set (Download p) then {DoDownload} else {}) \<union>
     (if k \<in> cf_Path ` set (Conflicts p) then {DoConflict} else {}) \<union>
     (if k \<in> le_Path ` set (DeleteToRemote p) then {DoDeleteRemote} else {}) \<union>
     (if k \<in> fe_Path ` set (DeleteToLocal p) then {DoDeleteLocal} else {})"

section \<open>The loops of \<open>Diff\<close> as filters\<close>

abbreviation act :: "(string \<rightharpoonup> file_entry) \<Rightarrow> local_entry \<Rightarrow> action" where
  "act ri l \<equiv> decide (Some l) (ri (le_Path l))"

definition conflict_of :: "(string \<rightharpoonup> file_entry) \<Rightarrow> local_entry \<Rightarrow> conflict" where
  "conflict_of ri l =
     \<lparr>cf_Path = le_Path l,
      cf_LocalSHA = (if le_State l = StateDeleted then '''' else le_CurrentSHA256 l),
      cf_RemoteSHA = fe_SHA256 (the (ri (le_Path l)))\<rparr>"

lemma diff_local_act:
  "diff_local ri p l =
     (case act ri l of
        NoAction \<Rightarrow> p
      | DoUpload \<Rightarrow> p\<lparr>Upload := Upload p @ [l]\<rparr>
      | DoDownload \<Rightarrow> p\<lparr>Download := Download p @ [the (ri (le_Path l))]\<rparr>
      | DoDeleteRemote \<Rightarrow> p\<lparr>DeleteToRemote := DeleteToRemote p @ [l]\<rparr>
      | DoDeleteLocal \<Rightarrow> p\<lparr>DeleteToLocal := DeleteToLocal p @ [the (ri (le_Path l))]\<rparr>
      | DoConflict \<Rightarrow> p\<lparr>Conflicts := Conflicts p @ [conflict_of ri l]\<rparr>)"
  by (cases "ri (le_Path l)"; cases "le_State l")
    (simp_all add: diff_local_def serverAdvanced_def conflict_of_def Let_def)

lemma foldl_diff_local:
  "Upload (foldl (diff_local ri) p ls) = Upload p @ filter (\<lambda>l. act ri l = DoUpload) ls"
  "Download (foldl (diff_local ri) p ls) =
     Download p @ map (\<lambda>l. the (ri (le_Path l))) (filter (\<lambda>l. act ri l = DoDownload) ls)"
  "Conflicts (foldl (diff_local ri) p ls) =
     Conflicts p @ map (conflict_of ri) (filter (\<lambda>l. act ri l = DoConflict) ls)"
  "DeleteToRemote (foldl (diff_local ri) p ls) =
     DeleteToRemote p @ filter (\<lambda>l. act ri l = DoDeleteRemote) ls"
  "DeleteToLocal (foldl (diff_local ri) p ls) =
     DeleteToLocal p @ map (\<lambda>l. the (ri (le_Path l))) (filter (\<lambda>l. act ri l = DoDeleteLocal) ls)"
  by (induction ls arbitrary: p) (simp_all add: diff_local_act split: action.split)

lemma foldl_diff_remote:
  "Upload (foldl (diff_remote ri seen) p ks) = Upload p"
  "Conflicts (foldl (diff_remote ri seen) p ks) = Conflicts p"
  "DeleteToRemote (foldl (diff_remote ri seen) p ks) = DeleteToRemote p"
  "DeleteToLocal (foldl (diff_remote ri seen) p ks) = DeleteToLocal p"
  "Download (foldl (diff_remote ri seen) p ks) =
     Download p @ map (\<lambda>k. the (ri k))
       (filter (\<lambda>k. \<not> seen k \<and> decide None (ri k) = DoDownload) ks)"
  by (induction ks arbitrary: p) (auto simp: diff_remote_def split: option.split)

lemma Diff_lists:
  fixes local remote rng
  defines "ri \<equiv> index_by fe_Path remote"
  shows
  "Upload (Diff rng local remote) = filter (\<lambda>l. act ri l = DoUpload) local"
  "DeleteToRemote (Diff rng local remote) = filter (\<lambda>l. act ri l = DoDeleteRemote) local"
  "DeleteToLocal (Diff rng local remote) =
     map (\<lambda>l. the (ri (le_Path l))) (filter (\<lambda>l. act ri l = DoDeleteLocal) local)"
  "Conflicts (Diff rng local remote) =
     map (conflict_of ri) (filter (\<lambda>l. act ri l = DoConflict) local)"
  "Download (Diff rng local remote) =
     map (\<lambda>l. the (ri (le_Path l))) (filter (\<lambda>l. act ri l = DoDownload) local) @
     map (\<lambda>k. the (ri k))
       (filter (\<lambda>k. k \<notin> le_Path ` set local \<and> decide None (ri k) = DoDownload)
          (rng (remdups (map fe_Path remote))))"
  by (simp_all add: Diff_def Let_def foldl_diff_local foldl_diff_remote empty_plan_def ri_def)

text \<open>The server's entry that an action carries is the entry of the same path.\<close>

lemma act_has_remote:
  "act ri l \<in> {DoDownload, DoDeleteLocal, DoConflict} \<Longrightarrow> \<exists>r. ri (le_Path l) = Some r"
  by (cases "ri (le_Path l)"; cases "le_State l") auto

lemma act_path:
  assumes "ri = index_by fe_Path remote" "act ri l \<in> {DoDownload, DoDeleteLocal, DoConflict}"
  shows "fe_Path (the (ri (le_Path l))) = le_Path l"
  using act_has_remote[of l ri] assms by (auto dest: index_by_Some)

lemma decide_None_Download: "decide None ro = DoDownload \<longleftrightarrow> (\<exists>r. ro = Some r \<and> \<not> fe_Deleted r)"
  by (cases ro) auto

lemma Diff_paths:
  fixes local remote rng
  defines "ri \<equiv> index_by fe_Path remote"
  assumes rng: "range_order rng"
  shows
  "le_Path ` set (Upload (Diff rng local remote)) =
     {le_Path l |l. l \<in> set local \<and> act ri l = DoUpload}"
  "le_Path ` set (DeleteToRemote (Diff rng local remote)) =
     {le_Path l |l. l \<in> set local \<and> act ri l = DoDeleteRemote}"
  "fe_Path ` set (DeleteToLocal (Diff rng local remote)) =
     {le_Path l |l. l \<in> set local \<and> act ri l = DoDeleteLocal}"
  "cf_Path ` set (Conflicts (Diff rng local remote)) =
     {le_Path l |l. l \<in> set local \<and> act ri l = DoConflict}"
  "fe_Path ` set (Download (Diff rng local remote)) =
     {le_Path l |l. l \<in> set local \<and> act ri l = DoDownload} \<union>
     {k. k \<notin> le_Path ` set local \<and> decide None (ri k) = DoDownload}"
proof -
  note L = Diff_lists[of rng local remote, folded ri_def]
  have path: "fe_Path (the (ri (le_Path l))) = le_Path l"
    if "act ri l \<in> {DoDownload, DoDeleteLocal, DoConflict}" for l
    using act_path[of ri remote l] that ri_def by simp
  show "le_Path ` set (Upload (Diff rng local remote)) =
     {le_Path l |l. l \<in> set local \<and> act ri l = DoUpload}"
    "le_Path ` set (DeleteToRemote (Diff rng local remote)) =
     {le_Path l |l. l \<in> set local \<and> act ri l = DoDeleteRemote}"
    by (auto simp: L)
  have "fe_Path (the (ri (le_Path l))) = le_Path l" if "act ri l = DoDeleteLocal" for l
    using path that by simp
  then show "fe_Path ` set (DeleteToLocal (Diff rng local remote)) =
     {le_Path l |l. l \<in> set local \<and> act ri l = DoDeleteLocal}"
    by (simp add: L image_image) force
  show "cf_Path ` set (Conflicts (Diff rng local remote)) =
     {le_Path l |l. l \<in> set local \<and> act ri l = DoConflict}"
    by (simp add: L image_image conflict_of_def) blast
  have a: "fe_Path (the (ri (le_Path l))) = le_Path l" if "act ri l = DoDownload" for l
    using path that by simp
  have b: "fe_Path (the (ri k)) = k \<and> k \<in> fe_Path ` set remote"
    if "decide None (ri k) = DoDownload" for k
    using that by (auto simp: decide_None_Download ri_def dest: index_by_Some)
  have "fe_Path ` (\<lambda>k. the (ri k)) ` {k \<in> fe_Path ` set remote. k \<notin> le_Path ` set local \<and>
      decide None (ri k) = DoDownload} = {k. k \<notin> le_Path ` set local \<and> decide None (ri k) = DoDownload}"
    using b by (auto simp: image_image image_iff)
  moreover have "fe_Path ` (\<lambda>l. the (ri (le_Path l))) ` {l \<in> set local. act ri l = DoDownload} =
      {le_Path l |l. l \<in> set local \<and> act ri l = DoDownload}"
    using a by (simp add: image_image) force
  ultimately show "fe_Path ` set (Download (Diff rng local remote)) =
     {le_Path l |l. l \<in> set local \<and> act ri l = DoDownload} \<union>
     {k. k \<notin> le_Path ` set local \<and> decide None (ri k) = DoDownload}"
    by (simp add: L image_Un range_order_set[OF rng])
qed

lemma local_act_iff:
  assumes "distinct (map le_Path local)"
  shows "(\<exists>l. k = le_Path l \<and> l \<in> set local \<and> act ri l = a) \<longleftrightarrow>
     (\<exists>l. index_by le_Path local k = Some l \<and> decide (Some l) (ri k) = a)"
  using index_by_distinct[OF assms] by (auto dest!: index_by_Some)

lemma planned_Diff:
  assumes "distinct (map le_Path local)" "range_order rng"
  shows "planned (Diff rng local remote) k =
    {decide (index_by le_Path local k) (index_by fe_Path remote k)} - {NoAction}"
proof -
  define ri where "ri = index_by fe_Path remote"
  define d where "d = decide (index_by le_Path local k) (ri k)"
  note P = Diff_paths[OF assms(2), of local remote, folded ri_def]
  note E = local_act_iff[OF assms(1), of k ri]
  have seen: "k \<in> le_Path ` set local \<longleftrightarrow> index_by le_Path local k \<noteq> None"
    by (simp add: index_by_None_iff)
  have none: "decide None (ri k) \<in> {NoAction, DoDownload}" by (cases "ri k") auto
  show ?thesis
  proof (cases "index_by le_Path local k")
    case None
    with none show ?thesis
      unfolding planned_def P using E seen by (auto simp: d_def ri_def)
  next
    case (Some l)
    have "(\<exists>l. k = le_Path l \<and> l \<in> set local \<and> act ri l = a) \<longleftrightarrow> d = a" for a
      using E Some by (simp add: d_def)
    then show ?thesis
      unfolding planned_def P using seen Some
      by (cases d) (simp_all add: d_def ri_def)
  qed
qed

section \<open>The result of \<open>BuildLocal\<close>\<close>

lemma BuildLocal_eq:
  "BuildLocal scanned base =
     map (build_scanned (index_by le_Path base)) scanned @
     map build_deleted
       (filter (\<lambda>b. le_Path b \<notin> fe_Path ` set scanned \<and> le_State b \<noteq> StateDeleted) base)"
  by (simp add: BuildLocal_def Let_def foldl_append_if foldl_append_map)

lemma build_paths [simp]:
  "le_Path (build_scanned bi s) = fe_Path s" "le_Path (build_deleted b) = le_Path b"
  by (simp_all add: build_scanned_def build_deleted_def split: option.split)

lemma distinct_BuildLocal:
  assumes "distinct (map fe_Path scanned)" "distinct (map le_Path base)"
  shows "distinct (map le_Path (BuildLocal scanned base))"
proof -
  have "distinct (map le_Path (filter Q base))" for Q
    using assms(2) by (simp add: distinct_map_filter)
  then show ?thesis
    using assms(1) by (auto simp: BuildLocal_eq comp_def) (metis image_eqI)
qed

definition local_state_of :: "file_entry option \<Rightarrow> local_entry option \<Rightarrow> local_entry option" where
  "local_state_of s b =
     (case (s, b) of
        (Some s, None) \<Rightarrow> Some (build_scanned Map.empty s)
      | (Some s, Some b) \<Rightarrow> Some (build_scanned [fe_Path s \<mapsto> b] s)
      | (None, Some b) \<Rightarrow> if le_State b \<noteq> StateDeleted then Some (build_deleted b) else None
      | (None, None) \<Rightarrow> None)"

lemma BuildLocal_lookup:
  assumes "distinct (map fe_Path scanned)" "distinct (map le_Path base)"
  shows "index_by le_Path (BuildLocal scanned base) k =
    local_state_of (index_by fe_Path scanned k) (index_by le_Path base k)"
proof -
  let ?out = "BuildLocal scanned base" and ?bi = "index_by le_Path base"
  have D: "distinct (map le_Path ?out)" using assms by (rule distinct_BuildLocal)
  have I: "e \<in> set ?out \<Longrightarrow> index_by le_Path ?out (le_Path e) = Some e" for e
    using D by (rule index_by_distinct)
  show ?thesis
  proof (cases "index_by fe_Path scanned k")
    case (Some s)
    then have s: "s \<in> set scanned" "fe_Path s = k" by (auto dest: index_by_Some)
    then have "build_scanned ?bi s \<in> set ?out" by (simp add: BuildLocal_eq)
    from I[OF this] s have "index_by le_Path ?out k = Some (build_scanned ?bi s)" by simp
    moreover have "local_state_of (Some s) (?bi k) = Some (build_scanned ?bi s)"
      using s by (cases "?bi k") (simp_all add: local_state_of_def build_scanned_def)
    ultimately show ?thesis using Some by simp
  next
    case None
    then have ns: "k \<notin> fe_Path ` set scanned" by (simp add: index_by_None_iff)
    show ?thesis
    proof (cases "?bi k")
      case b: (Some b)
      then have bk: "b \<in> set base" "le_Path b = k" by (auto dest: index_by_Some)
      show ?thesis
      proof (cases "le_State b = StateDeleted")
        case False
        with bk ns have "build_deleted b \<in> set ?out" by (simp add: BuildLocal_eq)
        from I[OF this] bk b None False show ?thesis by (simp add: local_state_of_def)
      next
        case True
        have "b' = b" if "b' \<in> set base" "le_Path b' = k" for b'
          using index_by_distinct[OF assms(2) that(1)] that(2) b by simp
        then have "k \<notin> le_Path ` set ?out"
          using ns True by (fastforce simp: BuildLocal_eq)
        then have "index_by le_Path ?out k = None" by (simp add: index_by_None_iff)
        with None b True show ?thesis by (simp add: local_state_of_def)
      qed
    next
      case b: None
      then have "k \<notin> le_Path ` set ?out"
        using ns by (auto simp: BuildLocal_eq index_by_None_iff)
      then have "index_by le_Path ?out k = None" by (simp add: index_by_None_iff)
      with None b show ?thesis by (simp add: local_state_of_def)
    qed
  qed
qed

text \<open>One round of the two functions, per path.\<close>

definition round_action ::
    "file_entry option \<Rightarrow> local_entry option \<Rightarrow> file_entry option \<Rightarrow> action" where
  "round_action s b r = decide (local_state_of s b) r"

lemma planned_round:
  assumes "distinct (map fe_Path scanned)" "distinct (map le_Path base)" "range_order rng"
  shows "planned (Diff rng (BuildLocal scanned base) remote) k =
    {round_action (index_by fe_Path scanned k) (index_by le_Path base k)
       (index_by fe_Path remote k)} - {NoAction}"
  using planned_Diff[OF distinct_BuildLocal[OF assms(1,2)] assms(3)]
    BuildLocal_lookup[OF assms(1,2)]
  by (simp add: round_action_def)

lemma Diff_never_overwrites:
  assumes "range_order rng"
  shows
  "(\<forall>l \<in> set (Upload (Diff rng local remote)) \<union> set (DeleteToRemote (Diff rng local remote)).
      l \<in> set local \<and> (case index_by fe_Path remote (le_Path l) of None \<Rightarrow> True
        | Some r \<Rightarrow> fe_Revision r = le_BaseRevision l \<and> \<not> fe_Deleted r)) \<and>
   (\<forall>r \<in> set (Download (Diff rng local remote)) \<union> set (DeleteToLocal (Diff rng local remote)).
      index_by fe_Path remote (fe_Path r) = Some r \<and>
      (fe_Path r \<in> le_Path ` set local \<longrightarrow>
         (\<exists>l \<in> set local. le_Path l = fe_Path r \<and> le_State l = StateClean)))"
proof -
  let ?ri = "index_by fe_Path remote"
  have up: "case ?ri (le_Path l) of None \<Rightarrow> True
      | Some r \<Rightarrow> fe_Revision r = le_BaseRevision l \<and> \<not> fe_Deleted r"
    if "act ?ri l = DoUpload \<or> act ?ri l = DoDeleteRemote" for l
    using that by (cases "?ri (le_Path l)"; cases "le_State l") (auto simp: Let_def split: if_splits)
  have down: "le_State l = StateClean \<and> ?ri (le_Path l) \<noteq> None"
    if "act ?ri l = DoDownload \<or> act ?ri l = DoDeleteLocal" for l
    using that by (cases "?ri (le_Path l)"; cases "le_State l") (auto simp: Let_def split: if_splits)
  have self: "?ri (fe_Path (the (?ri k))) = Some (the (?ri k)) \<and> fe_Path (the (?ri k)) = k"
    if "?ri k \<noteq> None" for k
    using that index_by_Some[of fe_Path remote k] by (cases "?ri k") auto
  let ?ok = "\<lambda>r. ?ri (fe_Path r) = Some r \<and> (fe_Path r \<in> le_Path ` set local \<longrightarrow>
      (\<exists>l \<in> set local. le_Path l = fe_Path r \<and> le_State l = StateClean))"
  have loc: "?ok (the (?ri (le_Path l)))"
    if "l \<in> set local" "act ?ri l = DoDownload \<or> act ?ri l = DoDeleteLocal" for l
    using down[OF that(2)] self[of "le_Path l"] that(1) by metis
  have rem: "?ok (the (?ri k))"
    if "k \<notin> le_Path ` set local" "decide None (?ri k) = DoDownload" for k
  proof -
    from that(2) have "?ri k \<noteq> None" by (auto simp: decide_None_Download)
    from self[OF this] that(1) show ?thesis by metis
  qed
  have "l \<in> set local \<and> (act ?ri l = DoUpload \<or> act ?ri l = DoDeleteRemote)"
    if "l \<in> set (Upload (Diff rng local remote)) \<union> set (DeleteToRemote (Diff rng local remote))"
    for l using that by (auto simp: Diff_lists)
  moreover have "?ok r"
    if r: "r \<in> set (Download (Diff rng local remote)) \<union> set (DeleteToLocal (Diff rng local remote))"
    for r
  proof -
    from r consider
      l where "r = the (?ri (le_Path l))" "l \<in> set local"
        "act ?ri l = DoDownload \<or> act ?ri l = DoDeleteLocal"
      | k where "r = the (?ri k)" "k \<notin> le_Path ` set local" "decide None (?ri k) = DoDownload"
      by (auto simp: Diff_lists)
    then show ?thesis using loc rem by cases simp_all
  qed
  ultimately show ?thesis using up by blast
qed

section \<open>Properties\<close>

text \<open>C8. \<open>Diff\<close> refines the per-path specification: whatever the order in which the runtime
  ranges over the map, the plan holds for every path exactly the action that \<open>decide\<close> gives for
  the local and the server entry of that path, and no other action.\<close>

theorem Diff_refines_decide:
  assumes "distinct (map le_Path local)" and "range_order rng"
  shows "planned (Diff rng local remote) k =
    {decide (index_by le_Path local k) (index_by fe_Path remote k)} - {NoAction}"
  using assms by (rule planned_Diff)

theorem Diff_refines_decide_witness:
  "planned
     (Diff rev
        [\<lparr>le_Path = ''a'', le_Size = 1, le_BaseRevision = 2, le_BaseSHA256 = ''s'',
          le_CurrentSHA256 = ''t'', le_State = StateModified\<rparr>]
        [\<lparr>fe_Path = ''a'', fe_Size = 1, fe_SHA256 = ''u'', fe_Revision = 4, fe_Deleted = False\<rparr>])
     ''a'' = {DoConflict}"
  by (subst Diff_refines_decide) (simp_all add: range_order_rev index_by_def)

text \<open>C9. The plan never overwrites a side that changed: an upload or a remote deletion is
  planned only where the server's entry is absent or still the baseline's live revision; a
  download over, or a deletion of, a path of the local list is planned only where the local
  entry is clean, and it carries the server's own entry of that path.\<close>

theorem Diff_never_overwrites_changes:
  assumes "range_order rng"
  shows
  "(\<forall>l \<in> set (Upload (Diff rng local remote)) \<union> set (DeleteToRemote (Diff rng local remote)).
      l \<in> set local \<and> (case index_by fe_Path remote (le_Path l) of None \<Rightarrow> True
        | Some r \<Rightarrow> fe_Revision r = le_BaseRevision l \<and> \<not> fe_Deleted r)) \<and>
   (\<forall>r \<in> set (Download (Diff rng local remote)) \<union> set (DeleteToLocal (Diff rng local remote)).
      index_by fe_Path remote (fe_Path r) = Some r \<and>
      (fe_Path r \<in> le_Path ` set local \<longrightarrow>
         (\<exists>l \<in> set local. le_Path l = fe_Path r \<and> le_State l = StateClean)))"
  using assms by (rule Diff_never_overwrites)

theorem Diff_never_overwrites_changes_witness:
  "\<exists>l. Upload (Diff (\<lambda>ks. ks)
      [\<lparr>le_Path = ''a'', le_Size = 1, le_BaseRevision = 3, le_BaseSHA256 = ''s'',
        le_CurrentSHA256 = ''t'', le_State = StateModified\<rparr>]
      [\<lparr>fe_Path = ''a'', fe_Size = 1, fe_SHA256 = ''s'', fe_Revision = 3, fe_Deleted = False\<rparr>]) = [l] \<and>
    le_Path l = ''a'' \<and> le_BaseRevision l = 3"
proof -
  let ?l = "\<lparr>le_Path = ''a'', le_Size = 1, le_BaseRevision = 3, le_BaseSHA256 = ''s'',
        le_CurrentSHA256 = ''t'', le_State = StateModified\<rparr>"
  let ?r = "[\<lparr>fe_Path = ''a'', fe_Size = 1, fe_SHA256 = ''s'', fe_Revision = 3, fe_Deleted = False\<rparr>]"
  obtain l where l: "Upload (Diff (\<lambda>ks. ks) [?l] ?r) = [l]"
    by (simp add: Diff_lists index_by_def)
  then have "l \<in> set [?l]"
    using Diff_never_overwrites_changes[OF range_order_id, of "[?l]" ?r] by fastforce
  with l show ?thesis by simp
qed

text \<open>When there is nothing left to do, the directory mirrors the server: if the plan of a
  round is empty for a path whose baseline is honest (its server row exists, and at the
  baseline's live revision holds the baseline's hash), then the path is in the directory exactly
  if it is live on the server, with the same hash.\<close>

theorem empty_round_means_mirrored:
  assumes "distinct (map fe_Path scanned)" and "distinct (map le_Path base)" and "range_order rng"
    and quiet: "planned (Diff rng (BuildLocal scanned base) remote) k = {}"
    and live: "\<forall>b \<in> set base. le_State b = StateClean"
    and honest: "\<forall>b \<in> set base. \<exists>r. index_by fe_Path remote (le_Path b) = Some r \<and>
      (fe_Revision r = le_BaseRevision b \<and> \<not> fe_Deleted r \<longrightarrow> fe_SHA256 r = le_BaseSHA256 b)"
    and hashes: "\<forall>s \<in> set scanned. fe_SHA256 s \<noteq> ''''"
      "\<forall>r \<in> set remote. fe_Deleted r \<longrightarrow> fe_SHA256 r = ''''"
  shows "map_option fe_SHA256 (index_by fe_Path scanned k) =
    (case index_by fe_Path remote k of None \<Rightarrow> None
     | Some r \<Rightarrow> if fe_Deleted r then None else Some (fe_SHA256 r))"
proof -
  let ?s = "index_by fe_Path scanned k" and ?b = "index_by le_Path base k"
    and ?r = "index_by fe_Path remote k"
  have no: "round_action ?s ?b ?r = NoAction"
    using quiet planned_round[OF assms(1-3)] by auto
  have b: "le_State b = StateClean \<and> (\<exists>r. ?r = Some r \<and>
      (fe_Revision r = le_BaseRevision b \<and> \<not> fe_Deleted r \<longrightarrow> fe_SHA256 r = le_BaseSHA256 b))"
    if "?b = Some b" for b
    using live honest that index_by_Some[OF that] by metis
  have s: "fe_SHA256 s \<noteq> ''''" if "?s = Some s" for s
    using hashes(1) index_by_Some[OF that] by blast
  have r: "fe_Deleted r \<longrightarrow> fe_SHA256 r = ''''" if "?r = Some r" for r
    using hashes(2) index_by_Some[OF that] by blast
  show ?thesis
    using no b s r
    by (cases ?s; cases ?b; cases ?r)
      (auto simp: round_action_def local_state_of_def build_scanned_def build_deleted_def
        Let_def split: if_splits)
qed

theorem empty_round_means_mirrored_witness:
  "map_option fe_SHA256
     (index_by fe_Path
       [\<lparr>fe_Path = ''a'', fe_Size = 1, fe_SHA256 = ''s'', fe_Revision = 0, fe_Deleted = False\<rparr>]
       ''a'') = Some ''s'' \<and>
   map_option fe_SHA256
     (index_by fe_Path
       [\<lparr>fe_Path = ''a'', fe_Size = 1, fe_SHA256 = ''s'', fe_Revision = 0, fe_Deleted = False\<rparr>]
       ''a'') =
    (case index_by fe_Path
       [\<lparr>fe_Path = ''a'', fe_Size = 1, fe_SHA256 = ''s'', fe_Revision = 3, fe_Deleted = False\<rparr>]
       ''a'' of None \<Rightarrow> None | Some r \<Rightarrow> if fe_Deleted r then None else Some (fe_SHA256 r))"
proof (rule conjI)
  show "map_option fe_SHA256 (index_by fe_Path
       [\<lparr>fe_Path = ''a'', fe_Size = 1, fe_SHA256 = ''s'', fe_Revision = 0, fe_Deleted = False\<rparr>]
       ''a'') = Some ''s''"
    by (simp add: index_by_def)
  show "map_option fe_SHA256 (index_by fe_Path
       [\<lparr>fe_Path = ''a'', fe_Size = 1, fe_SHA256 = ''s'', fe_Revision = 0, fe_Deleted = False\<rparr>]
       ''a'') =
    (case index_by fe_Path
       [\<lparr>fe_Path = ''a'', fe_Size = 1, fe_SHA256 = ''s'', fe_Revision = 3, fe_Deleted = False\<rparr>]
       ''a'' of None \<Rightarrow> None | Some r \<Rightarrow> if fe_Deleted r then None else Some (fe_SHA256 r))"
    by (rule empty_round_means_mirrored [where rng = rev and base =
         "[\<lparr>le_Path = ''a'', le_Size = 1, le_BaseRevision = 3, le_BaseSHA256 = ''s'',
            le_CurrentSHA256 = ''s'', le_State = StateClean\<rparr>]"])
      (simp_all add: range_order_rev index_by_def planned_def Diff_lists BuildLocal_eq
        build_scanned_def)
qed

subsection \<open>Conflict names\<close>

lemma digit_inj: "digit a = digit b \<Longrightarrow> a mod 10 = b mod 10"
proof -
  assume "digit a = digit b"
  then have "of_char (digit a) = (of_char (digit b) :: nat)" by simp
  moreover have "48 + m mod 10 < (256 :: nat)" for m :: nat
    using mod_less_divisor[of 10 m] by linarith
  ultimately show ?thesis by (simp add: digit_def)
qed

lemma div_mod_10: "a mod 10 = b mod 10 \<Longrightarrow> a div 10 = b div 10 \<Longrightarrow> a = (b :: nat)"
  by (metis div_mult_mod_eq)

lemma pad2_inj:
  assumes "a < 100" "b < 100" "pad2 a = pad2 b"
  shows "a = b"
proof -
  have "a div 10 < 10" "b div 10 < 10" using assms(1,2) by simp_all
  then have "a div 10 = b div 10"
    using assms(3) digit_inj[of "a div 10" "b div 10"] by (simp add: pad2_def)
  then show ?thesis using assms(3) by (auto simp: pad2_def dest: digit_inj intro: div_mod_10)
qed

lemma pad4_inj:
  assumes "a < 10000" "b < 10000" "pad4 a = pad4 b"
  shows "a = b"
proof -
  have "a div 1000 < 10" "b div 1000 < 10" using assms(1,2) by simp_all
  then have "a div 1000 = b div 1000"
    using assms(3) digit_inj[of "a div 1000" "b div 1000"] by (simp add: pad4_def)
  then have "a div 100 div 10 = b div 100 div 10" by (simp add: div_mult2_eq[symmetric])
  then have "a div 100 = b div 100"
    using assms(3) by (auto simp: pad4_def dest: digit_inj intro: div_mod_10)
  then have "a div 10 div 10 = b div 10 div 10" by (simp add: div_mult2_eq[symmetric])
  then have "a div 10 = b div 10"
    using assms(3) by (auto simp: pad4_def dest: digit_inj intro: div_mod_10)
  then show ?thesis using assms(3) by (auto simp: pad4_def dest: digit_inj intro: div_mod_10)
qed

lemma length_stamp [simp]: "length (format_stamp t) = 16"
  by (simp add: format_stamp_def pad2_def pad4_def)

lemma format_stamp_inj:
  assumes "utc_ok t" "utc_ok u" "format_stamp t = format_stamp u"
  shows "t = u"
proof -
  have "pad4 (t_year t) = pad4 (t_year u)" "pad2 (t_month t) = pad2 (t_month u)"
    "pad2 (t_day t) = pad2 (t_day u)" "pad2 (t_hour t) = pad2 (t_hour u)"
    "pad2 (t_minute t) = pad2 (t_minute u)" "pad2 (t_second t) = pad2 (t_second u)"
    using assms(3) by (simp_all add: format_stamp_def pad2_def pad4_def)
  then have "t_year t = t_year u" "t_month t = t_month u" "t_day t = t_day u"
    "t_hour t = t_hour u" "t_minute t = t_minute u" "t_second t = t_second u"
    using assms(1,2) pad4_inj pad2_inj unfolding utc_ok_def by blast+
  then show ?thesis by simp
qed

text \<open>Conflict copies never collide: for one device name, two conflict copies have the same
  name only if they are copies of the same path made in the same second, and no conflict copy
  takes the name of the file it is a copy of.\<close>

theorem ConflictName_injective:
  assumes "utc_ok t" and "utc_ok u"
  shows "(ConflictName p d t = ConflictName q d u \<longleftrightarrow> p = q \<and> t = u) \<and> ConflictName p d t \<noteq> p"
proof -
  have "p @ ''.conflict-'' @ d @ ''-'' @ format_stamp t =
        q @ ''.conflict-'' @ d @ ''-'' @ format_stamp u \<longleftrightarrow> p = q \<and> t = u"
    using format_stamp_inj[OF assms] by (auto simp: append_eq_append_conv)
  then show ?thesis by (simp add: ConflictName_def)
qed

theorem ConflictName_injective_witness:
  "ConflictName ''src/a.go'' ''laptop'' \<lparr>t_year = 2026, t_month = 7, t_day = 19, t_hour = 8,
     t_minute = 30, t_second = 0\<rparr> = ''src/a.go.conflict-laptop-20260719T083000Z'' \<and>
   ConflictName ''src/a.go'' ''laptop'' \<lparr>t_year = 2026, t_month = 7, t_day = 19, t_hour = 8,
     t_minute = 30, t_second = 0\<rparr> \<noteq> ''src/a.go''"
proof (rule conjI)
  let ?t = "\<lparr>t_year = 2026, t_month = 7, t_day = 19, t_hour = 8, t_minute = 30, t_second = 0\<rparr>"
  show "ConflictName ''src/a.go'' ''laptop'' ?t = ''src/a.go.conflict-laptop-20260719T083000Z''"
    by code_simp
  have "utc_ok ?t" by (simp add: utc_ok_def)
  then show "ConflictName ''src/a.go'' ''laptop'' ?t \<noteq> ''src/a.go''"
    using ConflictName_injective[of ?t ?t] by blast
qed

end
