(* ===== verification/Storage_Gate.thy ===== *)
theory Storage_Gate
  imports Manifest "HOL-Library.AList"
begin

text \<open>
  \<^verbatim>\<open>internal/storage/accounting.go\<close>: the disk accounting of a project. \<open>MemoryIndex\<close> is a Go map
  of maps, here an association list of association lists; \<open>DiskUsed\<close> adds the sizes of the
  entries not deleted in the order \<open>range\<close> visits the map (the parameter \<open>rng\<close>). \<open>Gate.Allow\<close>
  decides on 64-bit integers whether a write may grow a project.

  \<open>total_size\<close> is the abstract meaning of "bytes used": the sum, over a finite map from paths to
  entries, of the sizes of the entries not deleted. The other implementation of the same sum,
  over the rows of a table, is in \<open>Pg_Store\<close>.
\<close>

section \<open>The code\<close>

datatype storage_error = ErrDiskFull

record memory_index =
  mi_m :: "(string \<times> (string \<times> file_entry) list) list"

definition NewMemoryIndex :: memory_index where
  "NewMemoryIndex = \<lparr>mi_m = []\<rparr>"

definition mi_project :: "memory_index \<Rightarrow> string \<Rightarrow> (string \<times> file_entry) list" where
  "mi_project i pid = (case map_of (mi_m i) pid of None \<Rightarrow> [] | Some t \<Rightarrow> t)"

definition mi_Upsert :: "string \<Rightarrow> file_entry \<Rightarrow> memory_index \<Rightarrow> memory_index" where
  "mi_Upsert pid e i =
     i\<lparr>mi_m := AList.update pid (AList.update (fe_Path e) e (mi_project i pid)) (mi_m i)\<rparr>"

definition mi_DiskUsed :: "(string list \<Rightarrow> string list) \<Rightarrow> string \<Rightarrow> memory_index \<Rightarrow> int64" where
  "mi_DiskUsed rng pid i =
     (let t = mi_project i pid in
      foldl (\<lambda>sum k. case map_of t k of None \<Rightarrow> sum
                     | Some e \<Rightarrow> if \<not> fe_Deleted e then sum + fe_Size e else sum)
        0 (rng (map fst t)))"

record gate =
  g_Limit :: int64

definition Gate_Allow :: "gate \<Rightarrow> int64 \<Rightarrow> int64 \<Rightarrow> int64 \<Rightarrow> storage_error option" where
  "Gate_Allow g used oldSize newSize =
     (if sint newSize \<le> sint oldSize then None
      else if sint (used - oldSize + newSize) > sint (g_Limit g) then Some ErrDiskFull
      else None)"

section \<open>Bytes used, abstractly\<close>

definition live_size :: "file_entry option \<Rightarrow> int" where
  "live_size eo = (case eo of None \<Rightarrow> 0 | Some e \<Rightarrow> if fe_Deleted e then 0 else sint (fe_Size e))"

definition total_size :: "(string \<rightharpoonup> file_entry) \<Rightarrow> int" where
  "total_size m = (\<Sum>k \<in> dom m. live_size (m k))"

lemma live_size_simps [simp]:
  "live_size None = 0"
  "live_size (Some e) = (if fe_Deleted e then 0 else sint (fe_Size e))"
  by (simp_all add: live_size_def)

lemma total_size_superset:
  "finite A \<Longrightarrow> dom m \<subseteq> A \<Longrightarrow> total_size m = (\<Sum>k \<in> A. live_size (m k))"
  unfolding total_size_def by (rule sum.mono_neutral_left) (auto simp: domIff)

lemma total_size_update:
  assumes "finite (dom m)"
  shows "total_size (m(k \<mapsto> e)) = total_size m - live_size (m k) + live_size (Some e)"
proof -
  let ?A = "insert k (dom m)"
  have "total_size (m(k \<mapsto> e)) = (\<Sum>j \<in> ?A. live_size ((m(k \<mapsto> e)) j))"
    using assms by (intro total_size_superset) auto
  also have "\<dots> = live_size (Some e) + (\<Sum>j \<in> ?A - {k}. live_size (m j))"
    using assms by (subst sum.remove[of _ k]) (auto intro!: sum.cong)
  also have "(\<Sum>j \<in> ?A - {k}. live_size (m j)) = (\<Sum>j \<in> ?A. live_size (m j)) - live_size (m k)"
    using assms by (subst sum.remove[of ?A k]) auto
  also have "(\<Sum>j \<in> ?A. live_size (m j)) = total_size m"
    using assms by (intro total_size_superset[symmetric]) auto
  finally show ?thesis by (simp add: fun_upd_def)
qed

lemma total_size_ge:
  assumes "finite (dom m)" "\<forall>j e. m j = Some e \<longrightarrow> 0 \<le> sint (fe_Size e)"
  shows "live_size (m k) \<le> total_size m \<and> 0 \<le> total_size m"
proof -
  have "\<forall>j. 0 \<le> live_size (m j)" using assms(2) by (auto simp: live_size_def split: option.split)
  then show ?thesis
    using member_le_sum[of k "dom m" "\<lambda>j. live_size (m j)"] assms(1) sum_nonneg[of "dom m" "\<lambda>j. live_size (m j)"]
    by (cases "k \<in> dom m") (auto simp: total_size_def domIff)
qed

lemma total_size_map_of:
  "distinct (map fst t) \<Longrightarrow>
     total_size (map_of t) = sum_list (map (\<lambda>k. live_size (map_of t k)) (map fst t))"
  using sum.distinct_set_conv_list[of "map fst t" "\<lambda>k. live_size (map_of t k)"]
  by (simp add: total_size_def dom_map_of_conv_image_fst)

section \<open>\<open>MemoryIndex\<close>\<close>

definition mi_inv :: "memory_index \<Rightarrow> bool" where
  "mi_inv i \<longleftrightarrow> (\<forall>pid. distinct (map fst (mi_project i pid)))"

lemma mi_inv_new: "mi_inv NewMemoryIndex"
  by (simp add: mi_inv_def mi_project_def NewMemoryIndex_def)

lemma mi_project_Upsert:
  "mi_project (mi_Upsert pid e i) p =
     (if p = pid then AList.update (fe_Path e) e (mi_project i pid) else mi_project i p)"
  by (simp add: mi_project_def mi_Upsert_def update_conv)

lemma mi_inv_Upsert: "mi_inv i \<Longrightarrow> mi_inv (mi_Upsert pid e i)"
  by (simp add: mi_inv_def mi_project_Upsert distinct_update)

lemma foldl_word_sum:
  "foldl (\<lambda>sum k. case map_of t k of None \<Rightarrow> sum
      | Some e \<Rightarrow> if \<not> fe_Deleted e then sum + fe_Size e else sum) s ks =
   s + word_of_int (sum_list (map (\<lambda>k. live_size (map_of t k)) ks))"
proof (induction ks arbitrary: s)
  case (Cons k ks)
  then show ?case
    by (cases "map_of t k") (auto simp: wi_hom_add[symmetric])
qed simp

lemma mi_DiskUsed_total:
  assumes "mi_inv i" "range_order rng"
  shows "mi_DiskUsed rng pid i = word_of_int (total_size (map_of (mi_project i pid)))"
proof -
  have d: "distinct (map fst (mi_project i pid))" using assms(1) by (simp add: mi_inv_def)
  let ?f = "\<lambda>k. live_size (map_of (mi_project i pid) k)"
  have "mset (rng (map fst (mi_project i pid))) = mset (map fst (mi_project i pid))"
    using assms(2) unfolding range_order_def by blast
  then have "mset (map ?f (rng (map fst (mi_project i pid)))) = mset (map ?f (map fst (mi_project i pid)))"
    by (simp only: mset_map)
  then have "sum_list (map ?f (rng (map fst (mi_project i pid)))) = sum_list (map ?f (map fst (mi_project i pid)))"
    by (simp only: sum_mset_sum_list[symmetric])
  then show ?thesis
    using total_size_map_of[OF d] by (simp only: mi_DiskUsed_def Let_def foldl_word_sum add_0)
qed

section \<open>The gate\<close>

lemma Gate_Allow_iff:
  assumes "fits64 (sint used - sint oldSize)" "fits64 (sint used - sint oldSize + sint newSize)"
  shows "Gate_Allow g used oldSize newSize = None \<longleftrightarrow>
    sint newSize \<le> sint oldSize \<or> sint used - sint oldSize + sint newSize \<le> sint (g_Limit g)"
proof -
  have "sint (used - oldSize) = sint used - sint oldSize" using assms(1) by (rule sint_sub64)
  then have "sint (used - oldSize + newSize) = sint used - sint oldSize + sint newSize"
    using assms(2) sint_add64[of "used - oldSize" newSize] by simp
  then show ?thesis by (simp add: Gate_Allow_def)
qed

section \<open>Properties\<close>

text \<open>The memory index accounts exactly: whatever order \<open>range\<close> takes, \<open>DiskUsed\<close> of a
  project after an \<open>Upsert\<close> is (modulo 2^64) its bytes before, less the bytes of the path's former
  entry, plus those of the new one (none for a tombstone), and no other project changes.\<close>

theorem MemoryIndex_accounts:
  assumes "mi_inv i" and "range_order rng"
  shows "mi_inv (mi_Upsert pid e i) \<and>
    mi_DiskUsed rng pid (mi_Upsert pid e i) =
      mi_DiskUsed rng pid i - word_of_int (live_size (map_of (mi_project i pid) (fe_Path e)))
        + word_of_int (live_size (Some e)) \<and>
    (\<forall>p. p \<noteq> pid \<longrightarrow> mi_DiskUsed rng p (mi_Upsert pid e i) = mi_DiskUsed rng p i)"
proof -
  have "map_of (AList.update (fe_Path e) e (mi_project i pid)) = (map_of (mi_project i pid))(fe_Path e \<mapsto> e)"
    by (rule ext) (simp add: update_conv')
  then show ?thesis
    using assms mi_inv_Upsert[OF assms(1), of pid e]
    by (simp add: mi_DiskUsed_total mi_project_Upsert total_size_update finite_dom_map_of wi_hom_add[symmetric]
        wi_hom_sub[symmetric])
qed

theorem MemoryIndex_accounts_witness:
  "mi_DiskUsed rev ''p'' (mi_Upsert ''p''
     \<lparr>fe_Path = ''a'', fe_Size = 5, fe_SHA256 = ''s'', fe_Revision = 1, fe_Deleted = False\<rparr>
     NewMemoryIndex) = 5"
  using MemoryIndex_accounts[OF mi_inv_new range_order_rev, of "''p''"
     "\<lparr>fe_Path = ''a'', fe_Size = 5, fe_SHA256 = ''s'', fe_Revision = 1, fe_Deleted = False\<rparr>"]
  by (simp add: mi_project_def NewMemoryIndex_def mi_DiskUsed_def)

text \<open>The gate: where the sums stay within 64 bits, a write is refused exactly if it makes the
  path larger and the projected use exceeds the limit; so an admitted write keeps the use within
  the limit or does not raise it, and shrinking or deleting is admitted even over the limit.\<close>

theorem Gate_Allow_exact:
  assumes "fits64 (sint used - sint oldSize)" and "fits64 (sint used - sint oldSize + sint newSize)"
  shows "(Gate_Allow g used oldSize newSize = None \<longleftrightarrow>
      sint newSize \<le> sint oldSize \<or> sint used - sint oldSize + sint newSize \<le> sint (g_Limit g)) \<and>
    (Gate_Allow g used oldSize newSize = None \<longrightarrow>
      sint used - sint oldSize + sint newSize \<le> max (sint used) (sint (g_Limit g)))"
  using Gate_Allow_iff[OF assms, of g] by auto

theorem Gate_Allow_exact_witness:
  "Gate_Allow \<lparr>g_Limit = 100\<rparr> 120 30 30 = None \<and> Gate_Allow \<lparr>g_Limit = 100\<rparr> 90 0 11 = Some ErrDiskFull"
proof -
  have "fits64 (sint (120 :: int64) - sint (30 :: int64))"
    "fits64 (sint (120 :: int64) - sint (30 :: int64) + sint (30 :: int64))"
    "fits64 (sint (90 :: int64) - sint (0 :: int64))"
    "fits64 (sint (90 :: int64) - sint (0 :: int64) + sint (11 :: int64))"
    by (simp_all add: fits64_def)
  note w = this
  have "sint (120 :: int64) = 120" "sint (30 :: int64) = 30" "sint (90 :: int64) = 90"
    "sint (11 :: int64) = 11" "sint (100 :: int64) = 100"
    by simp_all
  then show ?thesis
    using Gate_Allow_exact[OF w(1,2), of "\<lparr>g_Limit = 100\<rparr>"] Gate_Allow_exact[OF w(3,4), of "\<lparr>g_Limit = 100\<rparr>"]
    by (cases "Gate_Allow \<lparr>g_Limit = 100\<rparr> 90 0 11") (auto, metis (full_types) storage_error.exhaust)
qed

end
