(* ===== verification/Rev_Store.thy ===== *)
theory Rev_Store
  imports Storage_Gate
begin

text \<open>
  The interface \<open>RevisionStore\<close> of \<^verbatim>\<open>internal/sync/syncserver.go\<close>: the authoritative index of a
  project's files, one entry per path, tombstones included. The interface is a record of
  functions on the store's state; each may fail. The locale \<open>revision_store\<close> states what the
  server relies on, against the abstract index \<open>idx s pid\<close>, a finite map from paths to entries:
  a read never changes it and, when it succeeds, is exact; a commit writes exactly one path of one
  project, and a commit that reports an error may or may not have happened.
\<close>

datatype db_error = DbError

record 's rev_store =
  rs_Current :: "string \<Rightarrow> string \<Rightarrow> 's \<Rightarrow> (db_error + int64 \<times> int64 \<times> bool) \<times> 's"
  rs_Manifest :: "string \<Rightarrow> 's \<Rightarrow> (db_error + file_entry list) \<times> 's"
  rs_Commit :: "string \<Rightarrow> file_entry \<Rightarrow> string \<Rightarrow> 's \<Rightarrow> db_error option \<times> 's"
  rs_TotalSize :: "string \<Rightarrow> 's \<Rightarrow> (db_error + int64) \<times> 's"

type_synonym index = "string \<rightharpoonup> file_entry"

definition current_of :: "index \<Rightarrow> string \<Rightarrow> int64 \<times> int64 \<times> bool" where
  "current_of m path =
     (case m path of None \<Rightarrow> (0, 0, False) | Some e \<Rightarrow> (fe_Revision e, fe_Size e, True))"

definition committed :: "string \<Rightarrow> file_entry \<Rightarrow> (string \<Rightarrow> index) \<Rightarrow> string \<Rightarrow> index" where
  "committed pid e i = i(pid := (i pid)(fe_Path e \<mapsto> e))"

lemma committed_simps [simp]:
  "committed pid e i pid = (i pid)(fe_Path e \<mapsto> e)" "p \<noteq> pid \<Longrightarrow> committed pid e i p = i p"
  by (simp_all add: committed_def)

locale revision_store =
  fixes st :: "'s rev_store"
    and idx :: "'s \<Rightarrow> string \<Rightarrow> index"
    and inv :: "'s \<Rightarrow> bool"
  assumes finite_idx: "inv s \<Longrightarrow> finite (dom (idx s pid))"
    and idx_path: "inv s \<Longrightarrow> idx s pid k = Some e \<Longrightarrow> fe_Path e = k"
    and current: "inv s \<Longrightarrow> rs_Current st pid path s = (r, s') \<Longrightarrow>
          inv s' \<and> idx s' = idx s \<and> (\<forall>x. r = Inr x \<longrightarrow> x = current_of (idx s pid) path)"
    and manifest: "inv s \<Longrightarrow> rs_Manifest st pid s = (rm, s') \<Longrightarrow>
          inv s' \<and> idx s' = idx s \<and>
          (\<forall>es. rm = Inr es \<longrightarrow> distinct (map fe_Path es) \<and> index_by fe_Path es = idx s pid)"
    and commit: "inv s \<Longrightarrow> rs_Commit st pid e dev s = (rc, s') \<Longrightarrow>
          inv s' \<and> (rc = None \<longrightarrow> idx s' = committed pid e (idx s)) \<and>
          (rc \<noteq> None \<longrightarrow> idx s' = idx s \<or> idx s' = committed pid e (idx s))"
    and total: "inv s \<Longrightarrow> rs_TotalSize st pid s = (rt, s') \<Longrightarrow>
          inv s' \<and> idx s' = idx s \<and> (\<forall>n. rt = Inr n \<longrightarrow> sint n = total_size (idx s pid))"
begin

lemma commit_cases:
  assumes "inv s" "rs_Commit st pid e dev s = (rc, s')"
  obtains (not_written) "rc \<noteq> None" "inv s'" "idx s' = idx s"
    | (written) "inv s'" "idx s' = committed pid e (idx s)"
  using commit[OF assms] by (cases rc) auto

end

text \<open>A store that can be reached: \<open>up pid s\<close> says that the next statements on the project \<open>pid\<close>
  are carried out, and stays true while they are.\<close>

locale reachable_store = revision_store +
  fixes up :: "string \<Rightarrow> 's \<Rightarrow> bool"
  assumes current_up: "inv s \<Longrightarrow> up pid s \<Longrightarrow> rs_Current st pid path s = (r, s') \<Longrightarrow>
          r = Inr (current_of (idx s pid) path) \<and> up pid s'"
    and manifest_up: "inv s \<Longrightarrow> up pid s \<Longrightarrow> rs_Manifest st pid s = (rm, s') \<Longrightarrow>
          (\<exists>es. rm = Inr es) \<and> up pid s'"
    and commit_up: "inv s \<Longrightarrow> up pid s \<Longrightarrow> rs_Commit st pid e dev s = (rc, s') \<Longrightarrow>
          rc = None \<and> up pid s'"
    and total_up: "inv s \<Longrightarrow> up pid s \<Longrightarrow> fits64 (total_size (idx s pid)) \<Longrightarrow>
          rs_TotalSize st pid s = (rt, s') \<Longrightarrow> (\<exists>n. rt = Inr n) \<and> up pid s'"

end
