(* ===== verification/Sync_Paths.thy ===== *)
theory Sync_Paths
  imports Go_Prelude
begin

text \<open>
  \<^verbatim>\<open>internal/sync/paths.go\<close>: the normalisation of a relative path that every server operation
  applies first (\<open>SafeRelPath\<close>), and the default exclusion list (\<open>DefaultExcluded\<close>).
  \<open>path.Clean\<close> of Go's standard library is modelled on the path's segments: a stack of the
  segments kept so far, on which a \<open>..\<close> pops.
\<close>

section \<open>The standard library: \<open>path.Clean\<close>\<close>

fun clean_segs :: "bool \<Rightarrow> string list \<Rightarrow> string list \<Rightarrow> string list" where
  "clean_segs rooted acc [] = rev acc"
| "clean_segs rooted acc (s # ss) =
     (if s = [] \<or> s = ''.'' then clean_segs rooted acc ss
      else if s = ''..'' then
        (case acc of
           [] \<Rightarrow> clean_segs rooted (if rooted then [] else [''..'']) ss
         | a # as \<Rightarrow>
             if a = ''..'' then clean_segs rooted (''..'' # acc) ss
             else clean_segs rooted as ss)
      else clean_segs rooted (s # acc) ss)"

definition path_clean :: "string \<Rightarrow> string" where
  "path_clean p =
     (if p = [] then ''.''
      else
        let rooted = has_prefix p ''/'';
            segs = clean_segs rooted [] (split_ch (CHR ''/'') p)
        in if rooted then CHR ''/'' # join_ch (CHR ''/'') segs
           else if segs = [] then ''.''
           else join_ch (CHR ''/'') segs)"

section \<open>The code\<close>

datatype path_error = ErrUnsafePath

definition SafeRelPath :: "string \<Rightarrow> path_error + string" where
  "SafeRelPath p0 =
     (let p = replace_ch (CHR 0x5C) (CHR ''/'') p0 in
      if p = [] \<or> has_prefix p ''/'' \<or> CHR 0x00 \<in> set p then Inl ErrUnsafePath
      else if \<exists>seg \<in> set (split_ch (CHR ''/'') p). seg = ''..'' then Inl ErrUnsafePath
      else
        let clean = path_clean p in
        if clean = ''.'' \<or> has_prefix clean ''../'' then Inl ErrUnsafePath
        else Inr clean)"

definition excludedPrefixes :: "string list" where
  "excludedPrefixes =
     [''.env'', ''.cclaude/'', ''.ssh/'', ''.aws/'', ''.claude/'', ''.config/gcloud/'',
      ''.azure/'', ''.kube/'', ''.npmrc'', ''.pypirc'', ''.netrc'', ''.git-credentials'',
      ''.git/'', ''.DS_Store'',
      ''node_modules/'', ''vendor/'',
      ''target/'', ''build/'', ''dist/'', ''out/'',
      ''.gradle/'',
      ''__pycache__/'', ''.venv/'', ''venv/'', ''.pytest_cache/'', ''.mypy_cache/'', ''.tox/'']"

fun excluded_by :: "string list \<Rightarrow> string \<Rightarrow> bool" where
  "excluded_by [] p = False"
| "excluded_by (pre # pres) p =
     (if p = trim_suffix pre ''/'' \<or> has_prefix p pre then True else excluded_by pres p)"

definition DefaultExcluded :: "string \<Rightarrow> bool" where
  "DefaultExcluded p = excluded_by excludedPrefixes p"

lemma excluded_by_iff:
  "excluded_by ps p \<longleftrightarrow> (\<exists>pre \<in> set ps. p = trim_suffix pre ''/'' \<or> has_prefix p pre)"
  by (induction ps) auto

section \<open>Segments\<close>

text \<open>A clean segment names a directory entry: not empty, not \<open>.\<close> or \<open>..\<close>, no slash.\<close>

definition clean_seg :: "string \<Rightarrow> bool" where
  "clean_seg s \<longleftrightarrow> s \<noteq> [] \<and> s \<noteq> ''.'' \<and> s \<noteq> ''..'' \<and> CHR ''/'' \<notin> set s"

definition segs :: "string \<Rightarrow> string list" where
  "segs p = split_ch (CHR ''/'') p"

lemma join_segs [simp]: "join_ch (CHR ''/'') (segs p) = p"
  by (simp add: segs_def)

lemma segs_join [simp]:
  "cs \<noteq> [] \<Longrightarrow> \<forall>s \<in> set cs. clean_seg s \<Longrightarrow> segs (join_ch (CHR ''/'') cs) = cs"
  unfolding segs_def by (rule split_join) (auto simp: clean_seg_def)

lemma clean_segs_no_dotdot:
  "''..'' \<notin> set ss \<Longrightarrow>
     clean_segs r acc ss = rev acc @ filter (\<lambda>s. s \<noteq> [] \<and> s \<noteq> ''.'') ss"
  by (induction ss arbitrary: acc) auto

lemma path_clean_rel:
  assumes "p \<noteq> []" "\<not> has_prefix p ''/''" "''..'' \<notin> set (segs p)"
  shows "path_clean p =
    (let cs = filter (\<lambda>s. s \<noteq> [] \<and> s \<noteq> ''.'') (segs p) in
     if cs = [] then ''.'' else join_ch (CHR ''/'') cs)"
  using assms by (simp add: path_clean_def clean_segs_no_dotdot segs_def Let_def)

lemma clean_seg_filter:
  assumes "''..'' \<notin> set (segs p)"
  shows "\<forall>s \<in> set (filter (\<lambda>s. s \<noteq> [] \<and> s \<noteq> ''.'') (segs p)). clean_seg s"
  using assms split_ch_no_sep[of _ "CHR ''/''" p] by (auto simp: clean_seg_def segs_def)

lemma join_clean_head:
  assumes "cs \<noteq> []" "\<forall>s \<in> set cs. clean_seg s"
  shows "join_ch (CHR ''/'') cs \<noteq> []"
    and "\<not> has_prefix (join_ch (CHR ''/'') cs) ''/''"
    and "join_ch (CHR ''/'') cs \<noteq> ''.''"
    and "\<not> has_prefix (join_ch (CHR ''/'') cs) ''../''"
proof -
  obtain c r where j: "join_ch (CHR ''/'') cs = c @ r" and c: "clean_seg c"
    and r: "r = [] \<or> hd r = CHR ''/''"
    using assms by (cases "(CHR ''/'', cs)" rule: join_ch.cases) auto
  from c have ne: "c \<noteq> []" and sl: "CHR ''/'' \<notin> set c" by (auto simp: clean_seg_def)
  show "join_ch (CHR ''/'') cs \<noteq> []" using j ne by simp
  show "\<not> has_prefix (join_ch (CHR ''/'') cs) ''/''"
    using j ne sl by (cases c) auto
  show "join_ch (CHR ''/'') cs \<noteq> ''.''"
    using j c ne r by (auto simp: clean_seg_def append_eq_Cons_conv)
  show "\<not> has_prefix (join_ch (CHR ''/'') cs) ''../''"
  proof
    assume "has_prefix (join_ch (CHR ''/'') cs) ''../''"
    then obtain t where "c @ r = ''..'' @ CHR ''/'' # t" using j by (auto simp: prefix_def)
    then have "split_ch (CHR ''/'') (c @ r) = ''..'' # split_ch (CHR ''/'') t"
      using split_ch_append_sep[of "CHR ''/''" "''..''" t] by simp
    moreover have "hd (split_ch (CHR ''/'') (c @ r)) = c"
      using r sl by (cases r) (auto simp: split_ch_append_sep split_ch_single)
    ultimately show False using c by (simp add: clean_seg_def)
  qed
qed

text \<open>What \<open>SafeRelPath\<close> does, branch by branch, on the segments of the normalised path.\<close>

lemma SafeRelPath_eq:
  "SafeRelPath p0 =
     (let p = replace_ch (CHR 0x5C) (CHR ''/'') p0;
          cs = filter (\<lambda>s. s \<noteq> [] \<and> s \<noteq> ''.'') (segs p)
      in if has_prefix p ''/'' \<or> CHR 0x00 \<in> set p \<or> ''..'' \<in> set (segs p) \<or> cs = []
         then Inl ErrUnsafePath else Inr (join_ch (CHR ''/'') cs))"
proof -
  define p where "p = replace_ch (CHR 0x5C) (CHR ''/'') p0"
  define cs where "cs = filter (\<lambda>s. s \<noteq> [] \<and> s \<noteq> ''.'') (segs p)"
  show ?thesis
  proof (cases "p = [] \<or> has_prefix p ''/'' \<or> CHR 0x00 \<in> set p \<or> ''..'' \<in> set (segs p)")
    case True
    have "p = [] \<Longrightarrow> cs = []" by (simp add: cs_def segs_def)
    with True show ?thesis
      by (auto simp: SafeRelPath_def Let_def segs_def cs_def simp flip: p_def)
  next
    case False
    then have cl: "path_clean p = (if cs = [] then ''.'' else join_ch (CHR ''/'') cs)"
      by (simp add: path_clean_rel cs_def Let_def)
    from False have "\<forall>s \<in> set cs. clean_seg s"
      unfolding cs_def by (intro clean_seg_filter) simp
    then have "cs \<noteq> [] \<Longrightarrow> path_clean p \<noteq> ''.'' \<and> \<not> has_prefix (path_clean p) ''../''"
      using join_clean_head[of cs] cl by auto
    then show ?thesis
      using False cl
      by (auto simp: SafeRelPath_def Let_def segs_def simp flip: p_def cs_def[unfolded segs_def])
  qed
qed

definition safe_rel :: "string \<Rightarrow> bool" where
  "safe_rel p \<longleftrightarrow>
     segs p \<noteq> [] \<and> (\<forall>s \<in> set (segs p). clean_seg s) \<and>
     CHR 0x00 \<notin> set p \<and> CHR 0x5C \<notin> set p"

lemma SafeRelPath_safe_rel:
  assumes "SafeRelPath p = Inr q"
  shows "safe_rel q"
proof -
  define p' where "p' = replace_ch (CHR 0x5C) (CHR ''/'') p"
  define cs where "cs = filter (\<lambda>s. s \<noteq> [] \<and> s \<noteq> ''.'') (segs p')"
  from assms have q: "q = join_ch (CHR ''/'') cs" and ne: "cs \<noteq> []"
    and dd: "''..'' \<notin> set (segs p')" and nul: "CHR 0x00 \<notin> set p'"
    by (auto simp: SafeRelPath_eq Let_def cs_def p'_def split: if_splits)
  from dd have cl: "\<forall>s \<in> set cs. clean_seg s" unfolding cs_def by (rule clean_seg_filter)
  have sub: "x \<in> set p'" if "x \<in> set q" "x \<noteq> CHR ''/''" for x
  proof -
    from that q obtain s where "s \<in> set cs" "x \<in> set s" by (auto dest: set_join_ch)
    then show ?thesis using split_ch_chars[of s "CHR ''/''" p'] by (auto simp: cs_def segs_def)
  qed
  have "CHR 0x5C \<notin> set p'" by (simp add: p'_def set_replace_ch)
  with sub nul have "CHR 0x00 \<notin> set q" "CHR 0x5C \<notin> set q" by fastforce+
  with cl ne q show ?thesis by (simp add: safe_rel_def)
qed

lemma SafeRelPath_fixed: "safe_rel q \<Longrightarrow> SafeRelPath q = Inr q"
proof -
  assume s: "safe_rel q"
  then have f: "filter (\<lambda>s. s \<noteq> [] \<and> s \<noteq> ''.'') (segs q) = segs q"
    by (auto simp: safe_rel_def clean_seg_def filter_id_conv)
  have "\<not> has_prefix q ''/''"
    using s join_clean_head(2)[of "segs q"] by (simp add: safe_rel_def)
  moreover have "''..'' \<notin> set (segs q)" using s by (auto simp: safe_rel_def clean_seg_def)
  ultimately show ?thesis
    using s f by (simp add: SafeRelPath_eq Let_def safe_rel_def)
qed

section \<open>Properties\<close>

text \<open>\<open>SafeRelPath\<close> is sound: a path it accepts is returned as non-empty segments, none of them
  empty, \<open>.\<close> or \<open>..\<close>, with no backslash and no NUL; normalising again changes nothing, so a path
  is stored and looked up under one name.\<close>

theorem SafeRelPath_sound:
  assumes "SafeRelPath p = Inr q"
  shows "segs q \<noteq> [] \<and> (\<forall>s \<in> set (segs q). clean_seg s) \<and> CHR 0x00 \<notin> set q \<and>
    CHR 0x5C \<notin> set q \<and> SafeRelPath q = Inr q"
  using SafeRelPath_safe_rel[OF assms] SafeRelPath_fixed[of q] by (auto simp: safe_rel_def)

theorem SafeRelPath_sound_witness:
  "SafeRelPath (''a'' @ [CHR 0x5C] @ ''./b//c.go'') = Inr ''a/b/c.go'' \<and>
   SafeRelPath ''a/b/c.go'' = Inr ''a/b/c.go''"
proof -
  have "SafeRelPath (''a'' @ [CHR 0x5C] @ ''./b//c.go'') = Inr ''a/b/c.go''" by code_simp
  with SafeRelPath_sound[OF this] show ?thesis by blast
qed

text \<open>\<open>SafeRelPath\<close> is complete: after backslashes became slashes, it rejects exactly the
  paths that are rooted, contain a NUL, have a \<open>..\<close> segment, or have no segment left once the
  empty and \<open>.\<close> segments are dropped; every other path is accepted with exactly the remaining
  segments, in their order.\<close>

theorem SafeRelPath_complete:
  "SafeRelPath p0 =
     (if has_prefix (replace_ch (CHR 0x5C) (CHR ''/'') p0) ''/'' \<or> CHR 0x00 \<in> set p0 \<or>
         ''..'' \<in> set (segs (replace_ch (CHR 0x5C) (CHR ''/'') p0)) \<or>
         set (segs (replace_ch (CHR 0x5C) (CHR ''/'') p0)) \<subseteq> {[], ''.''}
      then Inl ErrUnsafePath
      else Inr (join_ch (CHR ''/'')
             (filter (\<lambda>s. s \<notin> {[], ''.''}) (segs (replace_ch (CHR 0x5C) (CHR ''/'') p0)))))"
proof -
  have "CHR 0x00 \<in> set (replace_ch (CHR 0x5C) (CHR ''/'') p0) \<longleftrightarrow> CHR 0x00 \<in> set p0"
    by (auto simp: replace_ch_def image_iff)
  moreover have "filter (\<lambda>s. s \<noteq> [] \<and> s \<noteq> ''.'') xs = [] \<longleftrightarrow> set xs \<subseteq> {[], ''.''}" for xs
    by (auto simp: filter_empty_conv)
  ultimately show ?thesis by (simp add: SafeRelPath_eq Let_def)
qed

text \<open>The default exclusion is decided at the top of the workspace: except below \<open>.config\<close>,
  whether a path in a directory \<open>c\<close> is excluded depends on \<open>c\<close> alone. So an excluded directory
  takes all its content with it, and a \<open>.env\<close>, \<open>.git/\<close> or \<open>node_modules/\<close> inside a directory that
  is not excluded itself is not excluded either.\<close>

theorem exclusion_is_decided_at_the_top:
  assumes "clean_seg c" and "c \<noteq> ''.config''"
  shows "DefaultExcluded (c @ ''/'' @ rest) = DefaultExcluded (c @ ''/'')"
proof -
  have pres: "\<forall>pre \<in> set excludedPrefixes. pre = ''.config/gcloud/'' \<or>
      (CHR ''/'' \<notin> set (trim_suffix pre ''/'') \<and>
       (pre = trim_suffix pre ''/'' \<or> pre = trim_suffix pre ''/'' @ ''/''))"
    by code_simp
  have c: "CHR ''/'' \<notin> set c" using assms(1) by (simp add: clean_seg_def)
  have g: "trim_suffix ''.config/gcloud/'' ''/'' = ''.config'' @ ''/gcloud''" by code_simp
  have "(c @ ''/'' @ r = trim_suffix pre ''/'' \<or> has_prefix (c @ ''/'' @ r) pre) =
      (pre \<noteq> ''.config/gcloud/'' \<and>
       (if pre = trim_suffix pre ''/'' then prefix pre c else c = trim_suffix pre ''/''))"
    if p: "pre \<in> set excludedPrefixes" for pre r
  proof (cases "pre = ''.config/gcloud/''")
    case True
    have "c @ CHR ''/'' # r \<noteq> ''.config'' @ CHR ''/'' # s" for s
      using assms(2) append_sep_eq[OF c, of "''.config''" r s]
      by simp
    then show ?thesis using True g by (auto simp: prefix_def)
  next
    case False
    define t where "t = trim_suffix pre ''/''"
    from pres p False have t: "CHR ''/'' \<notin> set t" "pre = t \<or> pre = t @ ''/''" by (auto simp: t_def)
    have ne: "c @ CHR ''/'' # r \<noteq> t" using t(1) by auto
    have "prefix (t @ ''/'') (c @ CHR ''/'' # r) \<longleftrightarrow> c = t"
      using append_sep_eq[OF c t(1)] by (auto simp: prefix_def)
    moreover have "prefix t (c @ CHR ''/'' # r) \<longleftrightarrow> prefix t c"
      using t(1) by (auto simp: prefix_append prefix_Cons)
    ultimately show ?thesis using False t(2) ne by (auto simp flip: t_def)
  qed
  then have "DefaultExcluded (c @ ''/'' @ r) = (\<exists>pre \<in> set excludedPrefixes. pre \<noteq> ''.config/gcloud/'' \<and>
       (if pre = trim_suffix pre ''/'' then prefix pre c else c = trim_suffix pre ''/''))" for r
    unfolding DefaultExcluded_def excluded_by_iff by (rule bex_cong[OF refl])
  from this[of rest] this[of "[]"] show ?thesis by simp
qed

theorem exclusion_is_decided_at_the_top_witness:
  "\<not> DefaultExcluded ''src/.env'' \<and> DefaultExcluded ''.env'' \<and> DefaultExcluded ''vendor/a/b.go''"
proof -
  have e: "\<not> DefaultExcluded ''src/'' \<and> DefaultExcluded ''.env'' \<and> DefaultExcluded ''vendor/''" by code_simp
  have "clean_seg ''src''" "clean_seg ''vendor''" by (simp_all add: clean_seg_def)
  from exclusion_is_decided_at_the_top[OF this(1), of "''.env''"]
    exclusion_is_decided_at_the_top[OF this(2), of "''a/b.go''"] e
  show ?thesis by simp
qed

end
