(* ===== verification/Os_Files.thy ===== *)
theory Os_Files
  imports Sync_Paths "HOL-Library.AList"
begin

text \<open>
  What the program uses of Go's packages \<open>os\<close> and \<open>path/filepath\<close> on a Unix host: a file
  system is a tree of directories, regular files and symbolic links; paths are resolved by the
  kernel's component walk, which follows links (at most 40) and interprets \<open>..\<close> after them.
  Not modelled: permissions, ownership, hard links, times, devices and running out of space.
  Paths are absolute (the process's working directory is the root of the tree).

  \<open>lookup\<close> and \<open>put_at\<close> are the tree's own access functions, without links; \<open>leaf\<close> is the
  view in which the properties are stated: the regular files and links, by their real path.
\<close>

section \<open>The tree\<close>

datatype errno = ENOENT | ENOTDIR | EEXIST | EISDIR | ENOTEMPTY | ELOOP

datatype node = File bytes | Dir "(string \<times> node) list" | Link string

text \<open>Directory entries are kept in the order of their names (bytewise), as \<open>os.ReadDir\<close>
  returns them.\<close>

fun str_less :: "string \<Rightarrow> string \<Rightarrow> bool" where
  "str_less _ [] = False"
| "str_less [] (_ # _) = True"
| "str_less (x # xs) (y # ys) =
     ((of_char x :: nat) < of_char y \<or> x = y \<and> str_less xs ys)"

fun ins_entry :: "string \<times> node \<Rightarrow> (string \<times> node) list \<Rightarrow> (string \<times> node) list" where
  "ins_entry e [] = [e]"
| "ins_entry e (f # es) = (if str_less (fst e) (fst f) then e # f # es else f # ins_entry e es)"

definition dir_put :: "string \<Rightarrow> node \<Rightarrow> (string \<times> node) list \<Rightarrow> (string \<times> node) list" where
  "dir_put k v es = (if k \<in> fst ` set es then AList.update k v es else ins_entry (k, v) es)"

definition dir_del :: "string \<Rightarrow> (string \<times> node) list \<Rightarrow> (string \<times> node) list" where
  "dir_del k es = filter (\<lambda>e. fst e \<noteq> k) es"

fun lookup :: "node \<Rightarrow> string list \<Rightarrow> node option" where
  "lookup n [] = Some n"
| "lookup (Dir es) (c # cs) = (case map_of es c of None \<Rightarrow> None | Some m \<Rightarrow> lookup m cs)"
| "lookup (File _) (c # cs) = None"
| "lookup (Link _) (c # cs) = None"

fun put_at :: "string list \<Rightarrow> node option \<Rightarrow> node \<Rightarrow> node" where
  "put_at [c] v (Dir es) =
     Dir (case v of None \<Rightarrow> dir_del c es | Some n \<Rightarrow> dir_put c n es)"
| "put_at (c # d # cs) v (Dir es) =
     (case map_of es c of None \<Rightarrow> Dir es | Some m \<Rightarrow> Dir (dir_put c (put_at (d # cs) v m) es))"
| "put_at _ v n = n"

definition is_dir :: "node \<Rightarrow> string list \<Rightarrow> bool" where
  "is_dir fs p = (case lookup fs p of Some (Dir _) \<Rightarrow> True | _ \<Rightarrow> False)"

definition leaf :: "node \<Rightarrow> string list \<Rightarrow> node option" where
  "leaf fs p = (case lookup fs p of Some (Dir _) \<Rightarrow> None | x \<Rightarrow> x)"

fun wf_node :: "node \<Rightarrow> bool" where
  "wf_node (Dir es) =
     (distinct (map fst es) \<and> (\<forall>e \<in> set es. clean_seg (fst e) \<and> wf_node (snd e)))"
| "wf_node _ = True"

section \<open>Facts about the tree\<close>

lemma map_of_ins_entry: "k \<notin> fst ` set es \<Longrightarrow> map_of (ins_entry (k, v) es) = (map_of es)(k \<mapsto> v)"
  by (induction es) (auto simp: fun_eq_iff)

lemma map_of_dir_put [simp]: "map_of (dir_put k v es) = (map_of es)(k \<mapsto> v)"
  by (simp add: dir_put_def map_of_ins_entry update_conv')

lemma map_of_dir_del [simp]: "map_of (dir_del k es) = (map_of es)(k := None)"
  by (induction es) (auto simp: dir_del_def fun_eq_iff)

lemma lookup_append:
  "lookup fs (p @ q) = (case lookup fs p of None \<Rightarrow> None | Some n \<Rightarrow> lookup n q)"
  by (induction fs p rule: lookup.induct) (auto split: option.split)

lemma lookup_nondir [simp]:
  "lookup (File b) p = (if p = [] then Some (File b) else None)"
  "lookup (Link t) p = (if p = [] then Some (Link t) else None)"
  by (cases p; simp)+

lemma lookup_Cons_dir: "lookup n (c # cs) = Some m \<Longrightarrow> \<exists>es. n = Dir es"
  by (cases n) auto

lemma is_dir_iff: "is_dir fs p \<longleftrightarrow> (\<exists>es. lookup fs p = Some (Dir es))"
  by (auto simp: is_dir_def split: option.splits node.splits)

lemma leaf_Some_iff: "leaf fs p = Some n \<longleftrightarrow> lookup fs p = Some n \<and> (\<forall>es. n \<noteq> Dir es)"
  by (auto simp: leaf_def split: option.splits node.splits)

lemma leaf_None_iff: "leaf fs p = None \<longleftrightarrow> lookup fs p = None \<or> is_dir fs p"
  by (auto simp: leaf_def is_dir_iff split: option.splits node.splits)

lemma lookup_prefix_dir:
  "lookup fs (p @ c # q) = Some n \<Longrightarrow> is_dir fs p"
  by (auto simp: lookup_append is_dir_iff split: option.splits dest: lookup_Cons_dir)

lemma lookup_below_nondir:
  "\<not> is_dir fs p \<Longrightarrow> lookup fs (p @ c # q) = None"
  using lookup_prefix_dir by (cases "lookup fs (p @ c # q)") auto

lemma is_dir_butlast: "lookup fs p = Some n \<Longrightarrow> p \<noteq> [] \<Longrightarrow> is_dir fs (butlast p)"
  using lookup_prefix_dir[of fs "butlast p" "last p" "[]" n] by simp

text \<open>Writing at \<open>p\<close> (whose parent is a directory): at and below \<open>p\<close>, and elsewhere.\<close>

lemma lookup_put_at_below:
  assumes "p \<noteq> []" "is_dir fs (butlast p)"
  shows "lookup (put_at p v fs) (p @ q) = (case v of None \<Rightarrow> None | Some n \<Rightarrow> lookup n q)"
  using assms
proof (induction p v fs rule: put_at.induct)
  case (2 c d cs v es)
  from 2(3) obtain m where "map_of es c = Some m" "is_dir m (butlast (d # cs))"
    by (auto simp: is_dir_iff split: option.splits)
  with 2(1) show ?case by simp
qed (auto simp: is_dir_iff split: option.splits if_splits)

lemma lookup_put_at_other:
  assumes "\<not> prefix p q" "\<not> prefix q p"
  shows "lookup (put_at p v fs) q = lookup fs q"
  using assms
proof (induction p v fs arbitrary: q rule: put_at.induct)
  case (1 c v es)
  then obtain x xs where "q = x # xs" "x \<noteq> c" by (cases q) auto
  then show ?case by (auto split: option.split)
next
  case (2 c d cs v es)
  then obtain x xs where q: "q = x # xs" by (cases q) auto
  show ?case
  proof (cases "x = c")
    case True
    with 2 q show ?thesis by (cases "map_of es c") auto
  next
    case False
    with q show ?thesis by (auto split: option.split)
  qed
qed auto

lemma is_dir_put_at_above:
  assumes "strict_prefix q p"
  shows "is_dir (put_at p v fs) q = is_dir fs q"
  using assms
proof (induction p v fs arbitrary: q rule: put_at.induct)
  case (1 c v es)
  then have "q = []" by (cases q) (auto simp: strict_prefix_def)
  then show ?case by (simp add: is_dir_iff)
next
  case (2 c d cs v es)
  show ?case
  proof (cases q)
    case Nil
    then show ?thesis by (auto simp: is_dir_iff split: option.split)
  next
    case (Cons x xs)
    with 2 show ?thesis
      by (cases "map_of es c") (auto simp: is_dir_def strict_prefix_def)
  qed
qed auto

lemma is_dir_above: "strict_prefix q p \<Longrightarrow> is_dir fs (butlast p) \<Longrightarrow> is_dir fs q"
proof -
  assume q: "strict_prefix q p" and d: "is_dir fs (butlast p)"
  then have "prefix q (butlast p)"
    by (cases p rule: rev_cases) (auto simp: strict_prefix_def)
  then obtain r where r: "butlast p = q @ r" by (auto simp: prefix_def)
  show "is_dir fs q"
    using d r by (cases r) (auto simp: is_dir_iff dest: lookup_prefix_dir[unfolded is_dir_iff])
qed

text \<open>The leaf view of one change of the tree: a new file or link, a deletion, a new directory.\<close>

definition leaf_of :: "node option \<Rightarrow> node option" where
  "leaf_of v = (case v of Some (Dir _) \<Rightarrow> None | x \<Rightarrow> x)"

lemma leaf_of_simps [simp]:
  "leaf_of None = None" "leaf_of (Some (File b)) = Some (File b)"
  "leaf_of (Some (Link t)) = Some (Link t)" "leaf_of (Some (Dir es)) = None"
  by (simp_all add: leaf_of_def)

lemma leaf_put_at:
  assumes "p \<noteq> []" "is_dir fs (butlast p)" "\<not> is_dir fs p" "\<forall>es. v = Some (Dir es) \<longrightarrow> es = []"
  shows "leaf (put_at p v fs) = (leaf fs)(p := leaf_of v)"
proof (rule ext)
  fix q
  consider r where "q = p @ r" | "strict_prefix q p" | "\<not> prefix p q" "\<not> prefix q p"
    unfolding prefix_def strict_prefix_def by blast
  then show "leaf (put_at p v fs) q = ((leaf fs)(p := leaf_of v)) q"
  proof cases
    case 1
    note below = lookup_put_at_below[OF assms(1,2), of v r]
    show ?thesis
    proof (cases r)
      case Nil
      with 1 below show ?thesis by (auto simp: leaf_def leaf_of_def split: option.split)
    next
      case (Cons c cs)
      with 1 have "lookup fs q = None" using lookup_below_nondir[OF assms(3)] by simp
      moreover have "lookup (put_at p v fs) q = None"
        using below assms(4) 1 Cons
        by (cases v; cases "the v") auto
      ultimately show ?thesis using 1 Cons by (simp add: leaf_def)
    qed
  next
    case 2
    then have "leaf (put_at p v fs) q = None \<and> leaf fs q = None"
      using is_dir_above[of q p fs] is_dir_put_at_above[of q p v fs] assms(2)
      by (simp add: leaf_None_iff)
    with 2 show ?thesis by (auto simp: strict_prefix_def)
  next
    case 3
    then show ?thesis using lookup_put_at_other[of p q v fs] by (auto simp: leaf_def)
  qed
qed

lemma is_dir_put_at:
  assumes "p \<noteq> []" "is_dir fs (butlast p)" "\<not> is_dir fs p" "\<forall>es. v = Some (Dir es) \<longrightarrow> es = []"
  shows "is_dir (put_at p v fs) q \<longleftrightarrow> is_dir fs q \<or> (q = p \<and> v = Some (Dir []))"
proof -
  consider r where "q = p @ r" | "strict_prefix q p" | "\<not> prefix p q" "\<not> prefix q p"
    unfolding prefix_def strict_prefix_def by blast
  then show ?thesis
  proof cases
    case 1
    note below = lookup_put_at_below[OF assms(1,2), of v r]
    show ?thesis
    proof (cases r)
      case Nil
      with 1 below assms(3,4) show ?thesis by (cases v) (auto simp: is_dir_iff)
    next
      case (Cons c cs)
      with 1 have "lookup fs q = None" using lookup_below_nondir[OF assms(3)] by simp
      moreover have "lookup (put_at p v fs) q = None"
        using below assms(4) 1 Cons by (cases v; cases "the v") auto
      ultimately show ?thesis using 1 Cons by (simp add: is_dir_iff)
    qed
  next
    case 2
    then show ?thesis using is_dir_put_at_above[OF 2] by (auto simp: strict_prefix_def)
  next
    case 3
    then show ?thesis using lookup_put_at_other[of p q v fs] by (auto simp: is_dir_def)
  qed
qed

text \<open>Removing an empty directory takes only that directory away.\<close>

lemma rmdir_effect:
  assumes "lookup fs p = Some (Dir [])" "p \<noteq> []"
  shows "leaf (put_at p None fs) = leaf fs \<and>
    (\<forall>q. is_dir (put_at p None fs) q \<longleftrightarrow> is_dir fs q \<and> q \<noteq> p)"
proof -
  have d: "is_dir fs (butlast p)" using is_dir_butlast assms by blast
  have "leaf (put_at p None fs) q = leaf fs q \<and>
      (is_dir (put_at p None fs) q \<longleftrightarrow> is_dir fs q \<and> q \<noteq> p)" for q
  proof -
    consider r where "q = p @ r" | "strict_prefix q p" | "\<not> prefix p q" "\<not> prefix q p"
      unfolding prefix_def strict_prefix_def by blast
    then show ?thesis
    proof cases
      case 1
      then have "lookup (put_at p None fs) q = None" using lookup_put_at_below[OF assms(2) d] by simp
      moreover have "lookup fs q = (if r = [] then Some (Dir []) else None)"
        using 1 assms(1) by (cases r) (auto simp: lookup_append)
      ultimately show ?thesis using 1 by (auto simp: leaf_def is_dir_def)
    next
      case 2
      then show ?thesis
        using is_dir_above[OF 2 d] is_dir_put_at_above[OF 2, of None fs]
        by (auto simp: leaf_def is_dir_iff strict_prefix_def)
    next
      case 3
      then show ?thesis using lookup_put_at_other[of p q None fs] by (auto simp: leaf_def is_dir_def)
    qed
  qed
  then show ?thesis by (auto simp: fun_eq_iff)
qed

text \<open>Well-formedness of the tree (distinct, clean names) is kept by every change.\<close>

lemma set_ins_entry [simp]: "set (ins_entry e es) = insert e (set es)"
  by (induction es) auto

lemma distinct_ins_entry:
  "fst e \<notin> fst ` set es \<Longrightarrow> distinct (map fst es) \<Longrightarrow> distinct (map fst (ins_entry e es))"
  by (induction es) auto

lemma set_dir_put: "set (dir_put k v es) \<subseteq> insert (k, v) (set es)"
  unfolding dir_put_def by (auto simp: update_Some_unfold) (induction es; auto split: if_splits)+

lemma distinct_dir_put: "distinct (map fst es) \<Longrightarrow> distinct (map fst (dir_put k v es))"
  by (simp add: dir_put_def distinct_update distinct_ins_entry)

lemma wf_put_at:
  "wf_node fs \<Longrightarrow> \<forall>c \<in> set p. clean_seg c \<Longrightarrow> (case v of None \<Rightarrow> True | Some n \<Rightarrow> wf_node n) \<Longrightarrow>
     wf_node (put_at p v fs)"
proof (induction p v fs rule: put_at.induct)
  case (1 c v es)
  then show ?case
    using set_dir_put[of c "the v" es]
    by (cases v) (auto simp: dir_del_def distinct_dir_put distinct_map_filter)
next
  case (2 c d cs v es)
  show ?case
  proof (cases "map_of es c")
    case (Some m)
    then have "(c, m) \<in> set es" by (rule map_of_SomeD)
    with 2 Some have "wf_node (put_at (d # cs) v m)" by fastforce
    with 2 Some show ?thesis
      using set_dir_put[of c "put_at (d # cs) v m" es]
      by (auto simp: distinct_dir_put)
  qed (use 2 in simp)
qed auto

lemma wf_lookup: "wf_node fs \<Longrightarrow> lookup fs p = Some n \<Longrightarrow> wf_node n \<and> (\<forall>c \<in> set p. clean_seg c)"
proof (induction fs p rule: lookup.induct)
  case (2 es c cs)
  then obtain m where "map_of es c = Some m" "lookup m cs = Some n" by (auto split: option.splits)
  with 2 show ?case by (fastforce dest: map_of_SomeD)
qed auto

section \<open>Path strings\<close>

text \<open>The kernel reads a path string as its segments; empty segments and \<open>.\<close> change nothing.\<close>

definition abs_str :: "string list \<Rightarrow> string" where
  "abs_str cs = CHR ''/'' # join_ch (CHR ''/'') cs"

definition comps :: "string \<Rightarrow> string list" where
  "comps p = filter (\<lambda>s. s \<noteq> []) (segs p)"

definition filepath_Join :: "string \<Rightarrow> string \<Rightarrow> string" where
  "filepath_Join a b =
     (if a = [] then (if b = [] then [] else path_clean b)
      else if b = [] then path_clean a
      else path_clean (a @ CHR ''/'' # b))"

definition filepath_Dir :: "string \<Rightarrow> string" where
  "filepath_Dir p =
     path_clean (rev (dropWhile (\<lambda>c. c \<noteq> CHR ''/'') (rev p)))"

definition filepath_Base :: "string \<Rightarrow> string" where
  "filepath_Base p =
     (if p = [] then ''.''
      else
        let stripped = rev (dropWhile (\<lambda>c. c = CHR ''/'') (rev p)) in
        if stripped = [] then ''/''
        else rev (takeWhile (\<lambda>c. c \<noteq> CHR ''/'') (rev stripped)))"

definition clean_comps :: "string list \<Rightarrow> bool" where
  "clean_comps cs \<longleftrightarrow> (\<forall>c \<in> set cs. clean_seg c)"

lemma clean_comps_simps [simp]:
  "clean_comps []"
  "clean_comps (c # cs) \<longleftrightarrow> clean_seg c \<and> clean_comps cs"
  "clean_comps (xs @ ys) \<longleftrightarrow> clean_comps xs \<and> clean_comps ys"
  by (auto simp: clean_comps_def)

lemma clean_comps_butlast: "clean_comps cs \<Longrightarrow> clean_comps (butlast cs)"
  by (auto simp: clean_comps_def dest: in_set_butlastD)

lemma segs_Cons_slash: "segs (CHR ''/'' # s) = [] # segs s"
  by (simp add: segs_def)

lemma comps_abs_str [simp]: "clean_comps cs \<Longrightarrow> comps (abs_str cs) = cs"
proof (cases "cs = []")
  case True
  then show ?thesis by (simp add: comps_def abs_str_def segs_def)
next
  case False
  assume c: "clean_comps cs"
  with False have "segs (join_ch (CHR ''/'') cs) = cs" by (simp add: clean_comps_def)
  moreover have "filter (\<lambda>s. s \<noteq> []) cs = cs"
    using c by (auto simp: clean_comps_def clean_seg_def filter_id_conv)
  ultimately show ?thesis by (simp add: comps_def abs_str_def segs_Cons_slash)
qed

lemma abs_str_inj: "clean_comps xs \<Longrightarrow> clean_comps ys \<Longrightarrow> abs_str xs = abs_str ys \<longleftrightarrow> xs = ys"
  using comps_abs_str by metis

lemma clean_segs_clean: "clean_comps ss \<Longrightarrow> clean_segs r acc ss = rev acc @ ss"
  by (induction ss arbitrary: acc) (auto simp: clean_seg_def)

lemma path_clean_abs_str [simp]: "clean_comps cs \<Longrightarrow> path_clean (abs_str cs) = abs_str cs"
proof -
  assume c: "clean_comps cs"
  then have "clean_segs True [] (split_ch (CHR ''/'') (abs_str cs)) = cs"
    by (cases "cs = []")
      (simp_all add: abs_str_def clean_segs_clean clean_comps_def flip: segs_def)
  then show ?thesis by (simp add: path_clean_def abs_str_def)
qed

lemma abs_str_append:
  "cs \<noteq> [] \<Longrightarrow> ds \<noteq> [] \<Longrightarrow> abs_str cs @ CHR ''/'' # join_ch (CHR ''/'') ds = abs_str (cs @ ds)"
  by (simp add: abs_str_def join_ch_append)

lemma filepath_Join_abs:
  assumes "clean_comps cs" "clean_comps ds" "ds \<noteq> []"
  shows "filepath_Join (abs_str cs) (join_ch (CHR ''/'') ds) = abs_str (cs @ ds)"
proof -
  have ne: "join_ch (CHR ''/'') ds \<noteq> []" "abs_str cs \<noteq> []"
    using join_clean_head(1)[of ds] assms by (simp_all add: clean_comps_def abs_str_def)
  show ?thesis
  proof (cases "cs = []")
    case False
    with assms ne show ?thesis by (simp add: filepath_Join_def abs_str_append)
  next
    case True
    have "segs (join_ch (CHR ''/'') ds) = ds" using assms by (simp add: clean_comps_def)
    with assms have "path_clean (CHR ''/'' # CHR ''/'' # join_ch (CHR ''/'') ds) = abs_str ds"
      by (simp add: path_clean_def abs_str_def clean_segs_clean flip: segs_def)
    with True ne show ?thesis by (simp add: filepath_Join_def abs_str_def)
  qed
qed

lemma filepath_Join_seg:
  "clean_comps cs \<Longrightarrow> clean_seg c \<Longrightarrow> filepath_Join (abs_str cs) c = abs_str (cs @ [c])"
  using filepath_Join_abs[of cs "[c]"] by simp

lemma abs_str_snoc: "abs_str (cs @ [c]) = (if cs = [] then CHR ''/'' # c else abs_str cs @ CHR ''/'' # c)"
  by (cases "cs = []") (simp_all add: abs_str_def join_ch_append)

lemma filepath_Dir_abs:
  assumes "clean_comps (cs @ [c])"
  shows "filepath_Dir (abs_str (cs @ [c])) = abs_str cs"
proof -
  have c: "CHR ''/'' \<notin> set c" using assms by (simp add: clean_seg_def)
  have "dropWhile (\<lambda>x. x \<noteq> CHR ''/'') (rev c @ CHR ''/'' # r) = CHR ''/'' # r" for r
    using c by (subst dropWhile_append2) auto
  then have "rev (dropWhile (\<lambda>x. x \<noteq> CHR ''/'') (rev (abs_str (cs @ [c])))) =
      (if cs = [] then ''/'' else abs_str cs @ ''/'')"
    by (simp add: abs_str_snoc)
  moreover have "path_clean ''/'' = abs_str []" by (simp add: path_clean_def abs_str_def)
  moreover have "path_clean (abs_str cs @ ''/'') = abs_str cs" if "cs \<noteq> []"
  proof -
    have "split_ch (CHR ''/'') (abs_str cs @ ''/'') = [] # cs @ [[]]"
      using assms that segs_join[of cs]
      by (simp add: abs_str_def split_ch_append clean_comps_def segs_def)
    moreover have "clean_segs True [] (cs @ [[]]) = cs"
    proof -
      have "clean_segs True acc (cs @ [[]]) = rev acc @ cs" for acc
        using assms by (induction cs arbitrary: acc) (auto simp: clean_seg_def)
      from this[of "[]"] show ?thesis by simp
    qed
    ultimately show ?thesis by (simp add: path_clean_def abs_str_def)
  qed
  ultimately show ?thesis by (simp add: filepath_Dir_def)
qed

lemma filepath_Base_abs:
  assumes "clean_comps (cs @ [c])"
  shows "filepath_Base (abs_str (cs @ [c])) = c"
proof -
  have c: "CHR ''/'' \<notin> set c" "c \<noteq> []" using assms by (simp_all add: clean_seg_def)
  then have "dropWhile (\<lambda>x. x = CHR ''/'') (rev c @ r) = rev c @ r" for r
    by (cases c rule: rev_cases) auto
  moreover have "takeWhile (\<lambda>x. x \<noteq> CHR ''/'') (rev c @ CHR ''/'' # r) = rev c" for r
    using c by (subst takeWhile_append2) auto
  moreover have "\<not> (\<forall>x \<in> set c. x = CHR ''/'')" using c by (cases c) auto
  ultimately show ?thesis using c(2)
    by (auto simp: filepath_Base_def abs_str_snoc Let_def)
qed

section \<open>Resolution\<close>

text \<open>The kernel's walk from the real directory \<open>cur\<close> through the remaining components. The
  first argument bounds the links followed; \<open>follow\<close> says whether a link in last position is
  followed.\<close>

function walk :: "nat \<Rightarrow> node \<Rightarrow> string list \<Rightarrow> string list \<Rightarrow> bool \<Rightarrow> errno + string list" where
  "walk k fs cur [] follow = Inr cur"
| "walk k fs cur (c # cs) follow =
     (if c = [] \<or> c = ''.'' then walk k fs cur cs follow
      else if c = ''..'' then walk k fs (butlast cur) cs follow
      else case lookup fs (cur @ [c]) of
        None \<Rightarrow> Inl ENOENT
      | Some (Dir _) \<Rightarrow> walk k fs (cur @ [c]) cs follow
      | Some (File _) \<Rightarrow> if cs = [] then Inr (cur @ [c]) else Inl ENOTDIR
      | Some (Link t) \<Rightarrow>
          if cs = [] \<and> \<not> follow then Inr (cur @ [c])
          else (case k of
                  0 \<Rightarrow> Inl ELOOP
                | Suc k' \<Rightarrow>
                    walk k' fs (if has_prefix t ''/'' then [] else cur) (segs t @ cs) follow))"
  by pat_completeness auto
termination
  by (relation "measures [\<lambda>(k, fs, cur, cs, f). k, \<lambda>(k, fs, cur, cs, f). length cs]") auto

declare walk.simps(2) [simp del]

definition kernel_links :: nat where "kernel_links = 40"

definition go_links :: nat where "go_links = 255"

definition resolve_path :: "node \<Rightarrow> string \<Rightarrow> bool \<Rightarrow> errno + string list" where
  "resolve_path fs p follow = walk kernel_links fs [] (segs p) follow"

text \<open>\<open>filepath.EvalSymlinks\<close> resolves every link itself, at most 255.\<close>

definition EvalSymlinks :: "node \<Rightarrow> string \<Rightarrow> errno + string" where
  "EvalSymlinks fs p =
     (case walk go_links fs [] (segs p) True of Inl e \<Rightarrow> Inl e | Inr cs \<Rightarrow> Inr (abs_str cs))"

text \<open>One tree extends another if it only adds: directories stay directories, leaves stay.\<close>

definition extends :: "node \<Rightarrow> node \<Rightarrow> bool" where
  "extends fs fs' \<longleftrightarrow>
     (\<forall>p. (is_dir fs p \<longrightarrow> is_dir fs' p) \<and> (\<forall>n. leaf fs p = Some n \<longrightarrow> leaf fs' p = Some n))"

lemma extends_refl [simp]: "extends fs fs"
  by (simp add: extends_def)

lemma extends_trans: "extends a b \<Longrightarrow> extends b c \<Longrightarrow> extends a c"
  by (simp add: extends_def)

lemma lookup_cases:
  obtains (none) "lookup fs p = None"
  | (dir) es where "lookup fs p = Some (Dir es)"
  | (leaf) n where "lookup fs p = Some n" "leaf fs p = Some n" "\<forall>es. n \<noteq> Dir es"
  by (cases "lookup fs p"; cases "the (lookup fs p)") (auto simp: leaf_def)

lemma walk_extends:
  "extends fs fs' \<Longrightarrow> walk k fs cur cs f = Inr q \<Longrightarrow> walk k fs' cur cs f = Inr q"
proof (induction k fs cur cs f rule: walk.induct)
  case (2 k fs cur c cs f)
  show ?case
  proof (cases "c = [] \<or> c = ''.'' \<or> c = ''..''")
    case True
    with 2 show ?thesis by (auto simp: walk.simps(2) split: if_splits)
  next
    case False
    then show ?thesis
    proof (cases rule: lookup_cases[of fs "cur @ [c]"])
      case none
      with 2 False show ?thesis by (simp add: walk.simps(2))
    next
      case (dir es)
      with 2(5) have "is_dir fs' (cur @ [c])" by (auto simp: extends_def is_dir_iff)
      with 2 False dir show ?thesis by (auto simp: walk.simps(2) is_dir_iff)
    next
      case (leaf n)
      with 2(5) have l': "lookup fs' (cur @ [c]) = Some n"
        by (auto simp: extends_def leaf_Some_iff)
      show ?thesis
      proof (cases n)
        case (Link t)
        show ?thesis
        proof (cases "cs = [] \<and> \<not> f")
          case nf: False
          with 2(6) False leaf Link obtain k' where k: "k = Suc k'"
            and w: "walk k' fs (if has_prefix t ''/'' then [] else cur) (segs t @ cs) f = Inr q"
            by (cases k) (auto simp: walk.simps(2) split: if_splits)
          have lk: "lookup fs (cur @ [c]) = Some (Link t)" using leaf Link by simp
          from 2(4)[OF _ _ lk refl nf k 2(5) w] False
          have "walk k' fs' (if has_prefix t ''/'' then [] else cur) (segs t @ cs) f = Inr q"
            by simp
          with l' Link False nf k show ?thesis by (auto simp: walk.simps(2))
        qed (use 2(6) False leaf l' Link in \<open>simp add: walk.simps(2)\<close>)
      qed (use 2(6) False leaf l' in \<open>auto simp: walk.simps(2) split: if_splits\<close>)
    qed
  qed
qed simp

text \<open>Walking real components changes nothing: \<open>lookup\<close> itself passes no link.\<close>

lemma walk_real:
  "clean_comps q \<Longrightarrow> is_dir fs (cur @ q) \<Longrightarrow> walk k fs cur (q @ rest) f = walk k fs (cur @ q) rest f"
proof (induction q arbitrary: cur)
  case (Cons c q)
  then have "is_dir fs (cur @ [c])"
    by (cases q) (auto simp: is_dir_iff dest: lookup_prefix_dir[of fs "cur @ [c]", simplified, unfolded is_dir_iff])
  then obtain es where "lookup fs (cur @ [c]) = Some (Dir es)" by (auto simp: is_dir_iff)
  with Cons show ?case by (simp add: walk.simps(2) clean_seg_def)
qed simp

lemma walk_skip_empty: "walk k fs cur ([] # cs) f = walk k fs cur cs f"
  by (simp add: walk.simps(2))

lemma segs_abs_str: "clean_comps cs \<Longrightarrow> cs \<noteq> [] \<Longrightarrow> segs (abs_str cs) = [] # cs"
  by (simp add: abs_str_def segs_Cons_slash clean_comps_def)

lemma walk_abs_str: "clean_comps cs \<Longrightarrow> walk k fs [] (segs (abs_str cs)) f = walk k fs [] cs f"
  by (cases "cs = []") (simp_all add: segs_abs_str walk_skip_empty, simp add: abs_str_def segs_def walk_skip_empty)

text \<open>The result of a walk is real: its parent is a directory, its names are clean.\<close>

lemma walk_result:
  assumes "walk k fs cur cs f = Inr q" "is_dir fs cur" "clean_comps cur"
    "\<forall>c \<in> set cs. CHR ''/'' \<notin> set c"
  shows "clean_comps q \<and> lookup fs q \<noteq> None \<and> (f \<longrightarrow> (\<forall>t. lookup fs q \<noteq> Some (Link t)))"
  using assms
proof (induction k fs cur cs f rule: walk.induct)
  case (1 k fs cur f)
  then show ?case by (auto simp: is_dir_iff)
next
  case (2 k fs cur c cs f)
  note IH = 2(1-4) and prems = 2(5-8)
  show ?case
  proof (cases "c = [] \<or> c = ''.''")
    case True
    with IH(1) prems show ?thesis by (simp add: walk.simps(2))
  next
    case nd: False
    show ?thesis
    proof (cases "c = ''..''")
      case True
      have "is_dir fs (butlast cur)"
        using prems(2) is_dir_butlast[of fs cur] by (cases "cur = []") (auto simp: is_dir_iff)
      with IH(2) nd True prems show ?thesis
        by (simp add: walk.simps(2) clean_comps_butlast)
    next
      case False
      with nd prems(4) have cc: "clean_seg c" by (simp add: clean_seg_def)
      show ?thesis
      proof (cases "lookup fs (cur @ [c])")
        case None
        with nd False prems show ?thesis by (simp add: walk.simps(2))
      next
        case (Some n)
        show ?thesis
        proof (cases n)
          case (File b)
          with Some nd False prems cc show ?thesis
            by (auto simp: walk.simps(2) split: if_splits)
        next
          case (Dir es)
          with Some IH(3) nd False prems cc show ?thesis
            by (simp add: walk.simps(2) is_dir_iff)
        next
          case (Link t)
          have sl: "\<forall>s \<in> set (segs t). CHR ''/'' \<notin> set s"
            using split_ch_no_sep by (auto simp: segs_def)
          have root: "is_dir fs []"
            using prems(2) is_dir_above[of "[]" "cur @ [c]" fs] by (simp add: strict_prefix_def)
          show ?thesis
          proof (cases "cs = [] \<and> \<not> f")
            case True
            with Some Link nd False prems cc show ?thesis by (auto simp: walk.simps(2))
          next
            case nf: False
            with Some Link nd False prems obtain k' where k: "k = Suc k'"
              and w: "walk k' fs (if has_prefix t ''/'' then [] else cur) (segs t @ cs) f = Inr q"
              by (cases k) (auto simp: walk.simps(2) split: if_splits)
            have a: "is_dir fs (if has_prefix t ''/'' then [] else cur)" using prems root by simp
            have b: "clean_comps (if has_prefix t ''/'' then [] else cur)" using prems by simp
            have s: "\<forall>c \<in> set (segs t @ cs). CHR ''/'' \<notin> set c" using prems sl by auto
            from IH(4)[OF _ _ Some Link nf k w a b s] nd False show ?thesis by blast
          qed
        qed
      qed
    qed
  qed
qed

text \<open>A walk that ends in a directory goes on to a real entry of it, with the links it has left.\<close>

lemma walk_snoc_dir:
  "walk k fs cur cs True = Inr d \<Longrightarrow> is_dir fs d \<Longrightarrow> is_dir fs (d @ [c]) \<Longrightarrow> clean_seg c \<Longrightarrow>
     walk k fs cur (cs @ [c]) True = Inr (d @ [c])"
proof (induction k fs cur cs True rule: walk.induct)
  case (1 k fs cur)
  then show ?case by (auto simp: walk.simps(2) clean_seg_def is_dir_iff)
next
  case (2 k fs cur x cs)
  note IH = 2(1-4) and prems = 2(5-8)
  show ?case
  proof (cases "x = [] \<or> x = ''.'' \<or> x = ''..''")
    case True
    with IH(1,2) prems show ?thesis by (auto simp: walk.simps(2))
  next
    case False
    show ?thesis
    proof (cases "lookup fs (cur @ [x])")
      case None
      with False prems show ?thesis by (simp add: walk.simps(2))
    next
      case (Some n)
      show ?thesis
      proof (cases n)
        case (File b)
        with Some False prems show ?thesis
          by (auto simp: walk.simps(2) is_dir_iff split: if_splits)
      next
        case (Dir es)
        with Some IH(3) False prems show ?thesis by (simp add: walk.simps(2))
      next
        case (Link t)
        with Some False prems(1) obtain k' where k: "k = Suc k'"
          and w: "walk k' fs (if has_prefix t ''/'' then [] else cur) (segs t @ cs) True = Inr d"
          by (cases k) (auto simp: walk.simps(2) split: if_splits)
        have nf: "\<not> (cs = [] \<and> \<not> True)" by simp
        from IH(4)[OF _ _ Some Link nf k w prems(2-4)] False
        have "walk k' fs (if has_prefix t ''/'' then [] else cur) ((segs t @ cs) @ [c]) True =
            Inr (d @ [c])"
          by simp
        with Some Link False k show ?thesis by (auto simp: walk.simps(2))
      qed
    qed
  qed
qed

section \<open>Operations of package \<open>os\<close>\<close>

definition os_Stat :: "node \<Rightarrow> string \<Rightarrow> errno + node" where
  "os_Stat fs p =
     (case resolve_path fs p True of
        Inl e \<Rightarrow> Inl e
      | Inr q \<Rightarrow> (case lookup fs q of None \<Rightarrow> Inl ENOENT | Some n \<Rightarrow> Inr n))"

text \<open>The entry a path names, its parent resolved, the last component (a name) not followed.\<close>

definition entry_of :: "node \<Rightarrow> string \<Rightarrow> errno + string list" where
  "entry_of fs p =
     (let cs = comps p in
      if cs = [] then Inl EEXIST
      else case walk kernel_links fs [] (butlast cs) True of
             Inl e \<Rightarrow> Inl e
           | Inr d \<Rightarrow> if is_dir fs d then Inr (d @ [last cs]) else Inl ENOTDIR)"

definition os_Lstat :: "node \<Rightarrow> string \<Rightarrow> errno + node" where
  "os_Lstat fs p =
     (if comps p = [] then Inr fs
      else case entry_of fs p of
             Inl e \<Rightarrow> Inl e
           | Inr q \<Rightarrow> (case lookup fs q of None \<Rightarrow> Inl ENOENT | Some n \<Rightarrow> Inr n))"

definition os_Mkdir :: "node \<Rightarrow> string \<Rightarrow> errno option \<times> node" where
  "os_Mkdir fs p =
     (case entry_of fs p of
        Inl e \<Rightarrow> (Some e, fs)
      | Inr q \<Rightarrow>
          if lookup fs q \<noteq> None then (Some EEXIST, fs)
          else (None, put_at q (Some (Dir [])) fs))"

text \<open>\<open>os.MkdirAll\<close>, on the reversed components: \<open>Stat\<close>, then the parent, then \<open>Mkdir\<close>, then
  \<open>Lstat\<close> if that failed.\<close>

fun mkdir_all :: "node \<Rightarrow> string list \<Rightarrow> errno option \<times> node" where
  "mkdir_all fs [] = (None, fs)"
| "mkdir_all fs (c # rcs) =
     (let p = abs_str (rev (c # rcs)) in
      case os_Stat fs p of
        Inr (Dir _) \<Rightarrow> (None, fs)
      | Inr _ \<Rightarrow> (Some ENOTDIR, fs)
      | Inl _ \<Rightarrow>
          (case mkdir_all fs rcs of
             (Some e, fs') \<Rightarrow> (Some e, fs')
           | (None, fs') \<Rightarrow>
               (case os_Mkdir fs' p of
                  (None, fs'') \<Rightarrow> (None, fs'')
                | (Some e, fs'') \<Rightarrow>
                    (case os_Lstat fs'' p of
                       Inr (Dir _) \<Rightarrow> (None, fs'')
                     | _ \<Rightarrow> (Some e, fs'')))))"

definition os_MkdirAll :: "node \<Rightarrow> string \<Rightarrow> errno option \<times> node" where
  "os_MkdirAll fs p = mkdir_all fs (rev (comps p))"

text \<open>\<open>os.OpenFile\<close> with \<open>O_CREATE|O_EXCL\<close>, the file then holding \<open>b\<close>.\<close>

definition os_CreateExcl :: "node \<Rightarrow> string \<Rightarrow> bytes \<Rightarrow> errno option \<times> node" where
  "os_CreateExcl fs p b =
     (case entry_of fs p of
        Inl e \<Rightarrow> (Some e, fs)
      | Inr q \<Rightarrow>
          if lookup fs q \<noteq> None then (Some EEXIST, fs)
          else (None, put_at q (Some (File b)) fs))"

definition os_Remove :: "node \<Rightarrow> string \<Rightarrow> errno option \<times> node" where
  "os_Remove fs p =
     (case entry_of fs p of
        Inl e \<Rightarrow> (Some e, fs)
      | Inr q \<Rightarrow>
          (case lookup fs q of
             None \<Rightarrow> (Some ENOENT, fs)
           | Some (Dir (x # xs)) \<Rightarrow> (Some ENOTEMPTY, fs)
           | Some _ \<Rightarrow> (None, put_at q None fs)))"

text \<open>\<open>os.Rename\<close> of a regular file (the program renames no directory): a directory in the new
  place is an error, anything else there is replaced, a link not being followed.\<close>

definition os_Rename :: "node \<Rightarrow> string \<Rightarrow> string \<Rightarrow> errno option \<times> node" where
  "os_Rename fs old new =
     (case entry_of fs old of
        Inl e \<Rightarrow> (Some e, fs)
      | Inr q \<Rightarrow>
          (case lookup fs q of
             None \<Rightarrow> (Some ENOENT, fs)
           | Some n \<Rightarrow>
               (case entry_of fs new of
                  Inl e \<Rightarrow> (Some e, fs)
                | Inr q' \<Rightarrow>
                    if is_dir fs q' then (Some EEXIST, fs)
                    else (None, put_at q' (Some n) (put_at q None fs)))))"

text \<open>Opening and reading a file follows links; reading a directory fails.\<close>

definition os_ReadFile :: "node \<Rightarrow> string \<Rightarrow> errno + bytes" where
  "os_ReadFile fs p =
     (case os_Stat fs p of
        Inl e \<Rightarrow> Inl e
      | Inr (File b) \<Rightarrow> Inr b
      | Inr _ \<Rightarrow> Inl EISDIR)"

text \<open>\<open>os.Create\<close> (\<open>O_CREATE|O_TRUNC\<close>), the file then holding \<open>b\<close>: links in last position are
  followed, also dangling ones.\<close>

fun create_target :: "nat \<Rightarrow> node \<Rightarrow> string \<Rightarrow> errno + string list" where
  "create_target k fs p =
     (if segs p \<noteq> [] \<and> last (segs p) \<in> {[], ''.'', ''..''} then Inl EISDIR
      else case entry_of fs p of
        Inl e \<Rightarrow> Inl e
      | Inr q \<Rightarrow>
          (case lookup fs q of
             None \<Rightarrow> Inr q
           | Some (File _) \<Rightarrow> Inr q
           | Some (Dir _) \<Rightarrow> Inl EISDIR
           | Some (Link t) \<Rightarrow>
               (case k of
                  0 \<Rightarrow> Inl ELOOP
                | Suc k' \<Rightarrow>
                    create_target k' fs
                      (if has_prefix t ''/'' then t
                       else abs_str (butlast q) @ CHR ''/'' # t))))"

declare create_target.simps [simp del]

definition os_Create :: "node \<Rightarrow> string \<Rightarrow> bytes \<Rightarrow> errno option \<times> node" where
  "os_Create fs p b =
     (case create_target kernel_links fs p of
        Inl e \<Rightarrow> (Some e, fs)
      | Inr q \<Rightarrow> (None, put_at q (Some (File b)) fs))"

section \<open>\<open>filepath.WalkDir\<close>\<close>

datatype 'e walk_result = WOk | WSkipDir | WErr 'e

type_synonym ('e, 's) walk_fn = "string \<Rightarrow> bool \<Rightarrow> 's \<Rightarrow> 'e walk_result \<times> 's"

fun walk_dir :: "('e, 's) walk_fn \<Rightarrow> string \<Rightarrow> node \<Rightarrow> 's \<Rightarrow> 'e walk_result \<times> 's"
and walk_ents :: "('e, 's) walk_fn \<Rightarrow> string \<Rightarrow> (string \<times> node) list \<Rightarrow> 's \<Rightarrow> 'e walk_result \<times> 's" where
  "walk_dir fn p (Dir es) s =
     (case fn p True s of
        (WOk, s') \<Rightarrow> walk_ents fn p es s'
      | (WSkipDir, s') \<Rightarrow> (WOk, s')
      | (WErr e, s') \<Rightarrow> (WErr e, s'))"
| "walk_dir fn p (File b) s = fn p False s"
| "walk_dir fn p (Link t) s = fn p False s"
| "walk_ents fn p [] s = (WOk, s)"
| "walk_ents fn p ((k, n) # es) s =
     (case walk_dir fn (filepath_Join p k) n s of
        (WOk, s') \<Rightarrow> walk_ents fn p es s'
      | (WSkipDir, s') \<Rightarrow> (WOk, s')
      | (WErr e, s') \<Rightarrow> (WErr e, s'))"

text \<open>\<open>fn_err\<close> is the callback's result when \<open>Lstat\<close> of the root fails.\<close>

definition WalkDir ::
    "node \<Rightarrow> string \<Rightarrow> (errno \<Rightarrow> 'e walk_result) \<Rightarrow> ('e, 's) walk_fn \<Rightarrow> 's \<Rightarrow> 'e walk_result \<times> 's" where
  "WalkDir fs root fn_err fn s =
     (case (case os_Lstat fs root of
              Inl e \<Rightarrow> (fn_err e, s)
            | Inr n \<Rightarrow> walk_dir fn root n s) of
        (WSkipDir, s') \<Rightarrow> (WOk, s')
      | r \<Rightarrow> r)"

section \<open>Facts about the operations\<close>

lemma walk_rev_abs:
  assumes "clean_comps cs"
  shows "resolve_path fs (abs_str cs) f = walk kernel_links fs [] cs f"
  using assms by (simp add: resolve_path_def walk_abs_str)

lemma os_Stat_abs:
  "clean_comps cs \<Longrightarrow> is_dir fs cs \<Longrightarrow> \<exists>es. os_Stat fs (abs_str cs) = Inr (Dir es)"
  using walk_real[of cs fs "[]" kernel_links "[]" True]
  by (auto simp: os_Stat_def walk_rev_abs is_dir_iff)

lemma entry_of_real:
  "clean_comps (d @ [c]) \<Longrightarrow> is_dir fs d \<Longrightarrow> entry_of fs (abs_str (d @ [c])) = Inr (d @ [c])"
  using walk_real[of d fs "[]" kernel_links "[]" True]
  by (simp add: entry_of_def Let_def)

lemma entry_of_result:
  assumes "entry_of fs (abs_str cs) = Inr q" "clean_comps cs" "is_dir fs []"
  shows "q \<noteq> [] \<and> clean_comps q \<and> is_dir fs (butlast q) \<and> last q = last cs \<and> cs \<noteq> []"
proof -
  from assms obtain d where cs: "cs \<noteq> []" and d: "walk kernel_links fs [] (butlast cs) True = Inr d"
    and q: "q = d @ [last cs]" "is_dir fs d"
    by (auto simp: entry_of_def Let_def split: if_splits sum.splits)
  have "\<forall>c \<in> set (butlast cs). CHR ''/'' \<notin> set c"
    using assms(2) by (auto simp: clean_comps_def clean_seg_def dest: in_set_butlastD)
  with d assms(3) have "clean_comps d" using walk_result[OF d] by simp
  moreover have "clean_seg (last cs)" using cs assms(2) by (simp add: clean_comps_def)
  ultimately show ?thesis using q cs by simp
qed

lemma is_dir_root: "is_dir fs p \<Longrightarrow> is_dir fs []"
  by (cases p) (auto simp: is_dir_iff dest: lookup_Cons_dir)

lemma put_at_extends:
  assumes "q \<noteq> []" "is_dir fs (butlast q)" "lookup fs q = None" "\<forall>es. v = Some (Dir es) \<longrightarrow> es = []"
  shows "extends fs (put_at q v fs)"
proof -
  have nd: "\<not> is_dir fs q" using assms(3) by (simp add: is_dir_iff)
  have "leaf fs q = None" using assms(3) by (simp add: leaf_def)
  then show ?thesis
    using leaf_put_at[OF assms(1,2) nd assms(4)] is_dir_put_at[OF assms(1,2) nd assms(4)]
    by (auto simp: extends_def)
qed

lemma os_Mkdir_effect:
  assumes "os_Mkdir fs (abs_str cs) = (r, fs')" "clean_comps cs" "is_dir fs []"
  shows "extends fs fs' \<and> leaf fs' = leaf fs \<and> (wf_node fs \<longrightarrow> wf_node fs')"
proof (cases "entry_of fs (abs_str cs)")
  case (Inl e)
  with assms show ?thesis by (simp add: os_Mkdir_def)
next
  case (Inr q)
  show ?thesis
  proof (cases "lookup fs q")
    case None
    note E = entry_of_result[OF Inr assms(2,3)]
    have "leaf fs q = None" "\<not> is_dir fs q" using None by (simp_all add: leaf_def is_dir_iff)
    with None E Inr assms(1) show ?thesis
      using put_at_extends[of q fs "Some (Dir [])"] leaf_put_at[of q fs "Some (Dir [])"]
        wf_put_at[of fs q "Some (Dir [])"]
      by (auto simp: os_Mkdir_def clean_comps_def)
  next
    case (Some n)
    with Inr assms(1) show ?thesis by (simp add: os_Mkdir_def)
  qed
qed

lemma extends_root: "extends fs fs' \<Longrightarrow> is_dir fs p \<Longrightarrow> is_dir fs' p"
  by (simp add: extends_def)

lemma mkdir_all_effect:
  assumes "mkdir_all fs rcs = (r, fs')" "clean_comps rcs" "is_dir fs []"
  shows "extends fs fs' \<and> leaf fs' = leaf fs \<and> (wf_node fs \<longrightarrow> wf_node fs')"
  using assms
proof (induction fs rcs arbitrary: r fs' rule: mkdir_all.induct)
  case (2 fs c rcs)
  let ?p = "abs_str (rev (c # rcs))"
  have cc: "clean_comps (rev (c # rcs))" using 2(3) by (auto simp: clean_comps_def)
  show ?case
  proof (cases "os_Stat fs ?p")
    case (Inr n)
    with 2(2) show ?thesis by (auto split: node.splits)
  next
    case (Inl e)
    obtain r1 fs1 where m: "mkdir_all fs rcs = (r1, fs1)" by (cases "mkdir_all fs rcs")
    with 2(1)[OF refl Inl, of r1 fs1] 2(3,4)
    have E1: "extends fs fs1 \<and> leaf fs1 = leaf fs \<and> (wf_node fs \<longrightarrow> wf_node fs1)" by simp
    show ?thesis
    proof (cases r1)
      case (Some e1)
      with E1 m Inl 2(2) show ?thesis by simp
    next
      case None
      obtain r2 fs2 where k: "os_Mkdir fs1 ?p = (r2, fs2)" by (cases "os_Mkdir fs1 ?p")
      have "is_dir fs1 []" using E1 2(4) extends_root by blast
      from os_Mkdir_effect[OF k cc this] E1
      have E2: "extends fs fs2 \<and> leaf fs2 = leaf fs \<and> (wf_node fs \<longrightarrow> wf_node fs2)"
        by (auto intro: extends_trans)
      have "fs' = fs2"
        using 2(2) Inl m None k by (auto split: option.splits sum.splits node.splits)
      with E2 show ?thesis by simp
    qed
  qed
qed simp

lemma walk_nil [simp]: "walk k fs [] [] f = Inr []"
  by simp

lemma mkdir_all_ok:
  assumes "mkdir_all fs rcs = (None, fs')" "clean_comps rcs" "is_dir fs []"
  shows "\<exists>q. walk kernel_links fs' [] (rev rcs) True = Inr q \<and> is_dir fs' q"
  using assms
proof (induction fs rcs arbitrary: fs' rule: mkdir_all.induct)
  case (2 fs c rcs)
  let ?p = "abs_str (rev (c # rcs))"
  have cc: "clean_comps (rev (c # rcs))" using 2(3) by (auto simp: clean_comps_def)
  show ?case
  proof (cases "os_Stat fs ?p")
    case (Inr n)
    with 2(2) have "fs' = fs" "\<exists>es. n = Dir es" by (auto split: node.splits)
    with Inr cc show ?thesis
      by (auto simp: os_Stat_def walk_rev_abs is_dir_iff split: sum.splits option.splits)
  next
    case (Inl e)
    with 2(2) obtain fs1 where m: "mkdir_all fs rcs = (None, fs1)"
      by (cases "mkdir_all fs rcs"; cases "fst (mkdir_all fs rcs)") auto
    with 2(1)[OF refl Inl m] 2(3,4) obtain d
      where d: "walk kernel_links fs1 [] (rev rcs) True = Inr d" "is_dir fs1 d" by auto
    from mkdir_all_effect[OF m] 2(3,4) have "is_dir fs1 []" by (auto intro: extends_root)
    obtain r2 where k: "os_Mkdir fs1 ?p = (r2, fs')"
      using 2(2) Inl m by (cases "os_Mkdir fs1 ?p") (auto simp: Let_def split: option.splits sum.splits node.splits)
    from os_Mkdir_effect[OF k cc \<open>is_dir fs1 []\<close>] have ext: "extends fs1 fs'" by simp
    have ent: "entry_of fs1 ?p = Inr (d @ [c])"
      using d cc by (simp add: entry_of_def Let_def)
    have "is_dir fs' (d @ [c])"
    proof (cases "lookup fs1 (d @ [c])")
      case None
      with ent k have "fs' = put_at (d @ [c]) (Some (Dir [])) fs1" by (simp add: os_Mkdir_def)
      with None d(2) show ?thesis by (simp add: is_dir_put_at is_dir_iff[of fs1 "d @ [c]"])
    next
      case (Some n)
      with ent k have "r2 = Some EEXIST" "fs' = fs1" by (auto simp: os_Mkdir_def)
      with 2(2) Inl m k ent Some cc show ?thesis
        by (auto simp: os_Lstat_def is_dir_iff split: node.splits)
    qed
    moreover have "walk kernel_links fs' [] (rev rcs) True = Inr d" "is_dir fs' d"
      using walk_extends[OF ext d(1)] ext d(2) by (auto intro: extends_root)
    ultimately show ?thesis
      using walk_snoc_dir[of kernel_links fs' "[]" "rev rcs" d c] 2(3) by auto
  qed
qed auto

lemma mkdir_all_again:
  assumes "walk kernel_links fs [] (rev rcs) True = Inr q" "is_dir fs q" "clean_comps rcs"
  shows "mkdir_all fs rcs = (None, fs)"
proof (cases rcs)
  case (Cons c cs)
  have "clean_comps (rev rcs)" using assms(3) by (auto simp: clean_comps_def)
  with assms Cons have "\<exists>es. os_Stat fs (abs_str (rev (c # cs))) = Inr (Dir es)"
    by (auto simp: os_Stat_def walk_rev_abs is_dir_iff)
  with Cons show ?thesis by (auto simp: Let_def)
qed simp

text \<open>Operations on an entry of a real directory, in the leaf view.\<close>

lemma os_CreateExcl_real:
  assumes "clean_comps (d @ [c])" "is_dir fs d" "os_CreateExcl fs (abs_str (d @ [c])) b = (r, fs')"
  shows "(r = None \<and> lookup fs (d @ [c]) = None \<and> leaf fs' = (leaf fs)(d @ [c] \<mapsto> File b) \<and>
            extends fs fs' \<and> (\<forall>q. is_dir fs' q = is_dir fs q) \<and> (wf_node fs \<longrightarrow> wf_node fs')) \<or>
         (r \<noteq> None \<and> lookup fs (d @ [c]) \<noteq> None \<and> fs' = fs)"
proof (cases "lookup fs (d @ [c])")
  case None
  then have nd: "\<not> is_dir fs (d @ [c])" by (simp add: is_dir_iff)
  have "fs' = put_at (d @ [c]) (Some (File b)) fs" "r = None"
    using assms(3) None by (auto simp: os_CreateExcl_def entry_of_real[OF assms(1,2)])
  then show ?thesis
    using None nd assms(1,2) put_at_extends[of "d @ [c]" fs "Some (File b)"]
      leaf_put_at[of "d @ [c]" fs "Some (File b)"] is_dir_put_at[of "d @ [c]" fs "Some (File b)"]
      wf_put_at[of fs "d @ [c]" "Some (File b)"]
    by (simp add: clean_comps_def)
next
  case (Some n)
  with assms show ?thesis by (auto simp: os_CreateExcl_def entry_of_real[OF assms(1,2)])
qed

lemma os_Remove_real:
  assumes "clean_comps (d @ [c])" "is_dir fs d" "os_Remove fs (abs_str (d @ [c])) = (r, fs')"
    "\<not> is_dir fs (d @ [c])"
  shows "leaf fs' = (leaf fs)(d @ [c] := None) \<and> (\<forall>q. is_dir fs' q = is_dir fs q) \<and>
    (wf_node fs \<longrightarrow> wf_node fs') \<and> (r = None \<longleftrightarrow> lookup fs (d @ [c]) \<noteq> None) \<and>
    (r = Some ENOENT \<longleftrightarrow> lookup fs (d @ [c]) = None)"
proof (cases "lookup fs (d @ [c])")
  case None
  then have "fs' = fs" "r = Some ENOENT" "leaf fs (d @ [c]) = None"
    using assms(3) by (auto simp: os_Remove_def entry_of_real[OF assms(1,2)] leaf_def)
  with None show ?thesis by (simp add: fun_upd_idem)
next
  case (Some n)
  then have "fs' = put_at (d @ [c]) None fs" "r = None"
    using assms(3,4) by (auto simp: os_Remove_def entry_of_real[OF assms(1,2)] is_dir_iff split: node.splits)
  with Some assms(1,2,4) show ?thesis
    using leaf_put_at[of "d @ [c]" fs None] is_dir_put_at[of "d @ [c]" fs None]
      wf_put_at[of fs "d @ [c]" None]
    by (simp add: clean_comps_def)
qed

lemma os_Remove_dir:
  assumes "clean_comps (d @ [c])" "is_dir fs d" "os_Remove fs (abs_str (d @ [c])) = (r, fs')"
    "is_dir fs (d @ [c])"
  shows "(r = Some ENOTEMPTY \<and> fs' = fs) \<or>
    (r = None \<and> leaf fs' = leaf fs \<and> (\<forall>q. is_dir fs' q \<longleftrightarrow> is_dir fs q \<and> q \<noteq> d @ [c]) \<and>
     (wf_node fs \<longrightarrow> wf_node fs'))"
proof -
  from assms(4) obtain es where es: "lookup fs (d @ [c]) = Some (Dir es)" by (auto simp: is_dir_iff)
  show ?thesis
  proof (cases es)
    case Nil
    with es assms(3) have "r = None" "fs' = put_at (d @ [c]) None fs"
      by (auto simp: os_Remove_def entry_of_real[OF assms(1,2)])
    with rmdir_effect[of fs "d @ [c]"] es Nil wf_put_at[of fs "d @ [c]" None] assms(1)
    show ?thesis by (simp add: clean_comps_def)
  next
    case (Cons x xs)
    with es assms(3) show ?thesis by (auto simp: os_Remove_def entry_of_real[OF assms(1,2)])
  qed
qed

lemma os_Rename_real:
  assumes "clean_comps (d @ [a])" "clean_comps (d @ [c])" "is_dir fs d"
    "lookup fs (d @ [a]) = Some (File b)"
    "os_Rename fs (abs_str (d @ [a])) (abs_str (d @ [c])) = (r, fs')"
  shows "(r = None \<and> \<not> is_dir fs (d @ [c]) \<and>
            leaf fs' = (leaf fs)(d @ [a] := None, d @ [c] \<mapsto> File b) \<and>
            (\<forall>q. is_dir fs' q = is_dir fs q) \<and> (wf_node fs \<longrightarrow> wf_node fs')) \<or>
         (r \<noteq> None \<and> is_dir fs (d @ [c]) \<and> fs' = fs)"
proof (cases "is_dir fs (d @ [c])")
  case True
  then show ?thesis
    using assms(4,5)
    by (auto simp: os_Rename_def entry_of_real[OF assms(1,3)] entry_of_real[OF assms(2,3)])
next
  case False
  let ?fs1 = "put_at (d @ [a]) None fs"
  have eq: "fs' = put_at (d @ [c]) (Some (File b)) ?fs1" "r = None"
    using assms(4,5) False
    by (auto simp: os_Rename_def entry_of_real[OF assms(1,3)] entry_of_real[OF assms(2,3)])
  have na: "\<not> is_dir fs (d @ [a])" using assms(4) by (simp add: is_dir_iff)
  have D: "is_dir ?fs1 q = is_dir fs q" for q
    using is_dir_put_at[of "d @ [a]" fs None q] na assms(3) by simp
  have "leaf ?fs1 = (leaf fs)(d @ [a] := None)"
    using leaf_put_at[of "d @ [a]" fs None] na assms(3) by simp
  then have "leaf fs' = (leaf fs)(d @ [a] := None, d @ [c] \<mapsto> File b)"
    using leaf_put_at[of "d @ [c]" ?fs1 "Some (File b)"] D False assms(3) eq by simp
  moreover have "is_dir fs' q = is_dir fs q" for q
    using is_dir_put_at[of "d @ [c]" ?fs1 "Some (File b)" q] D False assms(3) eq by simp
  moreover have "wf_node fs \<longrightarrow> wf_node fs'"
    using wf_put_at[of fs "d @ [a]" None] wf_put_at[of ?fs1 "d @ [c]" "Some (File b)"] assms(1,2) eq
    by (simp add: clean_comps_def)
  ultimately show ?thesis using eq False by simp
qed

lemma resolve_real_entry:
  assumes "clean_comps (d @ [c])" "is_dir fs d" "lookup fs (d @ [c]) = Some n" "\<forall>t. n \<noteq> Link t"
  shows "resolve_path fs (abs_str (d @ [c])) f = Inr (d @ [c])"
proof -
  have "walk kernel_links fs [] (d @ [c]) f = walk kernel_links fs d [c] f"
    using walk_real[of d fs "[]" kernel_links "[c]" f] assms(1,2) by simp
  then show ?thesis
    using assms by (cases n) (simp_all add: walk_rev_abs walk.simps(2) clean_seg_def)
qed

lemma os_ReadFile_real:
  assumes "clean_comps (d @ [c])" "is_dir fs d" "lookup fs (d @ [c]) = Some (File b)"
  shows "os_ReadFile fs (abs_str (d @ [c])) = Inr b"
  using resolve_real_entry[OF assms] assms(3) by (simp add: os_ReadFile_def os_Stat_def)

lemma os_Lstat_real:
  assumes "clean_comps cs" "lookup fs cs = Some n" "is_dir fs []"
  shows "os_Lstat fs (abs_str cs) = Inr n"
proof (cases cs rule: rev_cases)
  case Nil
  with assms show ?thesis by (simp add: os_Lstat_def)
next
  case (snoc d c)
  have "is_dir fs d" using is_dir_butlast[OF assms(2)] snoc by simp
  with entry_of_real[of d c fs] assms snoc show ?thesis by (simp add: os_Lstat_def)
qed

section \<open>What a directory walk visits\<close>

fun visits :: "string list \<Rightarrow> node \<Rightarrow> (string list \<times> node) list" where
  "visits p (Dir es) = concat (map (\<lambda>e. visits (p @ [fst e]) (snd e)) es)"
| "visits p n = [(p, n)]"

lemma visits_leaf:
  "wf_node t \<Longrightarrow> (q, n) \<in> set (visits p t) \<longleftrightarrow> (\<exists>r. q = p @ r \<and> leaf t r = Some n)"
proof (induction p t arbitrary: q n rule: visits.induct)
  case (1 p es)
  have IH: "(q, n) \<in> set (visits (p @ [fst e]) (snd e)) \<longleftrightarrow>
      (\<exists>r. q = (p @ [fst e]) @ r \<and> leaf (snd e) r = Some n)" if "e \<in> set es" for e q n
    using 1 that by simp
  have step: "leaf (Dir es) (fst e # r) = leaf (snd e) r" if "e \<in> set es" for e r
  proof -
    have "map_of es (fst e) = Some (snd e)" using 1(2) that by simp
    then show ?thesis by (simp add: leaf_def)
  qed
  have cons: "\<exists>e r'. e \<in> set es \<and> r = fst e # r' \<and> leaf (snd e) r' = Some n"
    if l: "leaf (Dir es) r = Some n" for r n
  proof (cases r)
    case Nil
    with l show ?thesis by (simp add: leaf_def)
  next
    case (Cons c r')
    with l obtain m where m: "map_of es c = Some m"
      by (auto simp: leaf_Some_iff split: option.splits)
    then have "(c, m) \<in> set es" by (rule map_of_SomeD)
    moreover have "leaf m r' = Some n" using l Cons m by (simp add: leaf_def)
    ultimately show ?thesis using Cons by force
  qed
  show ?case
  proof
    assume "(q, n) \<in> set (visits p (Dir es))"
    then obtain e where "e \<in> set es" and v: "(q, n) \<in> set (visits (p @ [fst e]) (snd e))" by auto
    from v obtain r where "q = p @ fst e # r" "leaf (snd e) r = Some n"
      unfolding IH[OF \<open>e \<in> set es\<close>] by auto
    then have "q = p @ (fst e # r) \<and> leaf (Dir es) (fst e # r) = Some n"
      by (simp only: step[OF \<open>e \<in> set es\<close>])
    then show "\<exists>r. q = p @ r \<and> leaf (Dir es) r = Some n" by (rule exI)
  next
    assume "\<exists>r. q = p @ r \<and> leaf (Dir es) r = Some n"
    then obtain r where r: "q = p @ r" "leaf (Dir es) r = Some n" by blast
    from cons[OF r(2)] obtain e r' where "e \<in> set es" "r = fst e # r'" "leaf (snd e) r' = Some n"
      by (elim exE conjE)
    with r(1) have "e \<in> set es" "q = (p @ [fst e]) @ r'" "leaf (snd e) r' = Some n" by simp_all
    then have "(q, n) \<in> set (visits (p @ [fst e]) (snd e))"
      unfolding IH[OF \<open>e \<in> set es\<close>] by blast
    with \<open>e \<in> set es\<close> show "(q, n) \<in> set (visits p (Dir es))" by auto
  qed
qed (auto simp: leaf_Some_iff split: if_splits)

lemma visits_prefix: "(q, n) \<in> set (visits p t) \<Longrightarrow> \<exists>r. q = p @ r"
  by (induction p t rule: visits.induct) fastforce+

lemma visits_relative: "visits (p @ q) t = map (\<lambda>(r, n). (p @ r, n)) (visits q t)"
proof (induction q t rule: visits.induct)
  case (1 q es)
  then have "map (\<lambda>e. visits ((p @ q) @ [fst e]) (snd e)) es =
      map (\<lambda>e. map (\<lambda>(r, n). (p @ r, n)) (visits (q @ [fst e]) (snd e))) es"
    by (intro map_cong) simp_all
  then have "concat (map (\<lambda>e. visits ((p @ q) @ [fst e]) (snd e)) es) =
      concat (map (\<lambda>e. map (\<lambda>(r, n). (p @ r, n)) (visits (q @ [fst e]) (snd e))) es)"
    by (rule arg_cong)
  then show ?case by (simp add: map_concat comp_def)
qed simp_all

lemma distinct_visits: "wf_node t \<Longrightarrow> distinct (map fst (visits p t))"
proof (induction p t rule: visits.induct)
  case (1 p es)
  have part: "distinct (map fst (visits (p @ [fst e]) (snd e)))" if "e \<in> set es" for e
    using 1 that by simp
  have disj: "fst ` set (visits (p @ [a]) m) \<inter> fst ` set (visits (p @ [b]) n) = {}"
    if "a \<noteq> b" for a b m n
    using that by (auto dest!: visits_prefix)
  have "distinct (map fst xs) \<Longrightarrow> set xs \<subseteq> set es \<Longrightarrow>
      distinct (concat (map (\<lambda>e. map fst (visits (p @ [fst e]) (snd e))) xs))" for xs
  proof (induction xs)
    case (Cons x xs)
    have "fst ` set (visits (p @ [fst x]) (snd x)) \<inter> fst ` set (visits (p @ [fst y]) (snd y)) = {}"
      if "y \<in> set xs" for y
      using that Cons.prems(1) by (intro disj) (auto simp: image_iff)
    then have "set (map fst (visits (p @ [fst x]) (snd x))) \<inter>
        set (concat (map (\<lambda>e. map fst (visits (p @ [fst e]) (snd e))) xs)) = {}"
      by auto
    with Cons part[of x] show ?case by (simp add: distinct_append del: set_concat set_map)
  qed simp
  from this[of es] 1(2) show ?case by (simp add: map_concat comp_def)
qed simp_all

text \<open>A callback that never stops the walk and does nothing at directories is folded over the
  visited leaves.\<close>

lemma walk_dir_fold:
  assumes ok: "\<And>p d s. fst (fn p d s) = WOk" and dirs: "\<And>p s. snd (fn p True s) = s"
  shows "wf_node n \<Longrightarrow> clean_comps p \<Longrightarrow>
      walk_dir fn (abs_str p) n s =
        (WOk, fold (\<lambda>v s. snd (fn (abs_str (fst v)) False s)) (visits p n) s)"
proof (induction p n arbitrary: s rule: visits.induct)
  case (1 p es)
  let ?f = "\<lambda>v s. snd (fn (abs_str (fst v)) False s)"
  have ents: "walk_ents fn (abs_str p) xs s =
      (WOk, fold ?f (concat (map (\<lambda>e. visits (p @ [fst e]) (snd e)) xs)) s)"
    if "set xs \<subseteq> set es" for xs s
    using that
  proof (induction xs arbitrary: s)
    case (Cons x xs)
    then have x: "x \<in> set es" "clean_seg (fst x)" using 1(2) by auto
    with 1 have "walk_dir fn (abs_str (p @ [fst x])) (snd x) s =
        (WOk, fold ?f (visits (p @ [fst x]) (snd x)) s)"
      by simp
    moreover have "filepath_Join (abs_str p) (fst x) = abs_str (p @ [fst x])"
      using filepath_Join_seg[OF 1(3) x(2)] .
    ultimately show ?case using Cons by (cases x) simp
  qed simp
  have "fn (abs_str p) True s = (WOk, s)"
    using ok[of "abs_str p" True s] dirs[of "abs_str p" s] by (metis prod.collapse)
  then show ?case using ents[of es s] by simp
qed (use ok in \<open>simp_all add: prod_eq_iff\<close>)

text \<open>A callback that appends a list at each leaf, and at a directory either does nothing or skips
  one below which nothing would be appended.\<close>

lemma walk_dir_scan:
  assumes dirs: "\<And>q s. prefix p0 q \<Longrightarrow> clean_comps q \<Longrightarrow>
      fn (abs_str q) True s = (WOk, s) \<or>
      (fn (abs_str q) True s = (WSkipDir, s) \<and> (\<forall>r n. r \<noteq> [] \<longrightarrow> clean_comps r \<longrightarrow> g (q @ r, n) = []))"
  shows "wf_node n \<Longrightarrow> clean_comps p \<Longrightarrow> prefix p0 p \<Longrightarrow>
      (\<forall>v \<in> set (visits p n). \<forall>s. fn (abs_str (fst v)) False s = (WOk, s @ g v)) \<Longrightarrow>
      walk_dir fn (abs_str p) n s = (WOk, s @ concat (map g (visits p n)))"
proof (induction p n arbitrary: s rule: visits.induct)
  case (1 p es)
  note IH = 1(1) and wf = 1(2) and cp = 1(3) and pre = 1(4) and lv = 1(5)
  have ents: "walk_ents fn (abs_str p) xs s =
      (WOk, s @ concat (map g (concat (map (\<lambda>e. visits (p @ [fst e]) (snd e)) xs))))"
    if "set xs \<subseteq> set es" for xs s
    using that
  proof (induction xs arbitrary: s)
    case (Cons x xs)
    then have x: "x \<in> set es" "clean_seg (fst x)" "wf_node (snd x)" using wf by auto
    have "\<forall>v \<in> set (visits (p @ [fst x]) (snd x)). \<forall>s. fn (abs_str (fst v)) False s = (WOk, s @ g v)"
      using lv x(1) by auto
    moreover have "clean_comps (p @ [fst x])" "prefix p0 (p @ [fst x])" using cp pre x(2) by auto
    ultimately have "walk_dir fn (abs_str (p @ [fst x])) (snd x) s =
        (WOk, s @ concat (map g (visits (p @ [fst x]) (snd x))))"
      using IH[OF x(1) x(3)] by blast
    moreover have "filepath_Join (abs_str p) (fst x) = abs_str (p @ [fst x])"
      using filepath_Join_seg[OF cp x(2)] .
    ultimately show ?case using Cons by (cases x) simp
  qed simp
  from dirs[OF pre cp, of s] show ?case
  proof (elim disjE conjE)
    assume "fn (abs_str p) True s = (WOk, s)"
    then show ?thesis using ents[of es s] by simp
  next
    assume sk: "fn (abs_str p) True s = (WSkipDir, s)"
      and no: "\<forall>r n. r \<noteq> [] \<longrightarrow> clean_comps r \<longrightarrow> g (p @ r, n) = []"
    have "g v = []" if "v \<in> set (visits p (Dir es))" for v
    proof -
      obtain q m where v: "v = (q, m)" by fastforce
      with that visits_leaf[OF wf, of q m p] obtain r where r: "q = p @ r" "leaf (Dir es) r = Some m"
        by blast
      then have "lookup (Dir es) r = Some m" "r \<noteq> []" by (auto simp: leaf_Some_iff)
      with no r v wf_lookup[OF wf] show ?thesis by (auto simp: clean_comps_def)
    qed
    then have "concat (map g (visits p (Dir es))) = []" by (simp only: concat_eq_Nil_conv) auto
    with sk show ?thesis by (simp del: visits.simps)
  qed
qed auto

text \<open>An invariant of the callback is an invariant of the walk; and a walk that ends without an error,
  with a callback that never skips and does nothing at directories, has visited every leaf.\<close>

lemma walk_dir_inv:
  assumes "\<And>p d s. I s \<Longrightarrow> I (snd (fn p d s))"
  shows "I s \<Longrightarrow> I (snd (walk_dir fn p n s))" and "I s \<Longrightarrow> I (snd (walk_ents fn p es s))"
  using assms
  by (induction fn p n s and fn p es s rule: walk_dir_walk_ents.induct)
    (auto split: prod.split walk_result.split, (metis snd_conv)+)

lemma WalkDir_inv:
  assumes "\<And>p d s. I s \<Longrightarrow> I (snd (fn p d s))" "I s"
  shows "I (snd (WalkDir fs root fn_err fn s))"
  using walk_dir_inv(1)[of I fn, OF assms]
  by (auto simp: WalkDir_def assms(2) split: sum.split prod.split walk_result.split) (metis snd_conv)+

lemma walk_no_skip:
  "fst (walk_ents fn p es s) \<noteq> WSkipDir"
  "(\<And>p d s. fst (fn p d s) \<noteq> WSkipDir) \<Longrightarrow> fst (walk_dir fn p n s) \<noteq> WSkipDir"
proof -
  show e: "fst (walk_ents fn p es s) \<noteq> WSkipDir" for es s
    by (induction es arbitrary: s) (auto simp: case_prod_beta split: walk_result.splits)
  show "fst (walk_dir fn p n s) \<noteq> WSkipDir" if "\<And>p d s. fst (fn p d s) \<noteq> WSkipDir"
    using e that by (cases n) (auto simp: case_prod_beta split: walk_result.splits)
qed

lemma walk_dir_ok:
  assumes skip: "\<And>p d s. fst (fn p d s) \<noteq> WSkipDir" and dirs: "\<And>p s. fn p True s = (WOk, s)"
    and J: "\<And>q d s. J s \<Longrightarrow> J (snd (fn q d s))" and I: "\<And>q d s. J s \<Longrightarrow> I s \<Longrightarrow> I (snd (fn q d s))"
    and here: "\<And>s s'. J s \<Longrightarrow> fn (abs_str (fst v)) False s = (WOk, s') \<Longrightarrow> I s'"
  shows "wf_node n \<Longrightarrow> clean_comps p \<Longrightarrow> walk_dir fn (abs_str p) n s = (WOk, s') \<Longrightarrow> v \<in> set (visits p n) \<Longrightarrow>
    J s \<Longrightarrow> I s'"
proof (induction p n arbitrary: s s' rule: visits.induct)
  case (1 p es)
  note IH = 1(1) and wf = 1(2) and cp = 1(3) and run = 1(4) and v = 1(5) and js = 1(6)
  have keep: "J (snd (walk_dir fn p n s))" "I s \<Longrightarrow> I (snd (walk_dir fn p n s))" if "J s" for p n s
    using walk_dir_inv(1)[of J fn, OF J that] walk_dir_inv(1)[of "\<lambda>s. J s \<and> I s" fn s] J I that by blast+
  have ents: "I s'"
    if "set xs \<subseteq> set es" "walk_ents fn (abs_str p) xs s = (WOk, s')" "J s"
      "I s \<or> (\<exists>e \<in> set xs. v \<in> set (visits (p @ [fst e]) (snd e)))" for xs s
    using that
  proof (induction xs arbitrary: s)
    case (Cons x xs)
    then have x: "x \<in> set es" "clean_seg (fst x)" "wf_node (snd x)" using wf by auto
    have j: "filepath_Join (abs_str p) (fst x) = abs_str (p @ [fst x])" by (rule filepath_Join_seg[OF cp x(2)])
    obtain r s1 where w: "walk_dir fn (abs_str (p @ [fst x])) (snd x) s = (r, s1)" by fastforce
    have "r \<noteq> WSkipDir"
      using walk_no_skip(2)[of fn, OF skip] w by (metis fst_conv)
    with Cons.prems(2) w j have w': "walk_ents fn (abs_str p) xs s1 = (WOk, s')" "r = WOk"
      by (cases x; auto split: walk_result.splits)+
    have j1: "J s1" using keep(1)[OF Cons.prems(3)] w by (metis snd_conv)
    have "I s1 \<or> (\<exists>e \<in> set xs. v \<in> set (visits (p @ [fst e]) (snd e)))"
    proof (cases "I s")
      case True
      then have "I s1" using keep(2)[OF Cons.prems(3)] w by (metis snd_conv)
      then show ?thesis ..
    next
      case False
      with Cons.prems(4) consider "v \<in> set (visits (p @ [fst x]) (snd x))"
        | "\<exists>e \<in> set xs. v \<in> set (visits (p @ [fst e]) (snd e))" by auto
      then show ?thesis
      proof cases
        case 1
        have "I s1"
          by (rule IH[OF x(1) x(3) _ _ 1 Cons.prems(3)]) (use cp x(2) w w'(2) in auto)
        then show ?thesis ..
      qed blast
    qed
    with Cons.IH[of s1] Cons.prems(1) w'(1) j1 show ?case by simp
  qed simp
  from run dirs have "walk_ents fn (abs_str p) es s = (WOk, s')" by simp
  from ents[OF _ this js] v show ?case by auto
qed (use here in auto)

end
