(* ===== verification/Dir_Store.thy ===== *)
theory Dir_Store
  imports Os_Files Manifest
begin

text \<open>
  \<^verbatim>\<open>internal/sync/server.go\<close>: \<open>DirStore\<close>, the workspace directory of a project. Its one field
  is the root path, the first argument of each operation here; the file system is the state.
  \<open>ds_resolve\<close> maps a relative path to a real one below the root; a file is written under a
  random temporary name (\<open>WriteTemp\<close>) and then renamed (\<open>Promote\<close>) or removed (\<open>Discard\<close>).
  \<open>ScanDir\<close> of \<^verbatim>\<open>internal/sync/client.go\<close>, the scan both sides run, is here too.

  SHA-256 is the parameter \<open>sha\<close>: the hexadecimal digest of a content. The random bytes of a
  temporary name are the parameter \<open>rnd\<close> (\<open>None\<close> when \<open>rand.Read\<close> fails).
\<close>

section \<open>Data\<close>

text \<open>An \<open>io.Reader\<close>: the bytes it delivers, and whether it then fails instead of ending.\<close>

record reader =
  rd_data :: bytes
  rd_fails :: bool

datatype ds_error = DsUnsafePath | DsTooLarge | DsOs errno | DsRand | DsRead

definition tmp_prefix :: string where
  "tmp_prefix = ''.cclaude.tmp.''"

text \<open>\<open>os.Open\<close>: a directory can be opened, and then fails on the first read.\<close>

definition os_Open :: "node \<Rightarrow> string \<Rightarrow> errno + reader" where
  "os_Open fs p =
     (case os_Stat fs p of
        Inl e \<Rightarrow> Inl e
      | Inr (File b) \<Rightarrow> Inr \<lparr>rd_data = b, rd_fails = False\<rparr>
      | Inr _ \<Rightarrow> Inr \<lparr>rd_data = [], rd_fails = True\<rparr>)"

section \<open>The operations\<close>

definition ds_resolve :: "string \<Rightarrow> string \<Rightarrow> node \<Rightarrow> (ds_error + string) \<times> node" where
  "ds_resolve root rel0 fs =
     (case SafeRelPath rel0 of
        Inl _ \<Rightarrow> (Inl DsUnsafePath, fs)
      | Inr rel \<Rightarrow>
          let ap = filepath_Join root rel;
              parent = filepath_Dir ap
          in case os_MkdirAll fs parent of
               (Some e, fs1) \<Rightarrow> (Inl (DsOs e), fs1)
             | (None, fs1) \<Rightarrow>
                 (case EvalSymlinks fs1 parent of
                    Inl e \<Rightarrow> (Inl (DsOs e), fs1)
                  | Inr realParent \<Rightarrow>
                      (case EvalSymlinks fs1 root of
                         Inl e \<Rightarrow> (Inl (DsOs e), fs1)
                       | Inr realRoot \<Rightarrow>
                           if realParent \<noteq> realRoot \<and>
                              \<not> has_prefix (realParent @ ''/'') (realRoot @ ''/'')
                           then (Inl DsUnsafePath, fs1)
                           else (Inr (filepath_Join realParent (filepath_Base ap)), fs1))))"

text \<open>\<open>io.LimitReader(r, maxBytes+1)\<close>: at most that many bytes, then the end; a failure of \<open>r\<close>
  shows only if the limit is not reached first.\<close>

definition limit_read :: "reader \<Rightarrow> int64 \<Rightarrow> bytes \<times> bool" where
  "limit_read r lim =
     (take (nat (sint lim)) (rd_data r), rd_fails r \<and> int (length (rd_data r)) < sint lim)"

definition WriteTemp ::
    "(bytes \<Rightarrow> string) \<Rightarrow> string \<Rightarrow> string \<Rightarrow> reader \<Rightarrow> int64 \<Rightarrow> bytes option \<Rightarrow> node \<Rightarrow>
       (ds_error + string \<times> string \<times> int64) \<times> node" where
  "WriteTemp sha root rel r maxBytes rnd fs =
     (case ds_resolve root rel fs of
        (Inl e, fs1) \<Rightarrow> (Inl e, fs1)
      | (Inr ap, fs1) \<Rightarrow>
          (case rnd of
             None \<Rightarrow> (Inl DsRand, fs1)
           | Some rb \<Rightarrow>
               let tmpID = tmp_prefix @ hex_encode rb;
                   tmpPath = filepath_Join (filepath_Dir ap) tmpID;
                   (data, err) = limit_read r (maxBytes + 1);
                   n = length data
               in case os_CreateExcl fs1 tmpPath data of
                    (Some e, fs2) \<Rightarrow> (Inl (DsOs e), fs2)
                  | (None, fs2) \<Rightarrow>
                      if err \<or> int n > sint maxBytes
                      then (Inl (if err then DsRead else DsTooLarge), snd (os_Remove fs2 tmpPath))
                      else (Inr (tmpID, sha data, of_nat n), fs2)))"

definition ds_Open :: "string \<Rightarrow> string \<Rightarrow> node \<Rightarrow> (ds_error + reader) \<times> node" where
  "ds_Open root rel fs =
     (case ds_resolve root rel fs of
        (Inl e, fs1) \<Rightarrow> (Inl e, fs1)
      | (Inr ap, fs1) \<Rightarrow>
          (case os_Open fs1 ap of
             Inl e \<Rightarrow> (Inl (DsOs e), fs1)
           | Inr r \<Rightarrow> (Inr r, fs1)))"

definition Promote :: "string \<Rightarrow> string \<Rightarrow> string \<Rightarrow> int64 \<Rightarrow> node \<Rightarrow> ds_error option \<times> node" where
  "Promote root rel tmpID revision fs =
     (case ds_resolve root rel fs of
        (Inl e, fs1) \<Rightarrow> (Some e, fs1)
      | (Inr ap, fs1) \<Rightarrow>
          (case os_Rename fs1 (filepath_Join (filepath_Dir ap) tmpID) ap of
             (Some e, fs2) \<Rightarrow> (Some (DsOs e), fs2)
           | (None, fs2) \<Rightarrow> (None, fs2)))"

definition discard_fn :: "string \<Rightarrow> (errno, node) walk_fn" where
  "discard_fn tmpID p isdir fs =
     (WOk, if \<not> isdir \<and> filepath_Base p = tmpID then snd (os_Remove fs p) else fs)"

definition Discard :: "string \<Rightarrow> string \<Rightarrow> node \<Rightarrow> node" where
  "Discard root tmpID fs = snd (WalkDir fs root (\<lambda>e. WOk) (discard_fn tmpID) fs)"

definition ds_Delete :: "string \<Rightarrow> string \<Rightarrow> int64 \<Rightarrow> node \<Rightarrow> ds_error option \<times> node" where
  "ds_Delete root rel revision fs =
     (case ds_resolve root rel fs of
        (Inl e, fs1) \<Rightarrow> (Some e, fs1)
      | (Inr ap, fs1) \<Rightarrow>
          (case os_Remove fs1 ap of
             (Some e, fs2) \<Rightarrow> if e \<noteq> ENOENT then (Some (DsOs e), fs2) else (None, fs2)
           | (None, fs2) \<Rightarrow> (None, fs2)))"

text \<open>The entry of a scanned file: what \<open>io.Copy\<close> into the hash returns.\<close>

definition scanned_entry :: "(bytes \<Rightarrow> string) \<Rightarrow> string \<Rightarrow> bytes \<Rightarrow> file_entry" where
  "scanned_entry sha rel b =
     \<lparr>fe_Path = rel, fe_Size = of_nat (length b), fe_SHA256 = sha b, fe_Revision = 0,
      fe_Deleted = False\<rparr>"

definition hash_file ::
    "(bytes \<Rightarrow> string) \<Rightarrow> node \<Rightarrow> string \<Rightarrow> string \<Rightarrow> file_entry list \<Rightarrow> errno walk_result \<times> file_entry list" where
  "hash_file sha fs p rel out =
     (case os_Open fs p of
        Inl e \<Rightarrow> (WErr e, out)
      | Inr r \<Rightarrow> if rd_fails r then (WErr EISDIR, out)
                 else (WOk, out @ [scanned_entry sha rel (rd_data r)]))"

definition scan_fn ::
    "(bytes \<Rightarrow> string) \<Rightarrow> node \<Rightarrow> string \<Rightarrow> (errno, file_entry list) walk_fn" where
  "scan_fn sha fs root p isdir out =
     (let rel = trim_prefix p (root @ ''/'') in
      if isdir then
        (if rel \<noteq> [] \<and> DefaultExcluded (rel @ ''/'') then (WSkipDir, out) else (WOk, out))
      else if DefaultExcluded rel \<or> has_prefix (filepath_Base p) tmp_prefix then (WOk, out)
      else hash_file sha fs p rel out)"

definition ScanDir :: "(bytes \<Rightarrow> string) \<Rightarrow> node \<Rightarrow> string \<Rightarrow> errno option \<times> file_entry list" where
  "ScanDir sha fs root =
     (case WalkDir fs root WErr (scan_fn sha fs root) [] of
        (WErr e, out) \<Rightarrow> (Some e, out)
      | (_, out) \<Rightarrow> (None, out))"

definition manifest_fn ::
    "(bytes \<Rightarrow> string) \<Rightarrow> node \<Rightarrow> string \<Rightarrow> (errno, file_entry list) walk_fn" where
  "manifest_fn sha fs root p isdir out =
     (if isdir then (WOk, out)
      else
        let rel = trim_prefix p (root @ ''/'');
            base = filepath_Base p
        in if has_prefix base tmp_prefix \<or> DefaultExcluded rel then (WOk, out)
           else hash_file sha fs p rel out)"

definition ds_Manifest :: "(bytes \<Rightarrow> string) \<Rightarrow> node \<Rightarrow> string \<Rightarrow> errno option \<times> file_entry list" where
  "ds_Manifest sha fs root =
     (case WalkDir fs root WErr (manifest_fn sha fs root) [] of
        (WErr e, out) \<Rightarrow> (Some e, out)
      | (_, out) \<Rightarrow> (None, out))"

section \<open>\<open>ds_resolve\<close>\<close>

lemma walk_more_links:
  "walk k fs cur cs f = Inr q \<Longrightarrow> k \<le> j \<Longrightarrow> walk j fs cur cs f = Inr q"
proof (induction k fs cur cs f arbitrary: j rule: walk.induct)
  case (2 k fs cur c cs f)
  note IH = 2(1-4) and prems = 2(5-6)
  show ?case
  proof (cases "c = [] \<or> c = ''.'' \<or> c = ''..''")
    case True
    then consider "c = [] \<or> c = ''.''" | "\<not> (c = [] \<or> c = ''.'')" "c = ''..''" by blast
    then show ?thesis
    proof cases
      case 1
      with prems(1) have "walk k fs cur cs f = Inr q" by (simp add: walk.simps(2))
      from IH(1)[OF 1 this prems(2)] 1 show ?thesis by (simp add: walk.simps(2))
    next
      case 2
      with prems(1) have "walk k fs (butlast cur) cs f = Inr q" by (simp add: walk.simps(2))
      from IH(2)[OF 2 this prems(2)] 2 show ?thesis by (simp add: walk.simps(2))
    qed
  next
    case False
    show ?thesis
    proof (cases "lookup fs (cur @ [c])")
      case None
      with False prems show ?thesis by (simp add: walk.simps(2))
    next
      case (Some n)
      show ?thesis
      proof (cases n)
        case (File b)
        with Some False prems show ?thesis by (auto simp: walk.simps(2) split: if_splits)
      next
        case (Dir es)
        with Some False prems(1) have "walk k fs (cur @ [c]) cs f = Inr q"
          by (simp add: walk.simps(2))
        from IH(3)[OF _ _ Some Dir this prems(2)] Some Dir False show ?thesis
          by (simp add: walk.simps(2))
      next
        case (Link t)
        show ?thesis
        proof (cases "cs = [] \<and> \<not> f")
          case nf: False
          with Some Link False prems(1) obtain k' where k: "k = Suc k'"
            and w: "walk k' fs (if has_prefix t ''/'' then [] else cur) (segs t @ cs) f = Inr q"
            by (cases k) (auto simp: walk.simps(2) split: if_splits)
          from prems(2) k obtain j' where j: "j = Suc j'" "k' \<le> j'" by (cases j) auto
          from IH(4)[OF _ _ Some Link nf k w j(2)] False
          have "walk j' fs (if has_prefix t ''/'' then [] else cur) (segs t @ cs) f = Inr q"
            by blast
          with Some Link False nf j show ?thesis by (auto simp: walk.simps(2))
        qed (use Some Link False prems in \<open>simp add: walk.simps(2)\<close>)
      qed
    qed
  qed
qed simp

lemma prefix_abs_str:
  assumes "has_prefix (abs_str xs @ ''/'') (abs_str ys @ ''/'')" "clean_comps xs" "clean_comps ys"
  shows "prefix ys xs"
proof (cases "ys = []")
  case False
  have j: "split_ch (CHR ''/'') (abs_str zs @ CHR ''/'' # t) = [] # zs @ split_ch (CHR ''/'') t"
    if "zs \<noteq> []" "clean_comps zs" for zs t
    using that segs_join[of zs] by (simp add: abs_str_def split_ch_append clean_comps_def segs_def)
  from assms(1) obtain t where t: "abs_str xs @ ''/'' = abs_str ys @ CHR ''/'' # t"
    by (auto simp: prefix_def)
  have "xs \<noteq> []"
  proof
    assume "xs = []"
    with t have "''//'' = abs_str ys @ CHR ''/'' # t" by (simp add: abs_str_def)
    then have "join_ch (CHR ''/'') ys = []" using False by (auto simp: abs_str_def Cons_eq_append_conv)
    with join_clean_head(1)[of ys] False assms(3) show False by (simp add: clean_comps_def)
  qed
  with t j[of xs "[]"] j[of ys t] assms False
  have e: "xs @ [[]] = ys @ split_ch (CHR ''/'') t" by simp
  then show ?thesis
    using split_ch_nonempty[of "CHR ''/''" t]
    by (cases "split_ch (CHR ''/'') t" rule: rev_cases) (auto simp: prefix_def)
qed simp

text \<open>What a successful resolution gives: a real directory below the real root, and an entry in
  it with the last name of the path; the tree only gained directories.\<close>

lemma ds_resolve_ok:
  assumes "ds_resolve (abs_str rc) rel fs = (Inr ap, fs')" "clean_comps rc" "is_dir fs []"
  obtains q rr d where
    "SafeRelPath rel = Inr q"
    "ap = abs_str ((rr @ d) @ [last (segs q)])"
    "clean_comps ((rr @ d) @ [last (segs q)])"
    "is_dir fs' (rr @ d)"
    "walk go_links fs' [] rc True = Inr rr"
    "walk go_links fs' [] (rc @ butlast (segs q)) True = Inr (rr @ d)"
    "walk kernel_links fs' [] (rc @ butlast (segs q)) True = Inr (rr @ d)"
    "extends fs fs'" "leaf fs' = leaf fs" "wf_node fs \<longrightarrow> wf_node fs'"
    "abs_str (rr @ d) = abs_str rr \<or> has_prefix (abs_str (rr @ d) @ ''/'') (abs_str rr @ ''/'')"
proof -
  from assms(1) obtain q where q: "SafeRelPath rel = Inr q"
    by (auto simp: ds_resolve_def split: sum.splits)
  then have sq: "safe_rel q" by (rule SafeRelPath_safe_rel)
  define ss where "ss = segs q"
  from sq have ss: "ss \<noteq> []" "clean_comps ss" and qj: "q = join_ch (CHR ''/'') ss"
    by (auto simp: ss_def safe_rel_def clean_comps_def)
  define ps where "ps = rc @ butlast ss"
  have cps: "clean_comps ps" using ss assms(2) by (simp add: ps_def clean_comps_butlast)
  have lst: "clean_seg (last ss)" using ss by (simp add: clean_comps_def)
  have ab: "filepath_Join (abs_str rc) q = abs_str (ps @ [last ss])"
    using filepath_Join_abs[OF assms(2) ss(2,1)] ss(1) by (simp add: ps_def qj)
  have par: "filepath_Dir (abs_str (ps @ [last ss])) = abs_str ps"
    using cps lst by (intro filepath_Dir_abs) simp
  have bas: "filepath_Base (abs_str (ps @ [last ss])) = last ss"
    using cps lst by (intro filepath_Base_abs) simp
  note eqs = q ab par bas
  from assms(1) obtain rp rrs where m: "os_MkdirAll fs (abs_str ps) = (None, fs')"
    and rp: "EvalSymlinks fs' (abs_str ps) = Inr rp" and rrs: "EvalSymlinks fs' (abs_str rc) = Inr rrs"
    and chk: "rp = rrs \<or> has_prefix (rp @ ''/'') (rrs @ ''/'')"
    and ap: "ap = filepath_Join rp (last ss)"
    by (auto simp: ds_resolve_def eqs Let_def split: prod.splits option.splits sum.splits if_splits)
  from m have m': "mkdir_all fs (rev ps) = (None, fs')" using cps by (simp add: os_MkdirAll_def)
  have crev: "clean_comps (rev ps)" using cps by (auto simp: clean_comps_def)
  note eff = mkdir_all_effect[OF m' crev assms(3)]
  then have root': "is_dir fs' []" using assms(3) extends_root by blast
  from mkdir_all_ok[OF m' crev assms(3)] obtain p
    where p: "walk kernel_links fs' [] ps True = Inr p" "is_dir fs' p" by auto
  have p255: "walk go_links fs' [] ps True = Inr p"
    using walk_more_links[OF p(1)] by (simp add: kernel_links_def go_links_def)
  from rrs assms(2) obtain rr where rr: "walk go_links fs' [] rc True = Inr rr" "rrs = abs_str rr"
    by (auto simp: EvalSymlinks_def walk_abs_str split: sum.splits)
  from rp cps p255 have rpp: "rp = abs_str p" by (simp add: EvalSymlinks_def walk_abs_str)
  have sl: "\<forall>c \<in> set cs. CHR ''/'' \<notin> set c" if "clean_comps cs" for cs
    using that by (auto simp: clean_comps_def clean_seg_def)
  have cp: "clean_comps p" using walk_result[OF p(1) root' _ sl[OF cps]] by simp
  have cr: "clean_comps rr" using walk_result[OF rr(1) root' _ sl[OF assms(2)]] by simp
  have "prefix rr p" using chk
  proof
    assume "rp = rrs"
    then show ?thesis using abs_str_inj[OF cp cr] rpp rr(2) by simp
  next
    assume "has_prefix (rp @ ''/'') (rrs @ ''/'')"
    then show ?thesis unfolding rpp rr(2) by (rule prefix_abs_str[OF _ cp cr])
  qed
  then obtain d where d: "p = rr @ d" by (auto simp: prefix_def)
  show thesis
  proof (rule that[of q rr d])
    show "SafeRelPath rel = Inr q" by (rule q)
    show "ap = abs_str ((rr @ d) @ [last (segs q)])"
      using ap cp lst filepath_Join_seg[of p "last ss"] unfolding rpp d ss_def by simp
    show "clean_comps ((rr @ d) @ [last (segs q)])" using cp d lst by (simp add: ss_def)
    show "abs_str (rr @ d) = abs_str rr \<or> has_prefix (abs_str (rr @ d) @ ''/'') (abs_str rr @ ''/'')"
      using chk unfolding rpp rr(2) d .
    show "is_dir fs' (rr @ d)" using p(2) unfolding d .
    show "walk go_links fs' [] rc True = Inr rr" by (rule rr(1))
    show "walk go_links fs' [] (rc @ butlast (segs q)) True = Inr (rr @ d)"
      using p255 unfolding ps_def ss_def d .
    show "walk kernel_links fs' [] (rc @ butlast (segs q)) True = Inr (rr @ d)"
      using p(1) unfolding ps_def ss_def d .
    show "extends fs fs'" "leaf fs' = leaf fs" "wf_node fs \<longrightarrow> wf_node fs'"
      using eff by blast+
  qed
qed

text \<open>Resolving again, in any tree that only gained entries, gives the same and changes nothing.\<close>

lemma ds_resolve_again:
  assumes "ds_resolve (abs_str rc) rel fs = (Inr ap, fs1)" "clean_comps rc" "is_dir fs []"
    and "extends fs1 fs2"
  shows "ds_resolve (abs_str rc) rel fs2 = (Inr ap, fs2)"
proof -
  from ds_resolve_ok[OF assms(1-3)] obtain q rr d where R:
    "SafeRelPath rel = Inr q"
    "ap = abs_str ((rr @ d) @ [last (segs q)])"
    "clean_comps ((rr @ d) @ [last (segs q)])"
    "is_dir fs1 (rr @ d)"
    "walk go_links fs1 [] rc True = Inr rr"
    "walk go_links fs1 [] (rc @ butlast (segs q)) True = Inr (rr @ d)"
    "walk kernel_links fs1 [] (rc @ butlast (segs q)) True = Inr (rr @ d)"
    "abs_str (rr @ d) = abs_str rr \<or> has_prefix (abs_str (rr @ d) @ ''/'') (abs_str rr @ ''/'')"
    by metis
  define ps where "ps = rc @ butlast (segs q)"
  from R(1) have "safe_rel q" by (rule SafeRelPath_safe_rel)
  then have ss: "segs q \<noteq> []" "clean_comps (segs q)" by (auto simp: safe_rel_def clean_comps_def)
  have cps: "clean_comps ps" using ss assms(2) by (simp add: ps_def clean_comps_butlast)
  have lst: "clean_seg (last (segs q))" using ss by (simp add: clean_comps_def)
  have ab: "filepath_Join (abs_str rc) q = abs_str (ps @ [last (segs q)])"
    using filepath_Join_abs[OF assms(2) ss(2,1)] ss(1) by (simp add: ps_def)
  have par: "filepath_Dir (abs_str (ps @ [last (segs q)])) = abs_str ps"
    using cps lst by (intro filepath_Dir_abs) simp
  have bas: "filepath_Base (abs_str (ps @ [last (segs q)])) = last (segs q)"
    using cps lst by (intro filepath_Base_abs) simp
  have w: "walk kernel_links fs2 [] ps True = Inr (rr @ d)" "walk go_links fs2 [] ps True = Inr (rr @ d)"
    "walk go_links fs2 [] rc True = Inr rr"
    using walk_extends[OF assms(4)] R(5-7) by (simp_all add: ps_def)
  have dd: "is_dir fs2 (rr @ d)" using R(4) assms(4) by (rule extends_root[rotated])
  have "os_MkdirAll fs2 (abs_str ps) = (None, fs2)"
    using mkdir_all_again[of fs2 "rev ps" "rr @ d"] w dd cps
    by (auto simp: os_MkdirAll_def clean_comps_def)
  moreover have "EvalSymlinks fs2 (abs_str ps) = Inr (abs_str (rr @ d))"
    using w cps by (simp add: EvalSymlinks_def walk_abs_str)
  moreover have "EvalSymlinks fs2 (abs_str rc) = Inr (abs_str rr)"
    using w assms(2) by (simp add: EvalSymlinks_def walk_abs_str)
  moreover note R(8)
  moreover have "filepath_Join (abs_str (rr @ d)) (last (segs q)) = ap"
    using R(2,3) filepath_Join_seg[of "rr @ d" "last (segs q)"] by simp
  ultimately show ?thesis
    by (auto simp: ds_resolve_def R(1) ab par bas Let_def)
qed

section \<open>The workspace as a map from paths to contents\<close>

text \<open>A workspace: a real directory of a well-formed tree, below the root of the tree. It is
  plain if it holds only directories and regular files. \<open>content\<close> reads it as a map.\<close>

definition workspace :: "string list \<Rightarrow> node \<Rightarrow> bool" where
  "workspace rc fs \<longleftrightarrow> clean_comps rc \<and> rc \<noteq> [] \<and> is_dir fs rc \<and> wf_node fs"

definition ws_leaves :: "string list \<Rightarrow> node \<Rightarrow> (string list \<times> node) list" where
  "ws_leaves rc fs = (case lookup fs rc of None \<Rightarrow> [] | Some n \<Rightarrow> visits [] n)"

definition is_file :: "node \<Rightarrow> bool" where
  "is_file n = (case n of File _ \<Rightarrow> True | _ \<Rightarrow> False)"

definition plain :: "string list \<Rightarrow> node \<Rightarrow> bool" where
  "plain rc fs \<longleftrightarrow> (\<forall>v \<in> set (ws_leaves rc fs). is_file (snd v))"

definition content :: "string list \<Rightarrow> node \<Rightarrow> string \<Rightarrow> bytes option" where
  "content rc fs k = (case leaf fs (rc @ segs k) of Some (File b) \<Rightarrow> Some b | _ \<Rightarrow> None)"

definition tmp_name :: "bytes \<Rightarrow> string" where
  "tmp_name rb = tmp_prefix @ hex_encode rb"

text \<open>No file of the workspace has the temporary name the random bytes will give.\<close>

definition fresh_tmp :: "bytes option \<Rightarrow> string list \<Rightarrow> node \<Rightarrow> bool" where
  "fresh_tmp rnd rc fs \<longleftrightarrow>
     (case rnd of None \<Rightarrow> True
      | Some rb \<Rightarrow> \<forall>v \<in> set (ws_leaves rc fs). last (fst v) \<noteq> tmp_name rb)"

lemma ws_leaves_iff:
  assumes "workspace rc fs"
  shows "(r, n) \<in> set (ws_leaves rc fs) \<longleftrightarrow> leaf fs (rc @ r) = Some n"
proof -
  from assms obtain es where es: "lookup fs rc = Some (Dir es)"
    by (auto simp: workspace_def is_dir_iff)
  with assms have "wf_node (Dir es)"
    using wf_lookup[of fs rc "Dir es"] unfolding workspace_def by blast
  from visits_leaf[OF this, of r n "[]"] show ?thesis
    using es by (simp add: ws_leaves_def leaf_def lookup_append)
qed

lemma ws_leaf_clean:
  assumes "workspace rc fs" "leaf fs (rc @ r) = Some n"
  shows "r \<noteq> [] \<and> clean_comps r"
proof -
  from assms have "lookup fs (rc @ r) = Some n" "\<forall>es. n \<noteq> Dir es" by (auto simp: leaf_Some_iff)
  with assms show ?thesis
    using wf_lookup[of fs "rc @ r" n]
    by (auto simp: workspace_def is_dir_iff clean_comps_def)
qed

lemma plain_no_link: "workspace rc fs \<Longrightarrow> plain rc fs \<Longrightarrow> leaf fs (rc @ r) \<noteq> Some (Link t)"
  using ws_leaves_iff[of rc fs r "Link t"] by (fastforce simp: plain_def is_file_def)

lemma plain_iff:
  assumes "workspace rc fs"
  shows "plain rc fs \<longleftrightarrow> (\<forall>r t. leaf fs (rc @ r) \<noteq> Some (Link t))"
proof
  assume "\<forall>r t. leaf fs (rc @ r) \<noteq> Some (Link t)"
  then show "plain rc fs"
    using ws_leaves_iff[OF assms] by (fastforce simp: plain_def is_file_def leaf_Some_iff split: node.split)
qed (use plain_no_link[OF assms] in blast)

lemma fresh_tmp_iff:
  assumes "workspace rc fs"
  shows "fresh_tmp (Some rb) rc fs \<longleftrightarrow> (\<forall>r n. leaf fs (rc @ r) = Some n \<longrightarrow> last r \<noteq> tmp_name rb)"
  using ws_leaves_iff[OF assms] by (fastforce simp: fresh_tmp_def)

lemma workspace_cong:
  assumes "workspace rc fs" "\<forall>q. is_dir fs q \<longrightarrow> is_dir fs' q" "wf_node fs'"
  shows "workspace rc fs'"
  using assms by (simp add: workspace_def)

lemma workspace_root: "workspace rc fs \<Longrightarrow> is_dir fs []"
  using is_dir_root by (auto simp: workspace_def)

lemma clean_tmp_name: "clean_seg (tmp_name rb)"
proof -
  have "CHR ''/'' \<notin> set (tmp_name rb)"
    using hex_encode_clean by (simp add: tmp_name_def tmp_prefix_def)
  then show ?thesis by (simp add: clean_seg_def tmp_name_def tmp_prefix_def)
qed

lemma segs_inj: "segs a = segs b \<longleftrightarrow> a = b"
  using join_segs by metis

text \<open>The real location of a path: \<open>loc_of rc rel fs = Some l\<close> if it resolves to \<open>l\<close>.\<close>

definition loc_of :: "string list \<Rightarrow> string \<Rightarrow> node \<Rightarrow> string list option" where
  "loc_of rc rel fs =
     (case fst (ds_resolve (abs_str rc) rel fs) of Inl _ \<Rightarrow> None | Inr p \<Rightarrow> Some (comps p))"

lemma walk_no_links:
  "walk k fs cur cs f = Inr q \<Longrightarrow> clean_comps cs \<Longrightarrow>
     (\<And>pre t. prefix pre cs \<Longrightarrow> leaf fs (cur @ pre) \<noteq> Some (Link t)) \<Longrightarrow> q = cur @ cs"
proof (induction cs arbitrary: cur)
  case (Cons c cs)
  from Cons.prems(2) have c: "c \<noteq> [] \<and> c \<noteq> ''.'' \<and> c \<noteq> ''..''" by (auto simp: clean_seg_def)
  have nl: "lookup fs (cur @ [c]) \<noteq> Some (Link t)" for t
    using Cons.prems(3)[of "[c]" t] by (simp add: leaf_Some_iff)
  from Cons.prems(1) c nl consider "cs = []" "q = cur @ [c]" | "walk k fs (cur @ [c]) cs f = Inr q"
    by (auto simp: walk.simps(2) split: option.splits node.splits if_splits)
  then show ?case
  proof cases
    case 2
    have "leaf fs ((cur @ [c]) @ pre) \<noteq> Some (Link t)" if "prefix pre cs" for pre t
      using Cons.prems(3)[of "c # pre" t] that by simp
    with Cons.IH[OF 2] Cons.prems(2) show ?thesis by simp
  qed simp
qed simp

lemma ds_resolve_workspace:
  assumes "ds_resolve (abs_str rc) rel fs = (Inr ap, fs')" "workspace rc fs"
  obtains q d where
    "SafeRelPath rel = Inr q"
    "ap = abs_str ((rc @ d) @ [last (segs q)])"
    "clean_comps ((rc @ d) @ [last (segs q)])" "is_dir fs' (rc @ d)"
    "extends fs fs'" "leaf fs' = leaf fs" "workspace rc fs'"
    "plain rc fs \<Longrightarrow> d = butlast (segs q)"
proof -
  have cc: "clean_comps rc" using assms(2) by (simp add: workspace_def)
  from ds_resolve_ok[OF assms(1) cc workspace_root[OF assms(2)]] obtain q rr d where R:
    "SafeRelPath rel = Inr q"
    "ap = abs_str ((rr @ d) @ [last (segs q)])"
    "clean_comps ((rr @ d) @ [last (segs q)])"
    "is_dir fs' (rr @ d)"
    "walk go_links fs' [] rc True = Inr rr"
    "walk go_links fs' [] (rc @ butlast (segs q)) True = Inr (rr @ d)"
    "extends fs fs'" "leaf fs' = leaf fs" "wf_node fs \<longrightarrow> wf_node fs'"
    by metis
  have w': "workspace rc fs'"
    using R(7,9) assms(2) by (auto simp: workspace_def extends_def)
  then have real: "walk go_links fs' [] (rc @ cs) True = walk go_links fs' rc cs True" for cs
    using walk_real[of rc fs' "[]" go_links cs True] by (simp add: workspace_def)
  from real[of "[]"] R(5) have rr: "rr = rc" by simp
  have "d = butlast (segs q)" if "plain rc fs"
  proof -
    have "clean_comps (segs q)"
      using SafeRelPath_safe_rel[OF R(1)] by (simp add: safe_rel_def clean_comps_def)
    moreover have "leaf fs' (rc @ pre) \<noteq> Some (Link t)" for pre t
      using plain_no_link[OF assms(2) that] R(8) by simp
    ultimately have "rr @ d = rc @ butlast (segs q)"
      using walk_no_links[OF R(6)[unfolded real]] clean_comps_butlast by blast
    with rr show ?thesis by simp
  qed
  with R w' rr show thesis using that[of q d] by blast
qed

text \<open>A failed resolution also leaves every file and link alone; it may have made directories.\<close>

lemma ds_resolve_err:
  assumes "workspace rc fs" "ds_resolve (abs_str rc) rel fs = (Inl e, fs1)"
  shows "extends fs fs1 \<and> leaf fs1 = leaf fs \<and> workspace rc fs1"
proof (cases "SafeRelPath rel")
  case (Inl x)
  with assms show ?thesis by (simp add: ds_resolve_def)
next
  case (Inr q)
  have cc: "clean_comps rc" using assms(1) by (simp add: workspace_def)
  from Inr have "safe_rel q" by (rule SafeRelPath_safe_rel)
  then have ss: "segs q \<noteq> []" "clean_comps (segs q)" and j: "join_ch (CHR ''/'') (segs q) = q"
    by (auto simp: safe_rel_def clean_comps_def)
  define ps where "ps = rc @ butlast (segs q)"
  have cps: "clean_comps ps" using ss cc by (simp add: ps_def clean_comps_butlast)
  have "filepath_Join (abs_str rc) q = abs_str (ps @ [last (segs q)])"
    using filepath_Join_abs[OF cc ss(2,1)] ss(1) j by (simp add: ps_def)
  moreover have "filepath_Dir (abs_str (ps @ [last (segs q)])) = abs_str ps"
    using cps ss by (intro filepath_Dir_abs) (simp add: clean_comps_def)
  ultimately have "fs1 = snd (mkdir_all fs (rev ps))"
    using assms(2) cps
    by (auto simp: ds_resolve_def Inr Let_def os_MkdirAll_def
        split: prod.splits option.splits sum.splits if_splits)
  moreover have "clean_comps (rev ps)" using cps by (auto simp: clean_comps_def)
  ultimately have "extends fs fs1 \<and> leaf fs1 = leaf fs \<and> (wf_node fs \<longrightarrow> wf_node fs1)"
    using mkdir_all_effect[of fs "rev ps" _ fs1] workspace_root[OF assms(1)]
    by (metis prod.collapse)
  with assms(1) show ?thesis by (auto simp: workspace_def extends_def)
qed

section \<open>Writing: temporary file, then rename or removal\<close>

definition sane_max :: "int64 \<Rightarrow> bool" where
  "sane_max m \<longleftrightarrow> 0 \<le> sint m \<and> sint m < 2 ^ 63 - 1"

lemma limit_read_ok:
  assumes "sane_max m" "limit_read r (m + 1) = (data, err)" "\<not> err" "int (length data) \<le> sint m"
  shows "data = rd_data r \<and> \<not> rd_fails r \<and> int (length (rd_data r)) \<le> sint m"
proof -
  have s: "sint (m + 1) = sint m + 1"
    using assms(1) sint_add64[of m 1] by (simp add: sane_max_def fits64_def)
  from assms(2) have d: "data = take (nat (sint m + 1)) (rd_data r)"
    and e: "err \<longleftrightarrow> rd_fails r \<and> int (length (rd_data r)) < sint m + 1"
    by (auto simp: limit_read_def s)
  from assms(1,4) d have "length (rd_data r) < nat (sint m + 1)"
    by (auto simp: sane_max_def min_def split: if_splits)
  with assms d e show ?thesis by auto
qed

lemma limit_read_too_large:
  assumes "sane_max m" "sint m < int (length (rd_data r))" "limit_read r (m + 1) = (data, err)"
  shows "\<not> err \<and> sint m < int (length data)"
proof -
  have "sint (m + 1) = sint m + 1"
    using assms(1) sint_add64[of m 1] by (simp add: sane_max_def fits64_def)
  with assms show ?thesis by (auto simp: limit_read_def sane_max_def min_def)
qed

text \<open>The effect of \<open>WriteTemp\<close> on the leaves: a temporary file on success, nothing on failure.\<close>

lemma WriteTemp_effect:
  assumes ws: "workspace rc fs"
    and wt: "WriteTemp sha (abs_str rc) rel r m rnd fs = (res, fs2)"
  shows "workspace rc fs2 \<and> extends fs fs2 \<and>
    (case res of
       Inl e \<Rightarrow> leaf fs2 = leaf fs
     | Inr (tmpID, h, n) \<Rightarrow> \<exists>rb data ap d q fs1.
         rnd = Some rb \<and> tmpID = tmp_name rb \<and> limit_read r (m + 1) = (data, False) \<and>
         int (length data) \<le> sint m \<and> h = sha data \<and> n = of_nat (length data) \<and>
         ds_resolve (abs_str rc) rel fs = (Inr ap, fs1) \<and> SafeRelPath rel = Inr q \<and>
         ap = abs_str ((rc @ d) @ [last (segs q)]) \<and> clean_comps ((rc @ d) @ [last (segs q)]) \<and>
         (plain rc fs \<longrightarrow> d = butlast (segs q)) \<and>
         extends fs1 fs2 \<and> is_dir fs2 (rc @ d) \<and> leaf fs ((rc @ d) @ [tmpID]) = None \<and>
         leaf fs2 = (leaf fs)((rc @ d) @ [tmpID] \<mapsto> File data))"
proof -
  obtain rp fs1 where res: "ds_resolve (abs_str rc) rel fs = (rp, fs1)"
    by (cases "ds_resolve (abs_str rc) rel fs")
  show ?thesis
  proof (cases rp)
    case (Inl e)
    have "extends fs fs1 \<and> leaf fs1 = leaf fs \<and> workspace rc fs1"
      using ds_resolve_err[OF ws, of rel e fs1] res Inl by simp
    with wt res Inl show ?thesis by (auto simp: WriteTemp_def)
  next
    case (Inr ap)
    from ds_resolve_workspace[OF res[unfolded Inr] ws] obtain q d where R:
      "SafeRelPath rel = Inr q" "ap = abs_str ((rc @ d) @ [last (segs q)])"
      "clean_comps ((rc @ d) @ [last (segs q)])" "is_dir fs1 (rc @ d)"
      "extends fs fs1" "leaf fs1 = leaf fs" "workspace rc fs1"
      "plain rc fs \<longrightarrow> d = butlast (segs q)"
      by metis
    show ?thesis
    proof (cases rnd)
      case None
      with wt res Inr R show ?thesis by (auto simp: WriteTemp_def)
    next
      case (Some rb)
      define l where "l = (rc @ d) @ [tmp_name rb]"
      have cl: "clean_comps l" using R(3) clean_tmp_name by (simp add: l_def)
      have tp: "filepath_Join (filepath_Dir ap) (tmp_prefix @ hex_encode rb) = abs_str l"
        using filepath_Dir_abs[OF R(3)] filepath_Join_seg[of "rc @ d" "tmp_name rb"] cl R(2)
        by (simp add: l_def tmp_name_def)
      obtain data err where lr: "limit_read r (m + 1) = (data, err)" by fastforce
      obtain rc2 fs' where cr: "os_CreateExcl fs1 (abs_str l) data = (rc2, fs')" by fastforce
      have W: "(res, fs2) = (case rc2 of
            Some e \<Rightarrow> (Inl (DsOs e), fs')
          | None \<Rightarrow>
              if err \<or> int (length data) > sint m
              then (Inl (if err then DsRead else DsTooLarge), snd (os_Remove fs' (abs_str l)))
              else (Inr (tmp_name rb, sha data, of_nat (length data)), fs'))"
        using wt res Inr Some lr cr tp
        by (auto simp: WriteTemp_def tmp_name_def Let_def split: option.splits)
      from os_CreateExcl_real[OF cl[unfolded l_def] R(4) cr[unfolded l_def], folded l_def]
      consider (ok) "rc2 = None" "lookup fs1 l = None" "leaf fs' = (leaf fs)(l \<mapsto> File data)"
          "extends fs1 fs'" "\<forall>q. is_dir fs' q = is_dir fs1 q" "wf_node fs'"
        | (bad) e where "rc2 = Some e" "fs' = fs1"
        using R(6,7) by (auto simp: workspace_def)
      then show ?thesis
      proof cases
        case bad
        with W R show ?thesis by auto
      next
        case ok
        have w': "workspace rc fs'" using workspace_cong[OF R(7)] ok by simp
        have ln: "leaf fs l = None" using ok(2) R(6) by (metis leaf_None_iff)
        show ?thesis
        proof (cases "err \<or> int (length data) > sint m")
          case True
          obtain r3 fs3 where rm: "os_Remove fs' (abs_str l) = (r3, fs3)" by fastforce
          have "\<not> is_dir fs' l" "is_dir fs' (rc @ d)"
            using ok(2,5) R(4) by (auto simp: is_dir_iff)
          from os_Remove_real[OF cl[unfolded l_def] this(2) rm[unfolded l_def] this(1)[unfolded l_def],
              folded l_def] ok ln
          have E: "leaf fs3 = leaf fs" "\<forall>q. is_dir fs3 q = is_dir fs1 q" "wf_node fs3"
            by (auto simp: fun_eq_iff)
          have "extends fs fs3" using E R(5) by (simp add: extends_def)
          with True W ok(1) rm E show ?thesis
            using workspace_cong[OF R(7)] by auto
        next
          case False
          have "extends fs fs'" using R(5) ok(4) by (rule extends_trans)
          have L: "leaf fs' = (leaf fs)((rc @ d) @ [tmp_name rb] \<mapsto> File data)"
            "leaf fs ((rc @ d) @ [tmp_name rb]) = None" "is_dir fs' (rc @ d)"
            using ok(3,5) ln R(4) by (simp_all add: l_def)
          from False lr have "limit_read r (m + 1) = (data, False)" by simp
          with False W ok(1,4) w' res Inr R L \<open>extends fs fs'\<close> Some show ?thesis
            by simp blast
        qed
      qed
    qed
  qed
qed

text \<open>Removing, in turn, the leaves of a list that have a given last name.\<close>

lemma discard_fold:
  assumes "\<forall>v \<in> set vs. fst v \<noteq> [] \<and> clean_comps (fst v) \<and> is_dir fs (butlast (fst v)) \<and>
      \<not> is_dir fs (fst v)" "wf_node fs"
  shows "let fs' = fold (\<lambda>v fs. snd (discard_fn t (abs_str (fst v)) False fs)) vs fs in
    wf_node fs' \<and> (\<forall>q. is_dir fs' q = is_dir fs q) \<and>
    leaf fs' = (\<lambda>p. if p \<in> fst ` set vs \<and> last p = t then None else leaf fs p)"
  using assms
proof (induction vs arbitrary: fs)
  case (Cons v vs)
  obtain d c where v: "fst v = d @ [c]" using Cons.prems(1) by (cases "fst v" rule: rev_cases) auto
  have cl: "clean_comps (d @ [c])" "is_dir fs d" "\<not> is_dir fs (d @ [c])"
    using Cons.prems(1) v by auto
  define fs1 where "fs1 = snd (discard_fn t (abs_str (fst v)) False fs)"
  have base: "filepath_Base (abs_str (d @ [c])) = c" using cl(1) by (rule filepath_Base_abs)
  have E: "wf_node fs1 \<and> (\<forall>q. is_dir fs1 q = is_dir fs q) \<and>
      leaf fs1 = (\<lambda>p. if p = fst v \<and> last p = t then None else leaf fs p)"
  proof (cases "c = t")
    case True
    obtain r fs2 where rm: "os_Remove fs (abs_str (d @ [c])) = (r, fs2)" by fastforce
    from os_Remove_real[OF cl(1,2) rm cl(3)] Cons.prems(2) rm True base v show ?thesis
      by (auto simp: fs1_def discard_fn_def fun_eq_iff)
  next
    case False
    with base v Cons.prems(2) show ?thesis by (auto simp: fs1_def discard_fn_def fun_eq_iff)
  qed
  have "fold (\<lambda>v fs. snd (discard_fn t (abs_str (fst v)) False fs)) (v # vs) fs =
      fold (\<lambda>v fs. snd (discard_fn t (abs_str (fst v)) False fs)) vs fs1"
    by (simp add: fs1_def)
  moreover have "\<forall>w \<in> set vs. fst w \<noteq> [] \<and> clean_comps (fst w) \<and> is_dir fs1 (butlast (fst w)) \<and>
      \<not> is_dir fs1 (fst w)"
    using Cons.prems(1) E by simp
  ultimately show ?case
    using Cons.IH[of fs1] E by (auto simp: fun_eq_iff Let_def)
qed (simp add: fun_eq_iff)

lemma Discard_effect:
  assumes ws: "workspace rc fs"
  shows "workspace rc (Discard (abs_str rc) t fs) \<and>
    (\<forall>q. is_dir (Discard (abs_str rc) t fs) q = is_dir fs q) \<and>
    leaf (Discard (abs_str rc) t fs) =
      (\<lambda>p. if (\<exists>r. p = rc @ r) \<and> last p = t then None else leaf fs p)"
proof -
  from ws obtain es where es: "lookup fs rc = Some (Dir es)"
    by (auto simp: workspace_def is_dir_iff)
  have cc: "clean_comps rc" and wf: "wf_node fs" and "rc \<noteq> []" using ws by (auto simp: workspace_def)
  have wfd: "wf_node (Dir es)" using wf_lookup[OF wf es] by blast
  let ?f = "\<lambda>v fs. snd (discard_fn t (abs_str (fst v)) False fs)"
  have "fst (discard_fn t p d s) = WOk" "snd (discard_fn t p True s) = s" for p d s
    by (simp_all add: discard_fn_def)
  from walk_dir_fold[where fn = "discard_fn t", OF this wfd cc]
  have "walk_dir (discard_fn t) (abs_str rc) (Dir es) fs = (WOk, fold ?f (visits rc (Dir es)) fs)" .
  moreover have "os_Lstat fs (abs_str rc) = Inr (Dir es)"
    using os_Lstat_real[OF cc es workspace_root[OF ws]] .
  ultimately have D: "Discard (abs_str rc) t fs = fold ?f (visits rc (Dir es)) fs"
    by (simp add: Discard_def WalkDir_def)
  have vis: "(q, n) \<in> set (visits rc (Dir es)) \<longleftrightarrow> (\<exists>r. q = rc @ r) \<and> leaf fs q = Some n" for q n
    using visits_leaf[OF wfd, of q n rc] es by (auto simp: leaf_def lookup_append)
  have "fst v \<noteq> [] \<and> clean_comps (fst v) \<and> is_dir fs (butlast (fst v)) \<and> \<not> is_dir fs (fst v)"
    if "v \<in> set (visits rc (Dir es))" for v
  proof -
    obtain q n where vq: "v = (q, n)" by fastforce
    with that vis[of q n] obtain r where v: "v = (q, n)" "q = rc @ r" "leaf fs q = Some n" by blast
    then have "lookup fs q = Some n" "\<not> is_dir fs q" by (auto simp: leaf_Some_iff is_dir_iff)
    moreover from this have "clean_comps q" using wf_lookup[OF wf] by (auto simp: clean_comps_def)
    ultimately show ?thesis using v \<open>rc \<noteq> []\<close> is_dir_butlast[of fs q n] by simp
  qed
  then have "\<forall>v \<in> set (visits rc (Dir es)). fst v \<noteq> [] \<and> clean_comps (fst v) \<and>
      is_dir fs (butlast (fst v)) \<and> \<not> is_dir fs (fst v)" by blast
  note dfold = discard_fold[OF this wf, of t, folded D, unfolded Let_def]
  note E = conjunct1[OF dfold] conjunct1[OF conjunct2[OF dfold]] conjunct2[OF conjunct2[OF dfold]]
  have im: "x \<in> fst ` S \<longleftrightarrow> (\<exists>y. (x, y) \<in> S)" for x :: "string list" and S :: "(string list \<times> node) set"
    by force
  have "p \<in> fst ` set (visits rc (Dir es)) \<longleftrightarrow> (\<exists>r. p = rc @ r) \<and> leaf fs p \<noteq> None" for p
    unfolding im vis by (cases "leaf fs p") blast+
  with E ws show ?thesis by (auto simp: workspace_def fun_eq_iff)
qed

text \<open>After \<open>WriteTemp\<close>, \<open>Discard\<close> of its name restores the leaves; \<open>Promote\<close> puts the content at
  the path's location, and fails only if a directory is there.\<close>

lemma Discard_after_WriteTemp:
  assumes ws: "workspace rc fs"
    and wt: "WriteTemp sha (abs_str rc) rel r m rnd fs = (Inr (tmpID, h, n), fs2)"
    and fresh: "fresh_tmp rnd rc fs"
  shows "leaf (Discard (abs_str rc) tmpID fs2) = leaf fs \<and> workspace rc (Discard (abs_str rc) tmpID fs2)"
proof -
  from WriteTemp_effect[OF ws wt] obtain rb data d where W: "workspace rc fs2"
    "rnd = Some rb" "tmpID = tmp_name rb" "leaf fs ((rc @ d) @ [tmpID]) = None"
    "leaf fs2 = (leaf fs)((rc @ d) @ [tmpID] \<mapsto> File data)"
    by auto
  from fresh W(2,3) have "leaf fs (rc @ r) = Some n \<longrightarrow> last r \<noteq> tmpID" for r n
    using fresh_tmp_iff[OF ws] by blast
  moreover have "leaf fs rc = None" using ws by (simp add: workspace_def leaf_None_iff)
  ultimately have f: "leaf fs (rc @ r) = None" if "last (rc @ r) = tmpID" for r
    using that by (cases "r = []"; cases "leaf fs (rc @ r)") auto
  have "leaf (Discard (abs_str rc) tmpID fs2) = leaf fs"
  proof
    fix p
    show "leaf (Discard (abs_str rc) tmpID fs2) p = leaf fs p"
      using Discard_effect[OF W(1), of tmpID] f W(4,5) by auto
  qed
  with Discard_effect[OF W(1)] show ?thesis by blast
qed

lemma Promote_after_WriteTemp:
  assumes ws: "workspace rc fs" and pl: "plain rc fs"
    and wt: "WriteTemp sha (abs_str rc) rel r m rnd fs = (Inr (tmpID, h, n), fs2)"
    and mx: "sane_max m"
    and pr: "Promote (abs_str rc) rel tmpID revision fs2 = (res, fs3)"
  shows "h = sha (rd_data r) \<and> n = of_nat (length (rd_data r)) \<and> \<not> rd_fails r \<and>
     int (length (rd_data r)) \<le> sint m \<and> workspace rc fs3 \<and>
     (\<exists>q. SafeRelPath rel = Inr q \<and>
       (case res of
          None \<Rightarrow> leaf fs3 = (leaf fs)(rc @ segs q \<mapsto> File (rd_data r))
        | Some e \<Rightarrow> fs3 = fs2 \<and> is_dir fs2 (rc @ segs q)))"
proof -
  from WriteTemp_effect[OF ws wt] pl obtain rb data ap q fs1 where W: "workspace rc fs2"
    "rnd = Some rb" "tmpID = tmp_name rb" "limit_read r (m + 1) = (data, False)"
    "int (length data) \<le> sint m" "h = sha data" "n = of_nat (length data)"
    "ds_resolve (abs_str rc) rel fs = (Inr ap, fs1)" "SafeRelPath rel = Inr q"
    "ap = abs_str ((rc @ butlast (segs q)) @ [last (segs q)])"
    "clean_comps ((rc @ butlast (segs q)) @ [last (segs q)])"
    "extends fs1 fs2" "is_dir fs2 (rc @ butlast (segs q))"
    "leaf fs ((rc @ butlast (segs q)) @ [tmpID]) = None"
    "leaf fs2 = (leaf fs)((rc @ butlast (segs q)) @ [tmpID] \<mapsto> File data)"
    by auto
  define d where "d = rc @ butlast (segs q)"
  define c where "c = last (segs q)"
  note W' = W(10,11,13,14,15)[folded d_def c_def]
  have cc: "clean_comps rc" using ws by (simp add: workspace_def)
  have "segs q \<noteq> []" by (simp add: segs_def)
  then have loc: "d @ [c] = rc @ segs q" by (simp add: d_def c_def)
  have data: "data = rd_data r" "\<not> rd_fails r" "int (length (rd_data r)) \<le> sint m"
    using limit_read_ok[OF mx W(4) _ W(5)] by auto
  have again: "ds_resolve (abs_str rc) rel fs2 = (Inr ap, fs2)"
    using ds_resolve_again[OF W(8) cc workspace_root[OF ws] W(12)] .
  have ct: "clean_comps (d @ [tmpID])" using W'(2) clean_tmp_name W(3) by simp
  have tp: "filepath_Join (filepath_Dir ap) tmpID = abs_str (d @ [tmpID])"
    using filepath_Dir_abs[OF W'(2)] filepath_Join_seg[of d tmpID] ct W'(1) by simp
  obtain rr fs4 where rn: "os_Rename fs2 (abs_str (d @ [tmpID])) (abs_str (d @ [c])) = (rr, fs4)"
    by fastforce
  have lk: "lookup fs2 (d @ [tmpID]) = Some (File data)"
    using W'(5) by (metis fun_upd_same leaf_Some_iff)
  have P: "fs3 = fs4" "res = None \<longleftrightarrow> rr = None"
    using pr again tp rn W'(1) by (auto simp: Promote_def split: option.splits)
  from os_Rename_real[OF ct W'(2,3) lk rn] show ?thesis
  proof (elim disjE conjE)
    assume r: "rr = None" "leaf fs4 = (leaf fs2)(d @ [tmpID] := None, d @ [c] \<mapsto> File data)"
      "\<forall>q. is_dir fs4 q = is_dir fs2 q" "wf_node fs2 \<longrightarrow> wf_node fs4"
    then have "workspace rc fs4" using W(1) by (auto simp: workspace_def)
    moreover have "leaf fs4 = (leaf fs)(rc @ segs q \<mapsto> File (rd_data r))"
      using r(2) W'(4,5) data(1) loc by (auto simp: fun_eq_iff)
    ultimately show ?thesis using P r(1) W(6,7,9) data by auto
  next
    assume "rr \<noteq> None" "is_dir fs2 (d @ [c])" "fs4 = fs2"
    then show ?thesis using P W(1,6,7,9) data loc by auto
  qed
qed

lemma ds_Delete_effect:
  assumes ws: "workspace rc fs" and pl: "plain rc fs"
    and de: "ds_Delete (abs_str rc) rel revision fs = (res, fs2)" and q: "SafeRelPath rel = Inr q"
  shows "case res of
      None \<Rightarrow> workspace rc fs2 \<and> (leaf fs2 = (leaf fs)(rc @ segs q := None))
    | Some e \<Rightarrow> leaf fs2 = leaf fs \<and> workspace rc fs2"
proof -
  obtain rp fs1 where res: "ds_resolve (abs_str rc) rel fs = (rp, fs1)"
    by (cases "ds_resolve (abs_str rc) rel fs")
  show ?thesis
  proof (cases rp)
    case (Inl e)
    then show ?thesis using ds_resolve_err[OF ws] res de by (auto simp: ds_Delete_def)
  next
    case (Inr ap)
    from ds_resolve_workspace[OF res[unfolded Inr] ws] pl q obtain R:
      "ap = abs_str ((rc @ butlast (segs q)) @ [last (segs q)])"
      "clean_comps ((rc @ butlast (segs q)) @ [last (segs q)])" "is_dir fs1 (rc @ butlast (segs q))"
      "leaf fs1 = leaf fs" "workspace rc fs1"
      by (metis sum.inject(2))
    define d where "d = rc @ butlast (segs q)"
    define c where "c = last (segs q)"
    note R' = R(1-3)[folded d_def c_def]
    have loc: "d @ [c] = rc @ segs q" by (simp add: d_def c_def segs_def)
    obtain r fs3 where rm: "os_Remove fs1 (abs_str (d @ [c])) = (r, fs3)" by fastforce
    show ?thesis
    proof (cases "is_dir fs1 (d @ [c])")
      case False
      from os_Remove_real[OF R'(2,3) rm False] res Inr rm de R R'(1) loc show ?thesis
        by (auto simp: ds_Delete_def workspace_def split: option.splits)
    next
      case True
      have "d @ [c] \<noteq> rc" by (simp add: loc segs_def)
      moreover have "leaf fs (rc @ segs q) = None" using True R(4) loc by (metis leaf_None_iff)
      then have "(leaf fs)(rc @ segs q := None) = leaf fs" by (simp add: fun_upd_idem)
      ultimately show ?thesis
        using os_Remove_dir[OF R'(2,3) rm True] res Inr rm de R R'(1)
        by (auto simp: ds_Delete_def workspace_def split: option.splits)
    qed
  qed
qed

section \<open>The two scans\<close>

text \<open>A directory that the scan skips covers everything below it.\<close>

lemma DefaultExcluded_dir:
  assumes "DefaultExcluded (c @ ''/'')"
  shows "DefaultExcluded (c @ CHR ''/'' # rest)"
proof -
  have "\<forall>pre \<in> set excludedPrefixes. \<not> has_suffix (trim_suffix pre ''/'') ''/''"
    by code_simp
  then have "\<forall>pre \<in> set excludedPrefixes. trim_suffix pre ''/'' \<noteq> c @ ''/''"
    by (metis suffixI)
  with assms obtain pre where "pre \<in> set excludedPrefixes" "has_prefix (c @ ''/'') pre"
    by (auto simp: DefaultExcluded_def excluded_by_iff)
  moreover from this(2) have "has_prefix (c @ CHR ''/'' # rest) pre"
    by (metis append.assoc append_Cons append_Nil prefix_prefix)
  ultimately show ?thesis by (auto simp: DefaultExcluded_def excluded_by_iff)
qed

lemma DefaultExcluded_rooted: "\<not> DefaultExcluded (CHR ''/'' # s)"
proof -
  have h: "\<forall>pre \<in> set excludedPrefixes. pre \<noteq> [] \<and> hd pre \<noteq> CHR ''/'' \<and>
      trim_suffix pre ''/'' \<noteq> [] \<and> hd (trim_suffix pre ''/'') \<noteq> CHR ''/''"
    by code_simp
  have "CHR ''/'' # s \<noteq> trim_suffix pre ''/'' \<and> \<not> prefix pre (CHR ''/'' # s)"
    if "pre \<in> set excludedPrefixes" for pre
    using h that by (metis list.sel(1) prefix_Cons)
  then show ?thesis by (auto simp: DefaultExcluded_def excluded_by_iff)
qed

text \<open>What a scan of a plain workspace lists: the files not excluded and not temporary, in walk
  order, with the digest and size of their content.\<close>

definition visible :: "string list \<Rightarrow> bool" where
  "visible r \<longleftrightarrow> \<not> DefaultExcluded (join_ch (CHR ''/'') r) \<and> \<not> has_prefix (last r) tmp_prefix"

definition bytes_of :: "node \<Rightarrow> bytes" where
  "bytes_of n = (case n of File b \<Rightarrow> b | _ \<Rightarrow> [])"

definition scan_spec :: "(bytes \<Rightarrow> string) \<Rightarrow> string list \<Rightarrow> node \<Rightarrow> file_entry list" where
  "scan_spec sha rc fs =
     map (\<lambda>(r, n). scanned_entry sha (join_ch (CHR ''/'') r) (bytes_of n))
       (filter (\<lambda>v. visible (fst v)) (ws_leaves rc fs))"

lemma scan_rel:
  assumes "clean_comps rc" "rc \<noteq> []" "clean_comps r" "r \<noteq> []"
  shows "trim_prefix (abs_str (rc @ r)) (abs_str rc @ ''/'') = join_ch (CHR ''/'') r"
proof -
  have "abs_str (rc @ r) = (abs_str rc @ ''/'') @ join_ch (CHR ''/'') r"
    using assms abs_str_append[of rc r] by simp
  then show ?thesis by (simp add: trim_prefix_def)
qed

lemma os_Open_file:
  assumes "clean_comps (d @ [c])" "leaf fs (d @ [c]) = Some (File b)"
  shows "os_Open fs (abs_str (d @ [c])) = Inr \<lparr>rd_data = b, rd_fails = False\<rparr>"
proof -
  have l: "lookup fs (d @ [c]) = Some (File b)" using assms(2) by (simp add: leaf_Some_iff)
  then have "is_dir fs d" using is_dir_butlast[of fs "d @ [c]"] by simp
  from resolve_real_entry[OF assms(1) this l] l have "os_Stat fs (abs_str (d @ [c])) = Inr (File b)"
    by (simp add: os_Stat_def)
  then show ?thesis by (simp add: os_Open_def)
qed

lemma scan_base:
  assumes "clean_comps rc" "clean_comps r" "r \<noteq> []"
  shows "filepath_Base (abs_str (rc @ r)) = last r"
proof -
  from assms(3) obtain d c where r: "r = d @ [c]" by (cases r rule: rev_cases) auto
  with assms filepath_Base_abs[of "rc @ d" c] show ?thesis by simp
qed

lemma ws_leaves_visits:
  assumes "is_dir fs rc"
  obtains es where "lookup fs rc = Some (Dir es)"
    "visits rc (Dir es) = map (\<lambda>(r, n). (rc @ r, n)) (ws_leaves rc fs)"
proof -
  from assms obtain es where es: "lookup fs rc = Some (Dir es)" by (auto simp: is_dir_iff)
  then have "ws_leaves rc fs = visits [] (Dir es)" by (simp add: ws_leaves_def del: visits.simps)
  with visits_relative[of rc "[]" "Dir es"] es show thesis by (simp add: that del: visits.simps)
qed

text \<open>Any walk of the workspace whose callback treats files as the scan does gives \<open>scan_spec\<close>.\<close>

lemma scan_walk:
  assumes ws: "workspace rc fs" and pl: "plain rc fs"
    and dirs: "\<And>q s. prefix rc q \<Longrightarrow> clean_comps q \<Longrightarrow>
      fn (abs_str q) True s = (WOk, s) \<or>
      (fn (abs_str q) True s = (WSkipDir, s) \<and>
       (\<forall>r. r \<noteq> [] \<longrightarrow> clean_comps r \<longrightarrow> \<not> visible (drop (length rc) q @ r)))"
    and files: "\<And>r b s. clean_comps r \<Longrightarrow> r \<noteq> [] \<Longrightarrow>
      fn (abs_str (rc @ r)) False s =
        (if visible r then hash_file sha fs (abs_str (rc @ r)) (join_ch (CHR ''/'') r) s else (WOk, s))"
  shows "WalkDir fs (abs_str rc) WErr fn [] = (WOk, scan_spec sha rc fs)"
proof -
  from ws have cc: "clean_comps rc" and d: "is_dir fs rc" and wf: "wf_node fs"
    by (auto simp: workspace_def)
  from ws_leaves_visits[OF d] obtain es where es: "lookup fs rc = Some (Dir es)"
    and vis: "visits rc (Dir es) = map (\<lambda>(r, n). (rc @ r, n)) (ws_leaves rc fs)" by blast
  define g where "g = (\<lambda>v. if visible (drop (length rc) (fst v))
    then [scanned_entry sha (join_ch (CHR ''/'') (drop (length rc) (fst v))) (bytes_of (snd v))] else [])"
  have L: "fn (abs_str (fst v)) False s = (WOk, s @ g v)" if v: "v \<in> set (visits rc (Dir es))" for v s
  proof -
    from v[unfolded vis] obtain r n where r: "v = (rc @ r, n)" "(r, n) \<in> set (ws_leaves rc fs)" by auto
    with pl obtain b where n: "n = File b" by (cases n) (auto simp: plain_def is_file_def)
    from r(2) n have lf: "leaf fs (rc @ r) = Some (File b)" using ws_leaves_iff[OF ws] by simp
    note cr = ws_leaf_clean[OF ws lf]
    obtain d c where dc: "rc @ r = d @ [c]" using cr by (metis append_butlast_last_id append_is_Nil_conv)
    have "clean_comps (rc @ r)" using cc cr by simp
    then have "os_Open fs (abs_str (rc @ r)) = Inr \<lparr>rd_data = b, rd_fails = False\<rparr>"
      using os_Open_file[of d c fs b] lf unfolding dc by simp
    with files[of r s] cr r(1) n show ?thesis by (simp add: g_def hash_file_def bytes_of_def)
  qed
  have D: "fn (abs_str q) True s = (WOk, s) \<or>
      (fn (abs_str q) True s = (WSkipDir, s) \<and> (\<forall>r n. r \<noteq> [] \<longrightarrow> clean_comps r \<longrightarrow> g (q @ r, n) = []))"
    if "prefix rc q" "clean_comps q" for q s
    using dirs[OF that, of s] that(1) by (auto simp: g_def prefix_def)
  have wfd: "wf_node (Dir es)" using wf_lookup[OF wf es] by blast
  have "walk_dir fn (abs_str rc) (Dir es) [] = (WOk, [] @ concat (map g (visits rc (Dir es))))"
    using walk_dir_scan[where fn = fn and g = g, OF D wfd cc prefix_order.refl] L by blast
  moreover have "concat (map g (map (\<lambda>(r, n). (rc @ r, n)) xs)) =
      map (\<lambda>(r, n). scanned_entry sha (join_ch (CHR ''/'') r) (bytes_of n)) (filter (\<lambda>v. visible (fst v)) xs)" for xs
    by (induction xs) (auto simp: g_def)
  moreover have "os_Lstat fs (abs_str rc) = Inr (Dir es)"
    using os_Lstat_real[OF cc es workspace_root[OF ws]] .
  ultimately show ?thesis by (simp add: WalkDir_def vis scan_spec_def del: visits.simps)
qed

lemma ScanDir_spec:
  assumes ws: "workspace rc fs" and pl: "plain rc fs"
  shows "ScanDir sha fs (abs_str rc) = (None, scan_spec sha rc fs)"
proof -
  from ws have cc: "clean_comps rc" and "rc \<noteq> []" by (auto simp: workspace_def)
  have D: "scan_fn sha fs (abs_str rc) (abs_str q) True s = (WOk, s) \<or>
      (scan_fn sha fs (abs_str rc) (abs_str q) True s = (WSkipDir, s) \<and>
       (\<forall>r. r \<noteq> [] \<longrightarrow> clean_comps r \<longrightarrow> \<not> visible (drop (length rc) q @ r)))"
    if "prefix rc q" "clean_comps q" for q s
  proof -
    from that obtain r0 where q: "q = rc @ r0" "clean_comps r0" using cc by (auto simp: prefix_def)
    show ?thesis
    proof (cases "r0 = []")
      case True
      have "trim_prefix (abs_str rc) (abs_str rc @ ''/'') = abs_str rc"
        by (auto simp: trim_prefix_def dest: prefix_length_le)
      with True q have "scan_fn sha fs (abs_str rc) (abs_str q) True s = (WOk, s)"
        using DefaultExcluded_rooted by (simp add: scan_fn_def Let_def abs_str_def)
      then show ?thesis by blast
    next
      case False
      have rel: "trim_prefix (abs_str q) (abs_str rc @ ''/'') = join_ch (CHR ''/'') r0"
        using scan_rel[OF cc \<open>rc \<noteq> []\<close> q(2) False] q(1) by simp
      have "\<not> visible (r0 @ r)" if "DefaultExcluded (join_ch (CHR ''/'') r0 @ ''/'')" "r \<noteq> []" for r
        using DefaultExcluded_dir[OF that(1)] that(2) False by (simp add: visible_def join_ch_append)
      then show ?thesis using rel q by (auto simp: scan_fn_def Let_def)
    qed
  qed
  have F: "scan_fn sha fs (abs_str rc) (abs_str (rc @ r)) False s =
      (if visible r then hash_file sha fs (abs_str (rc @ r)) (join_ch (CHR ''/'') r) s else (WOk, s))"
    if "clean_comps r" "r \<noteq> []" for r s
    using scan_rel[OF cc \<open>rc \<noteq> []\<close> that] scan_base[OF cc that]
    by (simp add: scan_fn_def visible_def)
  have "WalkDir fs (abs_str rc) WErr (scan_fn sha fs (abs_str rc)) [] = (WOk, scan_spec sha rc fs)"
    by (rule scan_walk[OF ws pl D F])
  then show ?thesis by (simp add: ScanDir_def)
qed

lemma ds_Manifest_spec:
  assumes ws: "workspace rc fs" and pl: "plain rc fs"
  shows "ds_Manifest sha fs (abs_str rc) = (None, scan_spec sha rc fs)"
proof -
  from ws have cc: "clean_comps rc" and "rc \<noteq> []" by (auto simp: workspace_def)
  have D: "manifest_fn sha fs (abs_str rc) (abs_str q) True s = (WOk, s) \<or>
      (manifest_fn sha fs (abs_str rc) (abs_str q) True s = (WSkipDir, s) \<and>
       (\<forall>r. r \<noteq> [] \<longrightarrow> clean_comps r \<longrightarrow> \<not> visible (drop (length rc) q @ r)))" for q s
    by (simp add: manifest_fn_def)
  have F: "manifest_fn sha fs (abs_str rc) (abs_str (rc @ r)) False s =
      (if visible r then hash_file sha fs (abs_str (rc @ r)) (join_ch (CHR ''/'') r) s else (WOk, s))"
    if "clean_comps r" "r \<noteq> []" for r s
    using scan_rel[OF cc \<open>rc \<noteq> []\<close> that] scan_base[OF cc that]
    by (auto simp: manifest_fn_def visible_def Let_def)
  have "WalkDir fs (abs_str rc) WErr (manifest_fn sha fs (abs_str rc)) [] = (WOk, scan_spec sha rc fs)"
    by (rule scan_walk[OF ws pl D F])
  then show ?thesis by (simp add: ds_Manifest_def)
qed

text \<open>The scan as a map: the visible part of the content of the workspace.\<close>

lemma scan_spec_set:
  assumes ws: "workspace rc fs" and pl: "plain rc fs"
  shows "e \<in> set (scan_spec sha rc fs) \<longleftrightarrow>
    (\<exists>k b. content rc fs k = Some b \<and> visible (segs k) \<and> e = scanned_entry sha k b)"
proof
  assume "e \<in> set (scan_spec sha rc fs)"
  then obtain r n where r: "(r, n) \<in> set (ws_leaves rc fs)" "visible r"
    "e = scanned_entry sha (join_ch (CHR ''/'') r) (bytes_of n)" by (auto simp: scan_spec_def)
  from r(1) pl obtain b where n: "n = File b" by (cases n) (auto simp: plain_def is_file_def)
  from r(1) have l: "leaf fs (rc @ r) = Some n" using ws_leaves_iff[OF ws] by simp
  from ws_leaf_clean[OF ws this] have "segs (join_ch (CHR ''/'') r) = r" by (simp add: segs_join clean_comps_def)
  with l n r show "\<exists>k b. content rc fs k = Some b \<and> visible (segs k) \<and> e = scanned_entry sha k b"
    by (intro exI[of _ "join_ch (CHR ''/'') r"] exI[of _ b]) (simp add: content_def bytes_of_def)
next
  assume "\<exists>k b. content rc fs k = Some b \<and> visible (segs k) \<and> e = scanned_entry sha k b"
  then obtain k b where k: "content rc fs k = Some b" "visible (segs k)" "e = scanned_entry sha k b"
    by blast
  then have "leaf fs (rc @ segs k) = Some (File b)" by (auto simp: content_def split: option.splits node.splits)
  then have "(segs k, File b) \<in> set (ws_leaves rc fs)" using ws_leaves_iff[OF ws] by simp
  with k(2) have "(segs k, File b) \<in> set (filter (\<lambda>v. visible (fst v)) (ws_leaves rc fs))" by simp
  then have "(\<lambda>(r, n). scanned_entry sha (join_ch (CHR ''/'') r) (bytes_of n)) (segs k, File b) \<in> set (scan_spec sha rc fs)"
    unfolding scan_spec_def set_map by (rule imageI)
  with k(3) show "e \<in> set (scan_spec sha rc fs)" by (simp add: bytes_of_def)
qed

lemma scan_spec_paths:
  assumes ws: "workspace rc fs" and pl: "plain rc fs"
  shows "k \<in> fe_Path ` set (scan_spec sha rc fs) \<longleftrightarrow> visible (segs k) \<and> content rc fs k \<noteq> None"
proof
  assume "k \<in> fe_Path ` set (scan_spec sha rc fs)"
  then obtain e where "e \<in> set (scan_spec sha rc fs)" "fe_Path e = k" by auto
  with scan_spec_set[OF ws pl] obtain b where "content rc fs k = Some b" "visible (segs k)"
    by (auto simp: scanned_entry_def)
  then show "visible (segs k) \<and> content rc fs k \<noteq> None" by simp
next
  assume "visible (segs k) \<and> content rc fs k \<noteq> None"
  then obtain b where "content rc fs k = Some b" "visible (segs k)" by blast
  then have "scanned_entry sha k b \<in> set (scan_spec sha rc fs)" using scan_spec_set[OF ws pl] by blast
  moreover have "fe_Path (scanned_entry sha k b) = k" by (simp add: scanned_entry_def)
  ultimately show "k \<in> fe_Path ` set (scan_spec sha rc fs)" by (metis imageI)
qed

lemma distinct_scan_spec:
  assumes ws: "workspace rc fs"
  shows "distinct (map fe_Path (scan_spec sha rc fs))"
proof -
  from ws obtain es where es: "lookup fs rc = Some (Dir es)" by (auto simp: workspace_def is_dir_iff)
  moreover have "wf_node (Dir es)" using wf_lookup[of fs rc "Dir es"] es ws by (auto simp: workspace_def)
  ultimately have d: "distinct (map fst (ws_leaves rc fs))" by (simp add: ws_leaves_def distinct_visits del: visits.simps)
  have cl: "x \<noteq> [] \<and> clean_comps x" if "x \<in> set (map fst (ws_leaves rc fs))" for x
  proof -
    from that obtain n where "(x, n) \<in> set (ws_leaves rc fs)" by auto
    then show ?thesis using ws_leaves_iff[OF ws] ws_leaf_clean[OF ws] by blast
  qed
  have "inj_on (join_ch (CHR ''/'')) (set (map fst (ws_leaves rc fs)))"
  proof (rule inj_on_inverseI[where g = segs])
    fix x assume "x \<in> set (map fst (ws_leaves rc fs))"
    from cl[OF this] show "segs (join_ch (CHR ''/'') x) = x" by (simp add: clean_comps_def)
  qed
  with d have "distinct (map (join_ch (CHR ''/'')) (map fst (ws_leaves rc fs)))"
    by (simp only: distinct_map)
  then have "distinct (map (\<lambda>v. join_ch (CHR ''/'') (fst v)) (filter (\<lambda>v. visible (fst v)) (ws_leaves rc fs)))"
    by (simp add: comp_def distinct_map_filter)
  moreover have "map fe_Path (scan_spec sha rc fs) =
      map (\<lambda>v. join_ch (CHR ''/'') (fst v)) (filter (\<lambda>v. visible (fst v)) (ws_leaves rc fs))"
    by (simp add: scan_spec_def scanned_entry_def case_prod_beta comp_def)
  ultimately show ?thesis by simp
qed

lemma ds_Open_effect:
  assumes ws: "workspace rc fs" and pl: "plain rc fs" and op: "ds_Open (abs_str rc) p fs = (r, fs1)"
    and rel: "SafeRelPath p = Inr rel"
  shows "leaf fs1 = leaf fs \<and> workspace rc fs1 \<and>
    (\<forall>rd b. r = Inr rd \<longrightarrow> content rc fs rel = Some b \<longrightarrow> rd = \<lparr>rd_data = b, rd_fails = False\<rparr>)"
proof -
  obtain rp fs2 where res: "ds_resolve (abs_str rc) p fs = (rp, fs2)" by fastforce
  show ?thesis
  proof (cases rp)
    case (Inl e)
    with op res ds_resolve_err[OF ws, of p e fs2] show ?thesis by (auto simp: ds_Open_def)
  next
    case (Inr ap)
    from ds_resolve_workspace[OF res[unfolded Inr] ws] pl rel obtain R:
      "ap = abs_str ((rc @ butlast (segs rel)) @ [last (segs rel)])"
      "clean_comps ((rc @ butlast (segs rel)) @ [last (segs rel)])"
      "leaf fs2 = leaf fs" "workspace rc fs2"
      by (metis sum.inject(2))
    have "os_Open fs2 ap = Inr \<lparr>rd_data = b, rd_fails = False\<rparr>" if "content rc fs rel = Some b" for b
    proof -
      from that have "leaf fs (rc @ segs rel) = Some (File b)"
        by (auto simp: content_def split: option.splits node.splits)
      moreover have "(rc @ butlast (segs rel)) @ [last (segs rel)] = rc @ segs rel" by (simp add: segs_def)
      ultimately show ?thesis
        using os_Open_file[OF R(2), of fs2 b] R(1,3) by simp
    qed
    with op res Inr R show ?thesis by (auto simp: ds_Open_def split: sum.splits)
  qed
qed

text \<open>A path whose file exists resolves to it and the resolution changes nothing.\<close>

lemma ds_resolve_existing:
  assumes ws: "workspace rc fs" and s: "SafeRelPath p = Inr rel" and ex: "lookup fs (rc @ segs rel) = Some n"
  shows "ds_resolve (abs_str rc) p fs = (Inr (abs_str (rc @ segs rel)), fs)"
proof -
  have cc: "clean_comps rc" and d0: "is_dir fs rc" using ws by (simp_all add: workspace_def)
  from s have "safe_rel rel" by (rule SafeRelPath_safe_rel)
  then have ss: "segs rel \<noteq> []" "clean_comps (segs rel)" by (auto simp: safe_rel_def clean_comps_def)
  define ps where "ps = rc @ butlast (segs rel)"
  define c where "c = last (segs rel)"
  have l: "rc @ segs rel = ps @ [c]" using ss(1) by (simp add: ps_def c_def)
  have cps: "clean_comps ps" "clean_seg c"
    using ss cc clean_comps_butlast[OF ss(2)] by (auto simp: ps_def c_def clean_comps_def)
  have dps: "is_dir fs ps" using ex is_dir_butlast[of fs "ps @ [c]"] unfolding l by simp
  have w: "walk k fs [] ps True = Inr ps" "walk k fs [] rc True = Inr rc" for k
    using walk_real[of ps fs "[]" k "[]" True] walk_real[of rc fs "[]" k "[]" True] cps cc dps d0 by simp_all
  have ab: "filepath_Join (abs_str rc) rel = abs_str (ps @ [c])"
    using filepath_Join_abs[OF cc ss(2,1)] unfolding l by simp
  have par: "filepath_Dir (abs_str (ps @ [c])) = abs_str ps"
    using cps by (intro filepath_Dir_abs) simp
  have bas: "filepath_Base (abs_str (ps @ [c])) = c" using cps by (intro filepath_Base_abs) simp
  have mk: "os_MkdirAll fs (abs_str ps) = (None, fs)"
    using mkdir_all_again[of fs "rev ps" ps] w dps cps by (auto simp: os_MkdirAll_def clean_comps_def)
  have ev: "EvalSymlinks fs (abs_str ps) = Inr (abs_str ps)" "EvalSymlinks fs (abs_str rc) = Inr (abs_str rc)"
    using w cps cc by (simp_all add: EvalSymlinks_def walk_abs_str)
  have pre: "abs_str ps = abs_str rc \<or> has_prefix (abs_str ps @ ''/'') (abs_str rc @ ''/'')"
  proof (cases "butlast (segs rel) = []")
    case False
    have "rc \<noteq> []" using ws by (simp add: workspace_def)
    from abs_str_append[OF this False]
    have "abs_str ps = (abs_str rc @ ''/'') @ join_ch (CHR ''/'') (butlast (segs rel))" by (simp add: ps_def)
    then show ?thesis by simp
  qed (simp add: ps_def)
  have "filepath_Join (abs_str ps) c = abs_str (ps @ [c])" using filepath_Join_seg[OF cps] .
  then show ?thesis using pre unfolding l by (auto simp: ds_resolve_def s ab par bas mk ev Let_def)
qed

lemma ds_Open_existing:
  assumes ws: "workspace rc fs" and s: "SafeRelPath p = Inr rel" and ex: "content rc fs rel = Some b"
  shows "ds_Open (abs_str rc) p fs = (Inr \<lparr>rd_data = b, rd_fails = False\<rparr>, fs)"
proof -
  have lf: "leaf fs (rc @ segs rel) = Some (File b)"
    using ex by (auto simp: content_def split: option.splits node.splits)
  then have l: "lookup fs (rc @ segs rel) = Some (File b)" by (simp add: leaf_Some_iff)
  obtain d c where dc: "rc @ segs rel = d @ [c]" by (metis append_butlast_last_id append_is_Nil_conv segs_def split_ch_nonempty)
  have "clean_comps (rc @ segs rel)"
    using ws SafeRelPath_safe_rel[OF s] by (auto simp: workspace_def safe_rel_def clean_comps_def)
  then have "os_Open fs (abs_str (rc @ segs rel)) = Inr \<lparr>rd_data = b, rd_fails = False\<rparr>"
    using os_Open_file[of d c fs b] lf unfolding dc by simp
  with ds_resolve_existing[OF ws s l] show ?thesis by (simp add: ds_Open_def)
qed

section \<open>Properties\<close>

text \<open>C11. Containment: a resolved path lies in a real directory at or below the real workspace root
  (the root with its links followed), its last segment a plain name, whatever links the tree
  holds; resolving changes no file and no link.\<close>

theorem resolve_contained:
  assumes "ds_resolve (abs_str rc) rel fs = (Inr ap, fs')" and "clean_comps rc" and "is_dir fs []"
  shows "\<exists>rr d c. EvalSymlinks fs' (abs_str rc) = Inr (abs_str rr) \<and>
    ap = abs_str (rr @ d @ [c]) \<and> clean_comps (rr @ d @ [c]) \<and> is_dir fs' (rr @ d) \<and>
    leaf fs' = leaf fs"
proof -
  from ds_resolve_ok[OF assms] obtain q rr d where R:
    "ap = abs_str ((rr @ d) @ [last (segs q)])" "clean_comps ((rr @ d) @ [last (segs q)])"
    "is_dir fs' (rr @ d)" "walk go_links fs' [] rc True = Inr rr" "leaf fs' = leaf fs"
    by metis
  then show ?thesis
    using assms(2) by (intro exI[of _ rr] exI[of _ d] exI[of _ "last (segs q)"])
      (simp add: EvalSymlinks_def walk_abs_str)
qed

theorem resolve_contained_witness:
  "fst (ds_resolve ''/ws'' ''a/b'' (Dir [(''data'', Dir []), (''ws'', Link ''data'')])) = Inr ''/data/a/b'' \<and>
   leaf (snd (ds_resolve ''/ws'' ''a/b'' (Dir [(''data'', Dir []), (''ws'', Link ''data'')]))) =
   leaf (Dir [(''data'', Dir []), (''ws'', Link ''data'')])"
proof -
  let ?fs = "Dir [(''data'', Dir []), (''ws'', Link ''data'')]"
  have e: "ds_resolve ''/ws'' ''a/b'' ?fs =
      (Inr ''/data/a/b'', Dir [(''data'', Dir [(''a'', Dir [])]), (''ws'', Link ''data'')])"
    by code_simp
  moreover have "abs_str [''ws''] = ''/ws''" "clean_comps [''ws'']" "is_dir ?fs []" by code_simp+
  ultimately show ?thesis
    using resolve_contained[of "[''ws'']" "''a/b''" ?fs] by auto
qed

text \<open>The limit of containment: the last segment itself is not resolved, so a link there that
  leads out of the workspace is accepted, and opening it reads a file outside; the temporary
  directories of a path are made before the check, so a rejected path may leave a directory
  behind outside the workspace.\<close>

theorem resolve_limits:
  "let fs = Dir [(''etc'', Dir [(''key'', File ''k'')]),
                 (''ws'', Dir [(''l'', Link ''/etc/key''), (''out'', Link ''/etc'')])]
   in fst (ds_Open ''/ws'' ''l'' fs) = Inr \<lparr>rd_data = ''k'', rd_fails = False\<rparr> \<and>
      ds_resolve ''/ws'' ''out/new/f'' fs =
        (Inl DsUnsafePath, put_at [''etc'', ''new''] (Some (Dir [])) fs)"
  by code_simp

text \<open>C15. The two scans agree: on a workspace that holds only directories and regular files,
  \<open>ScanDir\<close>, which skips excluded directories, and \<open>DirStore.Manifest\<close>, which visits everything,
  succeed with the same list: each path once, and exactly the files neither excluded nor
  temporary, with the size and digest of their content.\<close>

theorem scans_agree:
  assumes "workspace rc fs" and "plain rc fs"
  shows "\<exists>es. ScanDir sha fs (abs_str rc) = (None, es) \<and> ds_Manifest sha fs (abs_str rc) = (None, es) \<and>
    distinct (map fe_Path es) \<and>
    (\<forall>e. e \<in> set es \<longleftrightarrow> (\<exists>k b. content rc fs k = Some b \<and> \<not> DefaultExcluded k \<and>
       \<not> has_prefix (last (segs k)) tmp_prefix \<and> e = scanned_entry sha k b))"
  using ScanDir_spec[OF assms] ds_Manifest_spec[OF assms] distinct_scan_spec[OF assms(1)]
    scan_spec_set[OF assms]
  by (simp add: visible_def)

theorem scans_agree_witness:
  "\<exists>es. ScanDir (\<lambda>b. ''h'') (Dir [(''ws'', Dir [(''.git'', Dir [(''x'', File ''old'')]), (''a'', File ''n'')])]) ''/ws'' =
      (None, es) \<and> distinct (map fe_Path es)"
proof -
  let ?fs = "Dir [(''ws'', Dir [(''.git'', Dir [(''x'', File ''old'')]), (''a'', File ''n'')])]"
  have "workspace [''ws''] ?fs" "plain [''ws''] ?fs" "abs_str [''ws''] = ''/ws''" by code_simp+
  with scans_agree[of "[''ws'']" ?fs "\<lambda>b. ''h''"] show ?thesis by auto
qed

text \<open>C12. Writing then promoting: on a plain workspace, a successful \<open>WriteTemp\<close> followed by a
  successful \<open>Promote\<close> puts exactly the reader's bytes at the path's location, changes no other
  file or link (the temporary file is gone), and the digest and size returned are theirs; a
  failed \<open>WriteTemp\<close> leaves every file as it was, and \<open>Promote\<close> fails only where a directory is.\<close>

theorem write_then_promote:
  assumes "workspace rc fs" and "plain rc fs" and "sane_max m"
    and "WriteTemp sha (abs_str rc) rel r m rnd fs = (Inr (tmpID, h, n), fs2)"
    and "Promote (abs_str rc) rel tmpID revision fs2 = (res, fs3)"
  shows "h = sha (rd_data r) \<and> n = of_nat (length (rd_data r)) \<and>
    int (length (rd_data r)) \<le> sint m \<and> workspace rc fs3 \<and>
    (\<exists>q. SafeRelPath rel = Inr q \<and>
       (if res = None then leaf fs3 = (leaf fs)(rc @ segs q \<mapsto> File (rd_data r))
        else is_dir fs2 (rc @ segs q)))"
  using Promote_after_WriteTemp[OF assms(1,2,4,3,5)] by (auto split: option.splits)

theorem write_then_promote_witness:
  "\<exists>q. SafeRelPath ''d/a'' = Inr q \<and>
    leaf (Dir [(''ws'', Dir [(''d'', Dir [(''a'', File ''new'')])])]) =
      (leaf (Dir [(''ws'', Dir [(''d'', Dir [(''a'', File ''old'')])])]))([''ws''] @ segs q \<mapsto> File ''new'')"
proof -
  let ?fs = "Dir [(''ws'', Dir [(''d'', Dir [(''a'', File ''old'')])])]"
  let ?sha = "\<lambda>b. ''h''" and ?r = "\<lparr>rd_data = ''new'', rd_fails = False\<rparr>"
  let ?t = "''.cclaude.tmp.2a''"
  let ?fs2 = "Dir [(''ws'', Dir [(''d'', Dir [(?t, File ''new''), (''a'', File ''old'')])])]"
  have a: "abs_str [''ws''] = ''/ws''" by code_simp
  have "WriteTemp ?sha ''/ws'' ''d/a'' ?r 10 (Some ''*'') ?fs = (Inr (?t, ''h'', 3), ?fs2)"
    "Promote ''/ws'' ''d/a'' ?t 5 ?fs2 = (None, Dir [(''ws'', Dir [(''d'', Dir [(''a'', File ''new'')])])])"
    "workspace [''ws''] ?fs" "plain [''ws''] ?fs" "sane_max 10"
    by code_simp+
  from write_then_promote[OF this(3-5), of ?sha "''d/a''" ?r "Some ''*''", unfolded a, OF this(1,2)]
  show ?thesis by simp
qed

text \<open>Discarding: if no file of the workspace has the name the random bytes give, \<open>Discard\<close>
  after a successful \<open>WriteTemp\<close> restores every file and link.\<close>

theorem write_then_discard:
  assumes "workspace rc fs" and "fresh_tmp rnd rc fs"
    and "WriteTemp sha (abs_str rc) rel r m rnd fs = (res, fs2)"
  shows "leaf (case res of Inl _ \<Rightarrow> fs2 | Inr (tmpID, _, _) \<Rightarrow> Discard (abs_str rc) tmpID fs2) = leaf fs"
proof (cases res)
  case (Inl e)
  then show ?thesis using WriteTemp_effect[OF assms(1,3)] by simp
next
  case (Inr x)
  obtain tmpID h n where x: "x = (tmpID, h, n)" by (cases x)
  from Discard_after_WriteTemp[OF assms(1) assms(3)[unfolded Inr x] assms(2)] show ?thesis
    by (simp add: Inr x)
qed

theorem write_then_discard_witness:
  "leaf (Discard ''/ws'' ''.cclaude.tmp.2a''
      (Dir [(''ws'', Dir [(''.cclaude.tmp.2a'', File ''k''), (''a'', File ''old'')])])) =
   leaf (Dir [(''ws'', Dir [(''a'', File ''old'')])])"
proof -
  let ?fs = "Dir [(''ws'', Dir [(''a'', File ''old'')])]"
  let ?sha = "\<lambda>b. ''h''" and ?r = "\<lparr>rd_data = ''k'', rd_fails = False\<rparr>"
  let ?t = "''.cclaude.tmp.2a''"
  have a: "abs_str [''ws''] = ''/ws''" by code_simp
  have "workspace [''ws''] ?fs" "fresh_tmp (Some ''*'') [''ws''] ?fs"
    "WriteTemp ?sha ''/ws'' ''a'' ?r 10 (Some ''*'') ?fs =
       (Inr (?t, ''h'', 1), Dir [(''ws'', Dir [(?t, File ''k''), (''a'', File ''old'')])])"
    by code_simp+
  from write_then_discard[OF this(1,2), of ?sha "''a''" ?r 10, unfolded a, OF this(3)]
  show ?thesis by simp
qed

end
