(* ===== verification/Sync_Server.thy ===== *)
theory Sync_Server
  imports Rev_Store Dir_Store
begin

text \<open>
  \<^verbatim>\<open>internal/sync/syncserver.go\<close>: the server side of one sync connection. A handler works on two
  states: the revision store (any implementation \<open>st\<close> of the interface) and the file system that
  holds the workspace directory. The project lock is held from the reading of the current
  revision to the commit, so a handler is one step. \<open>body\<close> is the reader (\<open>content\<close> in the code) the connection passes,
  \<open>rnd\<close> the random bytes of the temporary name.

  The facts here are proved once, in the locale of the interface: what a successful put or delete
  changes, that a rejected one changes nothing, what the reconciliation of cloud edits does. The
  histories of handler runs and cloud edits, and the properties, are in \<open>Sync_History\<close>.
\<close>

section \<open>Data\<close>

record put_result =
  pr_OK :: bool
  pr_Revision :: int64
  pr_Reason :: string

definition rejected :: "string \<Rightarrow> put_result" where
  "rejected reason = \<lparr>pr_OK = False, pr_Revision = 0, pr_Reason = reason\<rparr>"

definition accepted :: "int64 \<Rightarrow> put_result" where
  "accepted revision = \<lparr>pr_OK = True, pr_Revision = revision, pr_Reason = ''''\<rparr>"

text \<open>\<open>SyncSession\<close>: \<open>ss_Root\<close> is the root of its \<open>DirStore\<close>; the store and the lock are implicit.\<close>

record sync_session =
  ss_ProjectID :: string
  ss_Device :: string
  ss_Mode :: string
  ss_Root :: string
  ss_MaxBytes :: int64
  ss_AllowQuota :: "int64 \<Rightarrow> int64 \<Rightarrow> int64 \<Rightarrow> storage_error option"

section \<open>The handlers\<close>

definition HandlePut ::
    "(bytes \<Rightarrow> string) \<Rightarrow> 's rev_store \<Rightarrow> sync_session \<Rightarrow> string \<Rightarrow> int64 \<Rightarrow> string \<Rightarrow> reader \<Rightarrow>
       bytes option \<Rightarrow> 's \<times> node \<Rightarrow> put_result \<times> 's \<times> node" where
  "HandlePut sha st s path baseRev declaredSHA body rnd = (\<lambda>(db, fs).
     (case SafeRelPath path of
        Inl _ \<Rightarrow> (rejected ''unsafe_path'', db, fs)
      | Inr rel \<Rightarrow>
     (case rs_Current st (ss_ProjectID s) rel db of
        (Inl _, db) \<Rightarrow> (rejected ''internal'', db, fs)
      | (Inr (curRev, oldSize, exists), db) \<Rightarrow>
     if exists \<and> curRev \<noteq> baseRev then (rejected ''conflict'', db, fs)
     else if \<not> exists \<and> baseRev \<noteq> 0 then (rejected ''conflict'', db, fs)
     else
     (case WriteTemp sha (ss_Root s) rel body (ss_MaxBytes s) rnd fs of
        (Inl DsTooLarge, fs) \<Rightarrow> (rejected ''too_large'', db, fs)
      | (Inl _, fs) \<Rightarrow> (rejected ''internal'', db, fs)
      | (Inr (tmpID, gotSHA, sz), fs) \<Rightarrow>
     if gotSHA \<noteq> declaredSHA
     then (rejected ''sha_mismatch'', db, Discard (ss_Root s) tmpID fs)
     else if ss_Mode s = ''cleanup'' \<and> sint oldSize \<le> sint sz
     then (rejected ''readonly_mode'', db, Discard (ss_Root s) tmpID fs)
     else
     (case rs_TotalSize st (ss_ProjectID s) db of
        (Inl _, db) \<Rightarrow> (rejected ''internal'', db, Discard (ss_Root s) tmpID fs)
      | (Inr used, db) \<Rightarrow>
     if ss_AllowQuota s used oldSize sz \<noteq> None
     then (rejected ''disk_full'', db, Discard (ss_Root s) tmpID fs)
     else let newRev = curRev + 1 in
     (case Promote (ss_Root s) rel tmpID newRev fs of
        (Some _, fs) \<Rightarrow> (rejected ''internal'', db, Discard (ss_Root s) tmpID fs)
      | (None, fs) \<Rightarrow>
     (case rs_Commit st (ss_ProjectID s)
             \<lparr>fe_Path = rel, fe_Size = sz, fe_SHA256 = gotSHA, fe_Revision = newRev, fe_Deleted = False\<rparr>
             (ss_Device s) db of
        (Some _, db) \<Rightarrow> (rejected ''internal'', db, fs)
      | (None, db) \<Rightarrow> (accepted newRev, db, fs))))))))"

definition HandleDelete ::
    "'s rev_store \<Rightarrow> sync_session \<Rightarrow> string \<Rightarrow> int64 \<Rightarrow> 's \<times> node \<Rightarrow> put_result \<times> 's \<times> node" where
  "HandleDelete st s path baseRev = (\<lambda>(db, fs).
     (case SafeRelPath path of
        Inl _ \<Rightarrow> (rejected ''unsafe_path'', db, fs)
      | Inr rel \<Rightarrow>
     (case rs_Current st (ss_ProjectID s) rel db of
        (Inl _, db) \<Rightarrow> (rejected ''internal'', db, fs)
      | (Inr (curRev, _, exists), db) \<Rightarrow>
     if exists \<and> curRev \<noteq> baseRev then (rejected ''conflict'', db, fs)
     else if \<not> exists then (accepted baseRev, db, fs)
     else let newRev = curRev + 1 in
     (case ds_Delete (ss_Root s) rel newRev fs of
        (Some _, fs) \<Rightarrow> (rejected ''internal'', db, fs)
      | (None, fs) \<Rightarrow>
     (case rs_Commit st (ss_ProjectID s)
             \<lparr>fe_Path = rel, fe_Size = 0, fe_SHA256 = '''', fe_Revision = newRev, fe_Deleted = True\<rparr>
             (ss_Device s) db of
        (Some _, db) \<Rightarrow> (rejected ''internal'', db, fs)
      | (None, db) \<Rightarrow> (accepted newRev, db, fs))))))"

text \<open>The two loops of \<open>reconcileCloud\<close>; the error of a commit is dropped.\<close>

definition record_scanned ::
    "'s rev_store \<Rightarrow> string \<Rightarrow> (string \<rightharpoonup> file_entry) \<Rightarrow> 's \<Rightarrow> file_entry \<Rightarrow> 's" where
  "record_scanned st pid ix db f =
     (let ok = ix (fe_Path f) \<noteq> None;
          cur = (case ix (fe_Path f) of None \<Rightarrow> zero_FileEntry | Some r \<Rightarrow> r)
      in if ok \<and> \<not> fe_Deleted cur \<and> fe_SHA256 cur = fe_SHA256 f then db
         else snd (rs_Commit st pid
                \<lparr>fe_Path = fe_Path f, fe_Size = fe_Size f, fe_SHA256 = fe_SHA256 f,
                 fe_Revision = fe_Revision cur + 1, fe_Deleted = False\<rparr> ''cloud'' db))"

definition record_missing ::
    "'s rev_store \<Rightarrow> string \<Rightarrow> (string \<Rightarrow> bool) \<Rightarrow> 's \<Rightarrow> file_entry \<Rightarrow> 's" where
  "record_missing st pid seen db r =
     (if \<not> fe_Deleted r \<and> \<not> seen (fe_Path r)
      then snd (rs_Commit st pid
             \<lparr>fe_Path = fe_Path r, fe_Size = 0, fe_SHA256 = '''', fe_Revision = fe_Revision r + 1,
              fe_Deleted = True\<rparr> ''cloud'' db)
      else db)"

definition reconcileCloud ::
    "(bytes \<Rightarrow> string) \<Rightarrow> 's rev_store \<Rightarrow> sync_session \<Rightarrow> 's \<times> node \<Rightarrow> 's \<times> node" where
  "reconcileCloud sha st s = (\<lambda>(db, fs).
     (case ScanDir sha fs (ss_Root s) of
        (Some _, _) \<Rightarrow> (db, fs)
      | (None, scanned) \<Rightarrow>
     (case rs_Manifest st (ss_ProjectID s) db of
        (Inl _, db) \<Rightarrow> (db, fs)
      | (Inr remote, db) \<Rightarrow>
     let ix = index_by fe_Path remote;
         seen = (\<lambda>path. path \<in> set (map fe_Path scanned));
         db = foldl (record_scanned st (ss_ProjectID s) ix) db scanned
     in (foldl (record_missing st (ss_ProjectID s) seen) db remote, fs))))"

definition HandleManifest ::
    "(bytes \<Rightarrow> string) \<Rightarrow> 's rev_store \<Rightarrow> sync_session \<Rightarrow> 's \<times> node \<Rightarrow>
       (db_error + file_entry list) \<times> 's \<times> node" where
  "HandleManifest sha st s x =
     (case reconcileCloud sha st s x of
        (db, fs) \<Rightarrow> (case rs_Manifest st (ss_ProjectID s) db of (r, db) \<Rightarrow> (r, db, fs)))"

datatype get_error = GetUnsafePath | GetDb | GetNotFound | GetDir ds_error

text \<open>\<open>HandleGet\<close> takes no lock: it reads the index, and later opens the file.\<close>

definition HandleGet ::
    "'s rev_store \<Rightarrow> sync_session \<Rightarrow> string \<Rightarrow> 's \<times> node \<Rightarrow> (get_error + file_entry \<times> reader) \<times> 's \<times> node" where
  "HandleGet st s path = (\<lambda>(db, fs).
     (case SafeRelPath path of
        Inl _ \<Rightarrow> (Inl GetUnsafePath, db, fs)
      | Inr rel \<Rightarrow>
     (case rs_Current st (ss_ProjectID s) rel db of
        (Inl _, db) \<Rightarrow> (Inl GetDb, db, fs)
      | (Inr (revision, sz, exists), db) \<Rightarrow>
     if \<not> exists then (Inl GetNotFound, db, fs)
     else
     (case ds_Open (ss_Root s) rel fs of
        (Inl e, fs) \<Rightarrow> (Inl (GetDir e), db, fs)
      | (Inr rc, fs) \<Rightarrow>
          (Inr (\<lparr>fe_Path = rel, fe_Size = sz, fe_SHA256 = '''', fe_Revision = revision, fe_Deleted = False\<rparr>, rc),
           db, fs)))))"

section \<open>What the handlers do\<close>

context revision_store
begin

text \<open>A put that is accepted passed every check, and changed one path of the index and one file.\<close>

lemma HandlePut_accepted:
  assumes i: "inv db" and ws: "workspace rc fs" and pl: "plain rc fs" and mx: "sane_max (ss_MaxBytes s)"
    and root: "ss_Root s = abs_str rc"
    and h: "HandlePut sha st s path baseRev decl body rnd (db, fs) = (res, db', fs')" and ok: "pr_OK res"
  shows "\<exists>rel used. SafeRelPath path = Inr rel \<and>
    (case idx db (ss_ProjectID s) rel of None \<Rightarrow> baseRev = 0 | Some e \<Rightarrow> fe_Revision e = baseRev) \<and>
    decl = sha (rd_data body) \<and> int (length (rd_data body)) \<le> sint (ss_MaxBytes s) \<and>
    sint used = total_size (idx db (ss_ProjectID s)) \<and>
    ss_AllowQuota s used (fst (snd (current_of (idx db (ss_ProjectID s)) rel)))
      (of_nat (length (rd_data body))) = None \<and>
    (ss_Mode s = ''cleanup'' \<longrightarrow> int (length (rd_data body)) <
       sint (fst (snd (current_of (idx db (ss_ProjectID s)) rel)))) \<and>
    pr_Revision res = baseRev + 1 \<and> inv db' \<and> workspace rc fs' \<and>
    leaf fs' = (leaf fs)(rc @ segs rel \<mapsto> File (rd_data body)) \<and>
    idx db' = committed (ss_ProjectID s)
      \<lparr>fe_Path = rel, fe_Size = of_nat (length (rd_data body)), fe_SHA256 = decl,
       fe_Revision = baseRev + 1, fe_Deleted = False\<rparr> (idx db)"
proof -
  let ?pid = "ss_ProjectID s"
  obtain rel where rel: "SafeRelPath path = Inr rel"
    using h ok by (cases "SafeRelPath path") (auto simp: HandlePut_def rejected_def)
  obtain rcur db1 where cur0: "rs_Current st ?pid rel db = (rcur, db1)" by fastforce
  then obtain curRev oldSize ex where cur: "rcur = Inr (curRev, oldSize, ex)"
    using h ok rel by (cases rcur) (auto simp: HandlePut_def rejected_def)
  note C = current[OF i cur0]
  obtain rw fs1 where wt0: "WriteTemp sha (abs_str rc) rel body (ss_MaxBytes s) rnd fs = (rw, fs1)"
    by fastforce
  obtain tmpID got sz where wt: "rw = Inr (tmpID, got, sz)"
    using h ok rel cur0 cur wt0 root
    by (cases rw) (auto simp: HandlePut_def rejected_def split: if_splits ds_error.splits)
  have cas: "if ex then curRev = baseRev else baseRev = 0"
    using h ok rel cur0 cur by (auto simp: HandlePut_def rejected_def split: if_splits)
  have sh: "got = decl" "\<not> (ss_Mode s = ''cleanup'' \<and> sint oldSize \<le> sint sz)"
    using h ok rel cur0 cur wt0 wt root cas by (auto simp: HandlePut_def rejected_def split: if_splits)
  obtain rt db2 where tot0: "rs_TotalSize st ?pid db1 = (rt, db2)" by fastforce
  obtain used where tot: "rt = Inr used"
    using h ok rel cur0 cur wt0 wt root cas sh tot0
    by (cases rt) (auto simp: HandlePut_def rejected_def split: if_splits)
  have al: "ss_AllowQuota s used oldSize sz = None"
    using h ok rel cur0 cur wt0 wt root cas sh tot0 tot
    by (auto simp: HandlePut_def rejected_def split: if_splits)
  obtain rp fs2 where pr: "Promote (abs_str rc) rel tmpID (curRev + 1) fs1 = (rp, fs2)" by fastforce
  define e where "e = \<lparr>fe_Path = rel, fe_Size = sz, fe_SHA256 = got, fe_Revision = curRev + 1, fe_Deleted = False\<rparr>"
  obtain rcm db3 where cm: "rs_Commit st ?pid e (ss_Device s) db2 = (rcm, db3)" by fastforce
  have fin: "rp = None \<and> rcm = None \<and> res = accepted (curRev + 1) \<and> db' = db3 \<and> fs' = fs2"
    using h ok rel cur0 cur wt0 wt root cas sh tot0 tot al pr cm
    by (auto simp: HandlePut_def rejected_def e_def Let_def split: if_splits option.splits)
  note T = total[OF conjunct1[OF C] tot0]
  note M = commit[OF conjunct1[OF T] cm]
  from Promote_after_WriteTemp[OF ws pl wt0[unfolded wt] mx pr] fin SafeRelPath_fixed[OF SafeRelPath_safe_rel[OF rel]]
  have P: "got = sha (rd_data body)" "sz = of_nat (length (rd_data body))"
    "int (length (rd_data body)) \<le> sint (ss_MaxBytes s)" "workspace rc fs2"
    "leaf fs2 = (leaf fs)(rc @ segs rel \<mapsto> File (rd_data body))"
    by auto
  have szf: "sint sz = int (length (rd_data body))"
    using P(2,3) mx sint_of_int64[of "int (length (rd_data body))"] by (simp add: sane_max_def fits64_def)
  have "(curRev, oldSize, ex) = current_of (idx db ?pid) rel" using C cur by simp
  then have co: "oldSize = fst (snd (current_of (idx db ?pid) rel))" "baseRev = curRev"
    "case idx db ?pid rel of None \<Rightarrow> baseRev = 0 | Some e \<Rightarrow> fe_Revision e = baseRev"
    using cas by (auto simp: current_of_def split: option.splits if_splits)
  have ix: "idx db' = committed ?pid e (idx db)" "inv db'" using M T C fin by simp_all
  have u: "sint used = total_size (idx db ?pid)" using T tot C by simp
  show ?thesis
    using rel co(3) sh P szf u al co(1,2) fin ix
    by (intro exI[of _ rel] exI[of _ used]) (auto simp: accepted_def e_def)
qed

text \<open>A put that is not accepted changed no file and nothing in the index, unless the very last
  step, the commit, failed: then the new file is already in place.\<close>

lemma HandlePut_rejected:
  assumes i: "inv db" and ws: "workspace rc fs" and pl: "plain rc fs" and mx: "sane_max (ss_MaxBytes s)"
    and fresh: "fresh_tmp rnd rc fs" and root: "ss_Root s = abs_str rc"
    and h: "HandlePut sha st s path baseRev decl body rnd (db, fs) = (res, db', fs')" and bad: "\<not> pr_OK res"
  shows "inv db' \<and> workspace rc fs' \<and>
    ((idx db' = idx db \<and> leaf fs' = leaf fs) \<or>
     (\<exists>rel. pr_Reason res = ''internal'' \<and> SafeRelPath path = Inr rel \<and>
        (case idx db (ss_ProjectID s) rel of None \<Rightarrow> baseRev = 0 | Some e \<Rightarrow> fe_Revision e = baseRev) \<and>
        decl = sha (rd_data body) \<and> int (length (rd_data body)) \<le> sint (ss_MaxBytes s) \<and>
        leaf fs' = (leaf fs)(rc @ segs rel \<mapsto> File (rd_data body)) \<and>
        (idx db' = idx db \<or> idx db' = committed (ss_ProjectID s)
           \<lparr>fe_Path = rel, fe_Size = of_nat (length (rd_data body)), fe_SHA256 = decl,
            fe_Revision = baseRev + 1, fe_Deleted = False\<rparr> (idx db))))"
proof -
  let ?pid = "ss_ProjectID s"
  show ?thesis
  proof (cases "SafeRelPath path")
    case (Inl e)
    with h i ws show ?thesis by (simp add: HandlePut_def)
  next
    case rel: (Inr rel)
    obtain rcur db1 where cur0: "rs_Current st ?pid rel db = (rcur, db1)" by fastforce
    note C = current[OF i cur0]
    show ?thesis
    proof (cases rcur)
      case (Inl e)
      with h rel cur0 C ws show ?thesis by (simp add: HandlePut_def)
    next
      case cur: (Inr x)
      obtain curRev oldSize ex where x: "x = (curRev, oldSize, ex)" by (cases x)
      show ?thesis
      proof (cases "if ex then curRev = baseRev else baseRev = 0")
        case False
        with h rel cur0 cur x C ws show ?thesis by (auto simp: HandlePut_def split: if_splits)
      next
        case cas: True
        obtain rw fs1 where wt0: "WriteTemp sha (abs_str rc) rel body (ss_MaxBytes s) rnd fs = (rw, fs1)"
          by fastforce
        note W = WriteTemp_effect[OF ws wt0]
        show ?thesis
        proof (cases rw)
          case (Inl e)
          have "db' = db1 \<and> fs' = fs1"
            using h rel cur0 cur x cas wt0 Inl root
            by (auto simp: HandlePut_def split: if_splits ds_error.splits)
          with W Inl C show ?thesis by simp
        next
          case wt: (Inr y)
          obtain tmpID got sz where y: "y = (tmpID, got, sz)" by (cases y)
          note D = Discard_after_WriteTemp[OF ws wt0[unfolded wt y] fresh]
          show ?thesis
          proof (cases "got \<noteq> decl \<or> (ss_Mode s = ''cleanup'' \<and> sint oldSize \<le> sint sz)")
            case True
            then have "db' = db1 \<and> fs' = Discard (abs_str rc) tmpID fs1"
              using h rel cur0 cur x cas wt0 wt y root
              by (auto simp: HandlePut_def split: if_splits)
            with D C show ?thesis by simp
          next
            case sh: False
            obtain rt db2 where tot0: "rs_TotalSize st ?pid db1 = (rt, db2)" by fastforce
            note T = total[OF conjunct1[OF C] tot0]
            show ?thesis
            proof (cases "(\<exists>e. rt = Inl e) \<or> (\<exists>used. rt = Inr used \<and> ss_AllowQuota s used oldSize sz \<noteq> None)")
              case True
              then have "db' = db2 \<and> fs' = Discard (abs_str rc) tmpID fs1"
                using h rel cur0 cur x cas wt0 wt y root sh tot0
                by (auto simp: HandlePut_def split: if_splits)
              with D C T show ?thesis by simp
            next
              case False
              then obtain used where al: "rt = Inr used" "ss_AllowQuota s used oldSize sz = None"
                by (cases rt) auto
              obtain rp fs2 where pr: "Promote (abs_str rc) rel tmpID (curRev + 1) fs1 = (rp, fs2)" by fastforce
              note P = Promote_after_WriteTemp[OF ws pl wt0[unfolded wt y] mx pr]
              show ?thesis
              proof (cases rp)
                case (Some e)
                then have "db' = db2 \<and> fs' = Discard (abs_str rc) tmpID fs2"
                  using h rel cur0 cur x cas wt0 wt y root sh tot0 al pr
                  by (auto simp: HandlePut_def Let_def split: if_splits)
                moreover have "fs2 = fs1" using P Some by auto
                ultimately show ?thesis using D C T by simp
              next
                case None
                define e where "e = \<lparr>fe_Path = rel, fe_Size = sz, fe_SHA256 = got,
                  fe_Revision = curRev + 1, fe_Deleted = False\<rparr>"
                obtain rcm db3 where cm: "rs_Commit st ?pid e (ss_Device s) db2 = (rcm, db3)" by fastforce
                note M = commit[OF conjunct1[OF T] cm]
                have fin: "rcm \<noteq> None \<and> res = rejected ''internal'' \<and> db' = db3 \<and> fs' = fs2"
                  using h bad rel cur0 cur x cas wt0 wt y root sh tot0 al pr None cm
                  by (cases rcm) (auto simp: HandlePut_def accepted_def e_def Let_def split: if_splits)
                have "(curRev, oldSize, ex) = current_of (idx db ?pid) rel" using C cur x by simp
                then have co: "baseRev = curRev"
                  "case idx db ?pid rel of None \<Rightarrow> baseRev = 0 | Some e \<Rightarrow> fe_Revision e = baseRev"
                  using cas by (auto simp: current_of_def split: option.splits if_splits)
                have "SafeRelPath rel = Inr rel" using SafeRelPath_fixed[OF SafeRelPath_safe_rel[OF rel]] .
                with P None have Q: "got = sha (rd_data body)" "sz = of_nat (length (rd_data body))"
                  "int (length (rd_data body)) \<le> sint (ss_MaxBytes s)" "workspace rc fs2"
                  "leaf fs2 = (leaf fs)(rc @ segs rel \<mapsto> File (rd_data body))"
                  by auto
                have "idx db3 = idx db \<or> idx db3 = committed ?pid e (idx db)" using M fin T C by simp
                moreover have "got = decl" using sh by blast
                ultimately show ?thesis
                  using fin M Q co rel by (auto simp: rejected_def e_def)
              qed
            qed
          qed
        qed
      qed
    qed
  qed
qed

end

section \<open>What the handlers do: deletion, reconciliation, download\<close>

definition tombstone :: "string \<Rightarrow> int64 \<Rightarrow> file_entry" where
  "tombstone path revision =
     \<lparr>fe_Path = path, fe_Size = 0, fe_SHA256 = '''', fe_Revision = revision, fe_Deleted = True\<rparr>"

text \<open>The commits of one reconciliation, computed from the index and the scan.\<close>

definition scanned_commits :: "(string \<rightharpoonup> file_entry) \<Rightarrow> file_entry list \<Rightarrow> file_entry list" where
  "scanned_commits ix scanned =
     concat (map (\<lambda>f. case ix (fe_Path f) of
        None \<Rightarrow> [\<lparr>fe_Path = fe_Path f, fe_Size = fe_Size f, fe_SHA256 = fe_SHA256 f,
                  fe_Revision = 1, fe_Deleted = False\<rparr>]
      | Some r \<Rightarrow> if \<not> fe_Deleted r \<and> fe_SHA256 r = fe_SHA256 f then []
          else [\<lparr>fe_Path = fe_Path f, fe_Size = fe_Size f, fe_SHA256 = fe_SHA256 f,
                 fe_Revision = fe_Revision r + 1, fe_Deleted = False\<rparr>]) scanned)"

definition missing_commits :: "(string \<Rightarrow> bool) \<Rightarrow> file_entry list \<Rightarrow> file_entry list" where
  "missing_commits seen remote =
     map (\<lambda>r. tombstone (fe_Path r) (fe_Revision r + 1))
       (filter (\<lambda>r. \<not> fe_Deleted r \<and> \<not> seen (fe_Path r)) remote)"

definition cloud_commits :: "file_entry list \<Rightarrow> file_entry list \<Rightarrow> file_entry list" where
  "cloud_commits scanned remote =
     scanned_commits (index_by fe_Path remote) scanned @
     missing_commits (\<lambda>path. path \<in> set (map fe_Path scanned)) remote"

lemma scanned_commits_paths: "fe_Path ` set (scanned_commits ix scanned) \<subseteq> fe_Path ` set scanned"
  by (auto simp: scanned_commits_def split: option.splits if_splits)

lemma distinct_scanned_commits:
  "distinct (map fe_Path scanned) \<Longrightarrow> distinct (map fe_Path (scanned_commits ix scanned))"
proof (induction scanned)
  case (Cons f fs)
  moreover have "scanned_commits ix (f # fs) = scanned_commits ix [f] @ scanned_commits ix fs"
    by (simp add: scanned_commits_def)
  moreover have "map fe_Path (scanned_commits ix [f]) \<in> {[], [fe_Path f]}"
    by (auto simp: scanned_commits_def split: option.split)
  ultimately show ?case using scanned_commits_paths[of ix fs] by auto
qed (simp add: scanned_commits_def)

lemma distinct_cloud_commits:
  assumes "distinct (map fe_Path scanned)" "distinct (map fe_Path remote)"
  shows "distinct (map fe_Path (cloud_commits scanned remote))"
proof -
  let ?seen = "\<lambda>path. path \<in> set (map fe_Path scanned)"
  have m: "map fe_Path (missing_commits ?seen remote) =
      map fe_Path (filter (\<lambda>r. \<not> fe_Deleted r \<and> \<not> ?seen (fe_Path r)) remote)"
    by (simp add: missing_commits_def tombstone_def comp_def)
  have "set (map fe_Path (missing_commits ?seen remote)) \<inter> set (map fe_Path scanned) = {}"
    by (auto simp: missing_commits_def tombstone_def)
  moreover have "set (map fe_Path (scanned_commits (index_by fe_Path remote) scanned)) \<subseteq> set (map fe_Path scanned)"
    using scanned_commits_paths by simp
  moreover have "distinct (map fe_Path (missing_commits ?seen remote))"
    unfolding m by (rule distinct_map_filter[OF assms(2)])
  ultimately show ?thesis
    using distinct_scanned_commits[OF assms(1)] unfolding cloud_commits_def map_append distinct_append
    by blast
qed

lemma foldl_record_scanned:
  "foldl (record_scanned st pid ix) db scanned =
     foldl (\<lambda>db e. snd (rs_Commit st pid e ''cloud'' db)) db (scanned_commits ix scanned)"
proof (induction scanned arbitrary: db)
  case (Cons f fs)
  have "scanned_commits ix (f # fs) = scanned_commits ix [f] @ scanned_commits ix fs"
    by (simp add: scanned_commits_def)
  moreover have "record_scanned st pid ix db f =
      foldl (\<lambda>db e. snd (rs_Commit st pid e ''cloud'' db)) db (scanned_commits ix [f])"
    by (cases "ix (fe_Path f)")
      (auto simp: record_scanned_def scanned_commits_def zero_FileEntry_def Let_def)
  ultimately show ?case using Cons by simp
qed (simp add: scanned_commits_def)

lemma foldl_record_missing:
  "foldl (record_missing st pid seen) db remote =
     foldl (\<lambda>db e. snd (rs_Commit st pid e ''cloud'' db)) db (missing_commits seen remote)"
  by (induction remote arbitrary: db)
    (simp_all add: missing_commits_def record_missing_def tombstone_def)

text \<open>What a committed entry of a reconciliation looks like.\<close>

lemma cloud_commit_shape:
  assumes "distinct (map fe_Path remote)" "e \<in> set (cloud_commits scanned remote)"
  shows "fe_Revision e = (case index_by fe_Path remote (fe_Path e) of None \<Rightarrow> 0 | Some r \<Rightarrow> fe_Revision r) + 1 \<and>
    ((\<exists>f \<in> set scanned. fe_Path e = fe_Path f \<and> fe_Size e = fe_Size f \<and> fe_SHA256 e = fe_SHA256 f \<and> \<not> fe_Deleted e)
     \<or> (e = tombstone (fe_Path e) (fe_Revision e) \<and> fe_Path e \<notin> fe_Path ` set scanned))"
proof -
  from assms(2) consider f where "f \<in> set scanned" "e \<in> set (scanned_commits (index_by fe_Path remote) [f])"
    | r where "r \<in> set remote" "\<not> fe_Deleted r" "fe_Path r \<notin> fe_Path ` set scanned"
        "e = tombstone (fe_Path r) (fe_Revision r + 1)"
    by (fastforce simp: cloud_commits_def scanned_commits_def missing_commits_def)
  then show ?thesis
  proof cases
    case 1
    then show ?thesis
      by (auto simp: scanned_commits_def split: option.splits if_splits)
  next
    case 2
    then show ?thesis using index_by_distinct[OF assms(1) 2(1)] by (simp add: tombstone_def)
  qed
qed

context revision_store
begin

lemma HandleDelete_effect:
  assumes i: "inv db" and ws: "workspace rc fs" and pl: "plain rc fs" and root: "ss_Root s = abs_str rc"
    and h: "HandleDelete st s path baseRev (db, fs) = (res, db', fs')"
  shows "inv db' \<and> workspace rc fs' \<and>
    (if pr_OK res then \<exists>rel. SafeRelPath path = Inr rel \<and>
       (case idx db (ss_ProjectID s) rel of
          None \<Rightarrow> pr_Revision res = baseRev \<and> idx db' = idx db \<and> fs' = fs
        | Some e \<Rightarrow> fe_Revision e = baseRev \<and> pr_Revision res = baseRev + 1 \<and>
            leaf fs' = (leaf fs)(rc @ segs rel := None) \<and>
            idx db' = committed (ss_ProjectID s) (tombstone rel (baseRev + 1)) (idx db))
     else (idx db' = idx db \<and> leaf fs' = leaf fs) \<or>
       (\<exists>rel e. pr_Reason res = ''internal'' \<and> SafeRelPath path = Inr rel \<and>
          idx db (ss_ProjectID s) rel = Some e \<and> fe_Revision e = baseRev \<and>
          leaf fs' = (leaf fs)(rc @ segs rel := None) \<and>
          (idx db' = idx db \<or>
           idx db' = committed (ss_ProjectID s) (tombstone rel (baseRev + 1)) (idx db))))"
proof -
  let ?pid = "ss_ProjectID s"
  show ?thesis
  proof (cases "SafeRelPath path")
    case (Inl e)
    with h i ws show ?thesis by (auto simp: HandleDelete_def rejected_def)
  next
    case rel: (Inr rel)
    obtain rcur db1 where cur0: "rs_Current st ?pid rel db = (rcur, db1)" by fastforce
    note C = current[OF i cur0]
    show ?thesis
    proof (cases rcur)
      case (Inl e)
      with h rel cur0 C ws show ?thesis by (auto simp: HandleDelete_def rejected_def)
    next
      case cur: (Inr x)
      obtain curRev oldSize ex where x: "x = (curRev, oldSize, ex)" by (cases x)
      have co: "(curRev, oldSize, ex) = current_of (idx db ?pid) rel" using C cur x by simp
      show ?thesis
      proof (cases "ex \<and> curRev = baseRev")
        case False
        then show ?thesis
          using h rel cur0 cur x C ws co
          by (cases "idx db ?pid rel") (auto simp: HandleDelete_def rejected_def accepted_def current_of_def split: if_splits)
      next
        case cas: True
        then obtain e0 where e0: "idx db ?pid rel = Some e0" "fe_Revision e0 = baseRev"
          using co by (auto simp: current_of_def split: option.splits)
        obtain rd fs1 where de: "ds_Delete (abs_str rc) rel (curRev + 1) fs = (rd, fs1)" by fastforce
        have rr: "SafeRelPath rel = Inr rel" using SafeRelPath_fixed[OF SafeRelPath_safe_rel[OF rel]] .
        note D = ds_Delete_effect[OF ws pl de rr]
        show ?thesis
        proof (cases rd)
          case (Some e)
          then have "res = rejected ''internal'' \<and> db' = db1 \<and> fs' = fs1"
            using h rel cur0 cur x cas de root by (auto simp: HandleDelete_def Let_def)
          with D Some C show ?thesis by (simp add: rejected_def)
        next
          case None
          obtain rcm db2 where cm: "rs_Commit st ?pid (tombstone rel (curRev + 1)) (ss_Device s) db1 = (rcm, db2)"
            by fastforce
          note M = commit[OF conjunct1[OF C] cm]
          have fin: "db' = db2 \<and> fs' = fs1 \<and>
              res = (if rcm = None then accepted (curRev + 1) else rejected ''internal'')"
            using h rel cur0 cur x cas de root None cm
            by (cases rcm) (auto simp: HandleDelete_def Let_def tombstone_def)
          with M D None C e0 rel cas show ?thesis
            by (auto simp: accepted_def rejected_def)
        qed
      qed
    qed
  qed
qed

text \<open>A sequence of commits of entries with distinct paths.\<close>

lemma commits_effect:
  assumes "inv db" "distinct (map fe_Path es)"
    and "db' = foldl (\<lambda>db e. snd (rs_Commit st pid e dev db)) db es"
  shows "inv db' \<and> (\<forall>p. p \<noteq> pid \<longrightarrow> idx db' p = idx db p) \<and>
    (\<forall>k. idx db' pid k = idx db pid k \<or> (\<exists>e \<in> set es. fe_Path e = k \<and> idx db' pid k = Some e))"
  using assms
proof (induction es arbitrary: db)
  case (Cons e es)
  obtain r db1 where c: "rs_Commit st pid e dev db = (r, db1)" by fastforce
  have db': "db' = foldl (\<lambda>db e. snd (rs_Commit st pid e dev db)) db1 es"
    using Cons.prems(3) c by simp
  have "inv db1" using commit[OF Cons.prems(1) c] by blast
  from Cons.IH[OF this _ db'] Cons.prems(2)
  have IH: "inv db'" "\<forall>p. p \<noteq> pid \<longrightarrow> idx db' p = idx db1 p"
    "\<forall>k. idx db' pid k = idx db1 pid k \<or> (\<exists>e \<in> set es. fe_Path e = k \<and> idx db' pid k = Some e)"
    by simp_all
  from Cons.prems(1) c show ?case
  proof (cases rule: commit_cases)
    case not_written
    with IH show ?thesis by auto
  next
    case written
    with IH(1,2) have "inv db' \<and> (\<forall>p. p \<noteq> pid \<longrightarrow> idx db' p = idx db p)" by simp
    moreover have "idx db' pid k = idx db pid k \<or> (\<exists>e' \<in> set (e # es). fe_Path e' = k \<and> idx db' pid k = Some e')" for k
      using IH(3)[rule_format, of k] written by (cases "k = fe_Path e") auto
    ultimately show ?thesis by blast
  qed
qed simp

text \<open>What a reconciliation does to the index, whatever fails: other projects and every file stay as
  they are, and a path keeps its entry or takes the next revision.\<close>

lemma reconcileCloud_effect:
  assumes i: "inv db" and ws: "workspace rc fs" and pl: "plain rc fs" and root: "ss_Root s = abs_str rc"
    and h: "reconcileCloud sha st s (db, fs) = (db', fs')"
  shows "inv db' \<and> fs' = fs \<and> (\<forall>p. p \<noteq> ss_ProjectID s \<longrightarrow> idx db' p = idx db p) \<and>
    (\<forall>k. idx db' (ss_ProjectID s) k = idx db (ss_ProjectID s) k \<or>
      (\<exists>e. idx db' (ss_ProjectID s) k = Some e \<and>
         fe_Revision e = (case idx db (ss_ProjectID s) k of None \<Rightarrow> 0 | Some r \<Rightarrow> fe_Revision r) + 1 \<and>
         ((\<exists>b. content rc fs k = Some b \<and> e = (scanned_entry sha k b)\<lparr>fe_Revision := fe_Revision e\<rparr>) \<or>
          e = tombstone k (fe_Revision e))))"
proof -
  let ?pid = "ss_ProjectID s"
  obtain rm db1 where m0: "rs_Manifest st ?pid db = (rm, db1)" by fastforce
  note M = manifest[OF i m0]
  have sc: "ScanDir sha fs (abs_str rc) = (None, scan_spec sha rc fs)" by (rule ScanDir_spec[OF ws pl])
  show ?thesis
  proof (cases rm)
    case (Inl e)
    with h m0 sc M root show ?thesis by (auto simp: reconcileCloud_def)
  next
    case (Inr remote)
    let ?scanned = "scan_spec sha rc fs"
    have ds: "distinct (map fe_Path ?scanned)" by (rule distinct_scan_spec[OF ws])
    have dr: "distinct (map fe_Path remote)" and ir: "index_by fe_Path remote = idx db ?pid"
      using M Inr by auto
    have db': "db' = foldl (\<lambda>db e. snd (rs_Commit st ?pid e ''cloud'' db)) db1 (cloud_commits ?scanned remote)"
      and "fs' = fs"
      using h m0 sc Inr root
      by (auto simp: reconcileCloud_def Let_def foldl_record_scanned foldl_record_missing cloud_commits_def)
    note E = commits_effect[OF conjunct1[OF M] distinct_cloud_commits[OF ds dr] db']
    have "idx db' ?pid k = idx db ?pid k \<or>
      (\<exists>e. idx db' ?pid k = Some e \<and> fe_Revision e = (case idx db ?pid k of None \<Rightarrow> 0 | Some r \<Rightarrow> fe_Revision r) + 1 \<and>
         ((\<exists>b. content rc fs k = Some b \<and> e = (scanned_entry sha k b)\<lparr>fe_Revision := fe_Revision e\<rparr>) \<or>
          e = tombstone k (fe_Revision e)))" for k
    proof (cases "idx db' ?pid k = idx db1 ?pid k")
      case True
      then show ?thesis using M by simp
    next
      case False
      with E obtain e where e: "e \<in> set (cloud_commits ?scanned remote)" "fe_Path e = k" "idx db' ?pid k = Some e"
        by blast
      note sh = cloud_commit_shape[OF dr e(1), unfolded ir e(2)]
      from sh have "(\<exists>b. content rc fs k = Some b \<and> e = (scanned_entry sha k b)\<lparr>fe_Revision := fe_Revision e\<rparr>) \<or>
          e = tombstone k (fe_Revision e)"
      proof (elim conjE disjE bexE)
        fix f assume f: "f \<in> set ?scanned" "k = fe_Path f" "fe_Size e = fe_Size f" "fe_SHA256 e = fe_SHA256 f"
          "\<not> fe_Deleted e"
        from f(1) scan_spec_set[OF ws pl] obtain k' b where "content rc fs k' = Some b" "f = scanned_entry sha k' b"
          by blast
        with f e(2) show ?thesis by (auto simp: scanned_entry_def intro!: exI[of _ b])
      qed simp
      with sh e show ?thesis by blast
    qed
    with E M \<open>fs' = fs\<close> show ?thesis by simp
  qed
qed

lemma HandleManifest_effect:
  assumes "inv db" "workspace rc fs" "plain rc fs" "ss_Root s = abs_str rc"
    "HandleManifest sha st s (db, fs) = (r, db', fs')"
  obtains db1 where "reconcileCloud sha st s (db, fs) = (db1, fs)" "inv db'" "idx db' = idx db1" "fs' = fs"
    "\<forall>es. r = Inr es \<longrightarrow> distinct (map fe_Path es) \<and> index_by fe_Path es = idx db' (ss_ProjectID s)"
proof -
  obtain db1 fs1 where rc: "reconcileCloud sha st s (db, fs) = (db1, fs1)" by fastforce
  note R = reconcileCloud_effect[OF assms(1-4) rc]
  obtain rm db2 where m: "rs_Manifest st (ss_ProjectID s) db1 = (rm, db2)" by fastforce
  note M = manifest[OF conjunct1[OF R] m]
  have "r = rm \<and> db' = db2 \<and> fs' = fs1" using assms(5) rc m by (auto simp: HandleManifest_def)
  with R M rc that[of db1] show thesis by simp
qed

text \<open>A download: the index's revision and size of the path, no digest, and the file's bytes.\<close>

lemma HandleGet_effect:
  assumes i: "inv db" and ws: "workspace rc fs" and pl: "plain rc fs" and root: "ss_Root s = abs_str rc"
    and h: "HandleGet st s path (db, fs) = (r, db', fs')"
  shows "inv db' \<and> idx db' = idx db \<and> leaf fs' = leaf fs \<and> workspace rc fs' \<and>
    (\<forall>e rd. r = Inr (e, rd) \<longrightarrow> (\<exists>rel e0. SafeRelPath path = Inr rel \<and>
       idx db (ss_ProjectID s) rel = Some e0 \<and> fe_Path e = rel \<and> fe_Size e = fe_Size e0 \<and>
       fe_Revision e = fe_Revision e0 \<and> fe_SHA256 e = '''' \<and>
       (\<forall>b. content rc fs rel = Some b \<longrightarrow> rd = \<lparr>rd_data = b, rd_fails = False\<rparr>)))"
proof (cases "SafeRelPath path")
  case (Inl e)
  with h i ws show ?thesis by (auto simp: HandleGet_def)
next
  case rel: (Inr rel)
  let ?pid = "ss_ProjectID s"
  obtain rcur db1 where cur0: "rs_Current st ?pid rel db = (rcur, db1)" by fastforce
  note C = current[OF i cur0]
  show ?thesis
  proof (cases rcur)
    case (Inl e)
    with h rel cur0 C ws show ?thesis by (auto simp: HandleGet_def)
  next
    case cur: (Inr x)
    obtain rv szx ex where x: "x = (rv, szx, ex)" by (cases x)
    have co: "(rv, szx, ex) = current_of (idx db ?pid) rel" using C cur x by simp
    obtain ro fs1 where op: "ds_Open (abs_str rc) rel fs = (ro, fs1)" by fastforce
    have O: "leaf fs1 = leaf fs \<and> workspace rc fs1 \<and>
        (\<forall>rd b. ro = Inr rd \<longrightarrow> content rc fs rel = Some b \<longrightarrow> rd = \<lparr>rd_data = b, rd_fails = False\<rparr>)"
      by (rule ds_Open_effect[OF ws pl op SafeRelPath_fixed[OF SafeRelPath_safe_rel[OF rel]]])
    show ?thesis
    proof (cases ex)
      case False
      with h rel cur0 cur x C ws show ?thesis by (auto simp: HandleGet_def)
    next
      case True
      then obtain e0 where e0: "idx db ?pid rel = Some e0" "rv = fe_Revision e0" "szx = fe_Size e0"
        using co by (auto simp: current_of_def split: option.splits)
      have "db' = db1 \<and> fs' = fs1 \<and> (\<forall>e rd. r = Inr (e, rd) \<longrightarrow> ro = Inr rd \<and>
          e = \<lparr>fe_Path = rel, fe_Size = szx, fe_SHA256 = '''', fe_Revision = rv, fe_Deleted = False\<rparr>)"
        using h rel cur0 cur x True op root by (auto simp: HandleGet_def split: sum.splits)
      with O C e0 rel show ?thesis by fastforce
    qed
  qed
qed

end

section \<open>What the handlers do when the store can be reached\<close>

text \<open>The index after a reconciliation lists exactly the visible files of the workspace.\<close>

definition mirrors :: "(bytes \<Rightarrow> string) \<Rightarrow> string list \<Rightarrow> node \<Rightarrow> index \<Rightarrow> bool" where
  "mirrors sha rc fs m \<longleftrightarrow>
     (\<forall>k. case m k of
        None \<Rightarrow> content rc fs k = None \<or> \<not> visible (segs k)
      | Some e \<Rightarrow> if fe_Deleted e then content rc fs k = None \<or> \<not> visible (segs k)
                  else visible (segs k) \<and> (\<exists>b. content rc fs k = Some b \<and> fe_SHA256 e = sha b))"

lemma scanned_commits_mem:
  assumes "f \<in> set scanned" "\<nexists>r. ix (fe_Path f) = Some r \<and> \<not> fe_Deleted r \<and> fe_SHA256 r = fe_SHA256 f"
  shows "fe_Path f \<in> fe_Path ` set (scanned_commits ix scanned)"
proof -
  from assms(2) obtain e where "e \<in> set (scanned_commits ix [f])" "fe_Path e = fe_Path f"
    by (cases "ix (fe_Path f)") (auto simp: scanned_commits_def)
  moreover have "set (scanned_commits ix [f]) \<subseteq> set (scanned_commits ix scanned)"
    using assms(1) by (auto simp: scanned_commits_def)
  ultimately show ?thesis by (metis image_eqI subsetD)
qed

lemma scanned_commits_nil:
  "(\<And>f. f \<in> set scanned \<Longrightarrow> \<exists>r. ix (fe_Path f) = Some r \<and> \<not> fe_Deleted r \<and> fe_SHA256 r = fe_SHA256 f) \<Longrightarrow>
     scanned_commits ix scanned = []"
proof (induction scanned)
  case (Cons f fs)
  obtain r where "ix (fe_Path f) = Some r \<and> \<not> fe_Deleted r \<and> fe_SHA256 r = fe_SHA256 f"
    using Cons.prems[of f] by auto
  moreover have "scanned_commits ix fs = []" using Cons by simp
  ultimately show ?case by (simp add: scanned_commits_def)
qed (simp add: scanned_commits_def)

lemma missing_commits_mem:
  "r \<in> set remote \<Longrightarrow> \<not> fe_Deleted r \<Longrightarrow> \<not> seen (fe_Path r) \<Longrightarrow>
     fe_Path r \<in> fe_Path ` set (missing_commits seen remote)"
  by (force simp: missing_commits_def tombstone_def image_iff)

lemma cloud_commits_mirror:
  fixes sha
  assumes ws: "workspace rc fs" and pl: "plain rc fs" and dr: "distinct (map fe_Path remote)"
  defines "cs \<equiv> cloud_commits (scan_spec sha rc fs) remote"
  shows "mirrors sha rc fs (index_by fe_Path remote ++ index_by fe_Path cs)"
proof -
  let ?sc = "scan_spec sha rc fs"
  let ?ix = "index_by fe_Path remote"
  have ds: "distinct (map fe_Path ?sc)" by (rule distinct_scan_spec[OF ws])
  have sc: "k \<in> fe_Path ` set ?sc \<longleftrightarrow> visible (segs k) \<and> content rc fs k \<noteq> None" for k
    by (rule scan_spec_paths[OF ws pl])
  have sc': "f \<in> set ?sc \<Longrightarrow> \<exists>b. content rc fs (fe_Path f) = Some b \<and> fe_SHA256 f = sha b" for f
    using scan_spec_set[OF ws pl, of f sha] by (auto simp: scanned_entry_def)
  have "case (?ix ++ index_by fe_Path cs) k of
        None \<Rightarrow> content rc fs k = None \<or> \<not> visible (segs k)
      | Some e \<Rightarrow> if fe_Deleted e then content rc fs k = None \<or> \<not> visible (segs k)
                  else visible (segs k) \<and> (\<exists>b. content rc fs k = Some b \<and> fe_SHA256 e = sha b)" for k
  proof (cases "index_by fe_Path cs k")
    case (Some e)
    then have e: "e \<in> set cs" "fe_Path e = k" by (auto dest: index_by_Some)
    from cloud_commit_shape[OF dr e(1)[unfolded cs_def]] show ?thesis
    proof (elim conjE disjE bexE)
      fix f assume f: "f \<in> set ?sc" "fe_Path e = fe_Path f" "fe_SHA256 e = fe_SHA256 f" "\<not> fe_Deleted e"
      have "k \<in> fe_Path ` set ?sc" using f(1,2) e(2) by auto
      with sc[of k] sc'[OF f(1)] f e(2) Some show ?thesis by (auto simp: map_add_def)
    next
      assume t: "e = tombstone (fe_Path e) (fe_Revision e)" "fe_Path e \<notin> fe_Path ` set ?sc"
      from t(1) have "fe_Deleted e" by (metis file_entry.select_convs(5) tombstone_def)
      with t(2) sc[of k] e(2) Some show ?thesis by (auto simp: map_add_def)
    qed
  next
    case None
    then have no: "k \<notin> fe_Path ` set cs" by (simp add: index_by_None_iff)
    show ?thesis
    proof (cases "k \<in> fe_Path ` set ?sc")
      case True
      then obtain f where f: "f \<in> set ?sc" "fe_Path f = k" by auto
      with no scanned_commits_mem[OF f(1), of ?ix] obtain r where r: "?ix k = Some r" "\<not> fe_Deleted r"
        "fe_SHA256 r = fe_SHA256 f" by (auto simp: cs_def cloud_commits_def)
      with None sc'[OF f(1)] f(2) True sc[of k] show ?thesis by (auto simp: map_add_def)
    next
      case False
      have "fe_Deleted r" if "?ix k = Some r" for r
        using index_by_Some[OF that] no False
          missing_commits_mem[of r remote "\<lambda>path. path \<in> set (map fe_Path ?sc)"]
        by (auto simp: cs_def cloud_commits_def)
      with False sc[of k] None show ?thesis by (auto simp: map_add_def split: option.split)
    qed
  qed
  then show ?thesis by (simp add: mirrors_def)
qed

lemma cloud_commits_mirrored:
  assumes ws: "workspace rc fs" and pl: "plain rc fs" and dr: "distinct (map fe_Path remote)"
    and m: "mirrors sha rc fs (index_by fe_Path remote)"
  shows "cloud_commits (scan_spec sha rc fs) remote = []"
proof -
  let ?sc = "scan_spec sha rc fs"
  have "\<exists>r. index_by fe_Path remote (fe_Path f) = Some r \<and> \<not> fe_Deleted r \<and> fe_SHA256 r = fe_SHA256 f"
    if f: "f \<in> set ?sc" for f
  proof -
    from f scan_spec_set[OF ws pl] obtain b where "content rc fs (fe_Path f) = Some b" "visible (segs (fe_Path f))"
      "fe_SHA256 f = sha b" by (auto simp: scanned_entry_def)
    with m[unfolded mirrors_def, rule_format, of "fe_Path f"] show ?thesis
      by (auto split: option.splits if_splits)
  qed
  then have "scanned_commits (index_by fe_Path remote) ?sc = []"
    by (rule scanned_commits_nil)
  moreover have "fe_Path r \<in> fe_Path ` set ?sc" if r: "r \<in> set remote" "\<not> fe_Deleted r" for r
  proof -
    from index_by_distinct[OF dr r(1)] m[unfolded mirrors_def, rule_format, of "fe_Path r"] r(2)
    obtain b where "visible (segs (fe_Path r))" "content rc fs (fe_Path r) = Some b" by auto
    then show ?thesis using scan_spec_paths[OF ws pl] by simp
  qed
  then have "missing_commits (\<lambda>path. path \<in> set (map fe_Path ?sc)) remote = []"
    by (auto simp: missing_commits_def filter_empty_conv)
  ultimately show ?thesis by (simp add: cloud_commits_def)
qed

context reachable_store
begin

lemma commits_up:
  assumes "inv db" "up pid db" "distinct (map fe_Path es)"
    and "db' = foldl (\<lambda>db e. snd (rs_Commit st pid e dev db)) db es"
  shows "inv db' \<and> up pid db' \<and> idx db' pid = idx db pid ++ index_by fe_Path es"
  using assms
proof (induction es arbitrary: db)
  case (Cons e es)
  obtain r db1 where c: "rs_Commit st pid e dev db = (r, db1)" by fastforce
  have db': "db' = foldl (\<lambda>db e. snd (rs_Commit st pid e dev db)) db1 es"
    using Cons.prems(4) c by simp
  note U = commit_up[OF Cons.prems(1,2) c] and C = commit[OF Cons.prems(1) c]
  have "distinct (map fe_Path es)" using Cons.prems(3) by simp
  from Cons.IH[OF conjunct1[OF C] conjunct2[OF U] this db']
  have IH: "inv db'" "up pid db'" "idx db' pid = idx db1 pid ++ index_by fe_Path es" by auto
  have t: "idx db1 pid = (idx db pid)(fe_Path e \<mapsto> e)" using U C by simp
  have eq: "(m(fe_Path e \<mapsto> e)) ++ index_by fe_Path es = m ++ index_by fe_Path (e # es)" for m
  proof (rule ext)
    fix k
    have "index_by fe_Path es (fe_Path e) = None" using Cons.prems(3) by (simp add: index_by_None_iff)
    moreover have "index_by fe_Path (e # es) = map_of (map (\<lambda>x. (fe_Path x, x)) (e # es))"
      by (rule index_by_eq_map_of[OF Cons.prems(3)])
    moreover have "distinct (map fe_Path es)" using Cons.prems(3) by simp
    then have "index_by fe_Path es = map_of (map (\<lambda>x. (fe_Path x, x)) es)"
      by (rule index_by_eq_map_of)
    ultimately show "((m(fe_Path e \<mapsto> e)) ++ index_by fe_Path es) k = (m ++ index_by fe_Path (e # es)) k"
      by (auto simp: map_add_def split: option.split)
  qed
  show ?case using IH(1,2) unfolding IH(3) t eq by simp
qed (simp add: index_by_def)

lemma reconcileCloud_up:
  assumes i: "inv db" and u: "up (ss_ProjectID s) db" and ws: "workspace rc fs" and pl: "plain rc fs"
    and root: "ss_Root s = abs_str rc"
    and h: "reconcileCloud sha st s (db, fs) = (db', fs')"
  shows "inv db' \<and> up (ss_ProjectID s) db' \<and> mirrors sha rc fs (idx db' (ss_ProjectID s)) \<and>
    (mirrors sha rc fs (idx db (ss_ProjectID s)) \<longrightarrow> idx db' = idx db)"
proof -
  let ?pid = "ss_ProjectID s"
  obtain rm db1 where m0: "rs_Manifest st ?pid db = (rm, db1)" by fastforce
  note M = manifest[OF i m0] and MU = manifest_up[OF i u m0]
  then obtain remote where r: "rm = Inr remote" by blast
  have sc: "ScanDir sha fs (abs_str rc) = (None, scan_spec sha rc fs)" by (rule ScanDir_spec[OF ws pl])
  let ?cs = "cloud_commits (scan_spec sha rc fs) remote"
  have db': "db' = foldl (\<lambda>db e. snd (rs_Commit st ?pid e ''cloud'' db)) db1 ?cs"
    using h m0 sc r root
    by (auto simp: reconcileCloud_def Let_def foldl_record_scanned foldl_record_missing cloud_commits_def)
  have dr: "distinct (map fe_Path remote)" and ir: "index_by fe_Path remote = idx db ?pid"
    using M r by auto
  have dc: "distinct (map fe_Path ?cs)" by (rule distinct_cloud_commits[OF distinct_scan_spec[OF ws] dr])
  have U: "inv db' \<and> up ?pid db' \<and> idx db' ?pid = idx db1 ?pid ++ index_by fe_Path ?cs"
    by (rule commits_up[OF conjunct1[OF M] conjunct2[OF MU] dc db'])
  have "mirrors sha rc fs (idx db' ?pid)"
    using cloud_commits_mirror[OF ws pl dr, of sha] U M ir by simp
  moreover have "idx db' = idx db" if "mirrors sha rc fs (idx db ?pid)"
    using cloud_commits_mirrored[OF ws pl dr, of sha] that db' M ir by simp
  ultimately show ?thesis using U by blast
qed

text \<open>A put whose base is current, whose content has the declared digest and which the mode and the
  quota admit, is accepted unless the file system refuses.\<close>

lemma HandlePut_succeeds:
  assumes i: "inv db" and u: "up (ss_ProjectID s) db" and ws: "workspace rc fs" and pl: "plain rc fs"
    and mx: "sane_max (ss_MaxBytes s)" and root: "ss_Root s = abs_str rc"
    and rel: "SafeRelPath path = Inr rel"
    and base: "current_of (idx db (ss_ProjectID s)) rel = (baseRev, old, ex)" "\<not> ex \<longrightarrow> baseRev = 0"
    and wt: "WriteTemp sha (abs_str rc) rel body (ss_MaxBytes s) rnd fs = (Inr (tmpID, decl, n), fs1)"
    and mode: "ss_Mode s = ''cleanup'' \<longrightarrow> sint n < sint old"
    and fit: "fits64 (total_size (idx db (ss_ProjectID s)))"
    and quota: "\<And>used. sint used = total_size (idx db (ss_ProjectID s)) \<Longrightarrow> ss_AllowQuota s used old n = None"
    and free: "\<not> is_dir fs1 (rc @ segs rel)"
  shows "fst (HandlePut sha st s path baseRev decl body rnd (db, fs)) = accepted (baseRev + 1)"
proof -
  let ?pid = "ss_ProjectID s"
  obtain rcur db1 where c0: "rs_Current st ?pid rel db = (rcur, db1)" by fastforce
  note C = current[OF i c0] and CU = current_up[OF i u c0]
  obtain rt db2 where t0: "rs_TotalSize st ?pid db1 = (rt, db2)" by fastforce
  note T = total[OF conjunct1[OF C] t0]
  from C CU fit have "\<exists>used. rt = Inr used" "up ?pid db2"
    using total_up[OF conjunct1[OF C] conjunct2[OF CU] _ t0] by auto
  then obtain used where used: "rt = Inr used" by blast
  with T C have al: "ss_AllowQuota s used old n = None" by (intro quota) auto
  obtain rp fs2 where p0: "Promote (abs_str rc) rel tmpID (baseRev + 1) fs1 = (rp, fs2)" by fastforce
  have "SafeRelPath rel = Inr rel" using SafeRelPath_fixed[OF SafeRelPath_safe_rel[OF rel]] .
  with Promote_after_WriteTemp[OF ws pl wt mx p0] free have "rp = None"
    by (auto split: option.splits)
  obtain rcm db3 where m0: "rs_Commit st ?pid \<lparr>fe_Path = rel, fe_Size = n, fe_SHA256 = decl,
      fe_Revision = baseRev + 1, fe_Deleted = False\<rparr> (ss_Device s) db2 = (rcm, db3)" by fastforce
  have "rcm = None" using commit_up[OF conjunct1[OF T] \<open>up ?pid db2\<close> m0] by blast
  then show ?thesis
    using rel c0 CU base wt mode t0 used al p0 \<open>rp = None\<close> m0 root
    by (auto simp: HandlePut_def Let_def)
qed

lemma HandleGet_up:
  assumes i: "inv db" and u: "up (ss_ProjectID s) db" and ws: "workspace rc fs"
    and root: "ss_Root s = abs_str rc" and rel: "SafeRelPath path = Inr rel"
    and e0: "idx db (ss_ProjectID s) rel = Some e0" and c: "content rc fs rel = Some b"
  shows "fst (HandleGet st s path (db, fs)) =
    Inr (\<lparr>fe_Path = rel, fe_Size = fe_Size e0, fe_SHA256 = '''', fe_Revision = fe_Revision e0,
          fe_Deleted = False\<rparr>, \<lparr>rd_data = b, rd_fails = False\<rparr>)"
proof -
  obtain rcur db1 where c0: "rs_Current st (ss_ProjectID s) rel db = (rcur, db1)" by fastforce
  have "SafeRelPath rel = Inr rel" using SafeRelPath_fixed[OF SafeRelPath_safe_rel[OF rel]] .
  from ds_Open_existing[OF ws this c] show ?thesis
    using c0 current_up[OF i u c0] rel root e0 by (simp add: HandleGet_def current_of_def)
qed

end

end
