(* ===== verification/Sync_History.thy ===== *)
theory Sync_History
  imports Sync_Server
begin

text \<open>
  Histories of one project's workspace on the server: any sequence of handler runs of any sessions
  of the project, and of edits by the programs in its container, which change files without
  telling the index. The project lock makes each handler run one step. The invariant bounds the
  revisions by the number of steps; from it follows that a revision number names one version of a
  path for ever, which is what makes the check of the base revision safe.
\<close>

definition rev_of :: "file_entry option \<Rightarrow> int64" where
  "rev_of eo = (case eo of None \<Rightarrow> 0 | Some e \<Rightarrow> fe_Revision e)"

definition entry_ok :: "int \<Rightarrow> string \<Rightarrow> file_entry \<Rightarrow> bool" where
  "entry_ok n k e \<longleftrightarrow> fe_Path e = k \<and> 0 \<le> sint (fe_Revision e) \<and> sint (fe_Revision e) \<le> n \<and>
     0 \<le> sint (fe_Size e) \<and> (fe_Deleted e \<longrightarrow> fe_Size e = 0)"

definition index_ok :: "int \<Rightarrow> index \<Rightarrow> bool" where
  "index_ok n m \<longleftrightarrow> (\<forall>k e. m k = Some e \<longrightarrow> entry_ok n k e)"

text \<open>One step of an index: a path keeps its entry or takes the next revision.\<close>

definition index_step :: "index \<Rightarrow> index \<Rightarrow> bool" where
  "index_step m m' \<longleftrightarrow>
     (\<forall>k. m' k = m k \<or>
       (\<exists>e. m' k = Some e \<and> fe_Path e = k \<and> fe_Revision e = rev_of (m k) + 1 \<and>
            0 \<le> sint (fe_Size e) \<and> (fe_Deleted e \<longrightarrow> fe_Size e = 0)))"

text \<open>The entries seen later: no path disappears, revisions do not go back, and an entry with the
  same revision is the same entry.\<close>

definition index_later :: "index \<Rightarrow> index \<Rightarrow> bool" where
  "index_later m m' \<longleftrightarrow>
     (\<forall>k e. m k = Some e \<longrightarrow> (\<exists>e'. m' k = Some e' \<and> sint (fe_Revision e) \<le> sint (fe_Revision e') \<and>
        (fe_Revision e = fe_Revision e' \<longrightarrow> e = e')))"

text \<open>A workspace whose files are smaller than 2^63 bytes.\<close>

definition small_files :: "string list \<Rightarrow> node \<Rightarrow> bool" where
  "small_files rc fs \<longleftrightarrow> (\<forall>r b. leaf fs (rc @ r) = Some (File b) \<longrightarrow> int (length b) < 2 ^ 63)"

definition ws_ok :: "string list \<Rightarrow> node \<Rightarrow> bool" where
  "ws_ok rc fs \<longleftrightarrow> workspace rc fs \<and> plain rc fs \<and> small_files rc fs"

inductive server_step ::
    "(bytes \<Rightarrow> string) \<Rightarrow> 's rev_store \<Rightarrow> string \<Rightarrow> string list \<Rightarrow> 's \<times> node \<Rightarrow> 's \<times> node \<Rightarrow> bool"
  for sha st pid rc where
  Put: "ss_ProjectID s = pid \<Longrightarrow> ss_Root s = abs_str rc \<Longrightarrow> sane_max (ss_MaxBytes s) \<Longrightarrow>
        fresh_tmp rnd rc fs \<Longrightarrow>
        HandlePut sha st s path baseRev decl body rnd (db, fs) = (res, db', fs') \<Longrightarrow>
        server_step sha st pid rc (db, fs) (db', fs')"
| Delete: "ss_ProjectID s = pid \<Longrightarrow> ss_Root s = abs_str rc \<Longrightarrow>
        HandleDelete st s path baseRev (db, fs) = (res, db', fs') \<Longrightarrow>
        server_step sha st pid rc (db, fs) (db', fs')"
| ListFiles: "ss_ProjectID s = pid \<Longrightarrow> ss_Root s = abs_str rc \<Longrightarrow>
        HandleManifest sha st s (db, fs) = (r, db', fs') \<Longrightarrow>
        server_step sha st pid rc (db, fs) (db', fs')"
| Get: "ss_ProjectID s = pid \<Longrightarrow> ss_Root s = abs_str rc \<Longrightarrow>
        HandleGet st s path (db, fs) = (g, db', fs') \<Longrightarrow>
        server_step sha st pid rc (db, fs) (db', fs')"
| CloudEdit: "ws_ok rc fs' \<Longrightarrow> server_step sha st pid rc (db, fs) (db, fs')"

inductive_cases server_stepE: "server_step sha st pid rc x y"

inductive server_run ::
    "(bytes \<Rightarrow> string) \<Rightarrow> 's rev_store \<Rightarrow> string \<Rightarrow> string list \<Rightarrow> nat \<Rightarrow> 's \<times> node \<Rightarrow> 's \<times> node \<Rightarrow> bool"
  for sha st pid rc where
  Start: "server_run sha st pid rc 0 x x"
| More: "server_run sha st pid rc n x y \<Longrightarrow> server_step sha st pid rc y z \<Longrightarrow>
        server_run sha st pid rc (Suc n) x z"

section \<open>Index steps\<close>

lemma index_step_refl: "index_step m m"
  by (simp add: index_step_def)

lemma index_later_refl: "index_later m m"
  by (simp add: index_later_def)

lemma index_later_trans:
  assumes "index_later a b" "index_later b c"
  shows "index_later a c"
  unfolding index_later_def
proof (intro allI impI)
  fix k e assume "a k = Some e"
  with assms(1) obtain e' where e': "b k = Some e'" "sint (fe_Revision e) \<le> sint (fe_Revision e')"
    "fe_Revision e = fe_Revision e' \<longrightarrow> e = e'" unfolding index_later_def by blast
  with assms(2) obtain e'' where e'': "c k = Some e''" "sint (fe_Revision e') \<le> sint (fe_Revision e'')"
    "fe_Revision e' = fe_Revision e'' \<longrightarrow> e' = e''" unfolding index_later_def by blast
  have "e = e''" if q: "fe_Revision e = fe_Revision e''"
  proof -
    have "sint (fe_Revision e) = sint (fe_Revision e')" using q e'(2) e''(2) by simp
    then have "fe_Revision e = fe_Revision e'" by (rule signed_word_eqI)
    with q e'(3) e''(3) show ?thesis by simp
  qed
  with e'(2) e''(1,2) show "\<exists>e'. c k = Some e' \<and> sint (fe_Revision e) \<le> sint (fe_Revision e') \<and>
      (fe_Revision e = fe_Revision e' \<longrightarrow> e = e')"
    by (intro exI[of _ e'']) simp
qed

lemma sint_next:
  assumes "0 \<le> sint (r :: int64)" "sint r < 2 ^ 63 - 1"
  shows "sint (r + 1) = sint r + 1"
  using sint_add64[of r 1] assms by (simp add: fits64_def)

lemma index_ok_rev: "index_ok n m \<Longrightarrow> 0 \<le> n \<Longrightarrow> 0 \<le> sint (rev_of (m k)) \<and> sint (rev_of (m k)) \<le> n"
  by (auto simp: index_ok_def entry_ok_def rev_of_def split: option.split)

lemma index_step_ok:
  assumes "index_step m m'" "index_ok n m" "0 \<le> n" "n < 2 ^ 63 - 1"
  shows "index_ok (n + 1) m' \<and> index_later m m'"
proof -
  have up: "entry_ok (n + 1) k e' \<and> sint (fe_Revision e') = sint (rev_of (m k)) + 1"
    if "m' k = Some e'" "m' k \<noteq> m k" for k e'
  proof -
    from assms(1) that have e': "fe_Path e' = k" "fe_Revision e' = rev_of (m k) + 1"
      "0 \<le> sint (fe_Size e')" "fe_Deleted e' \<longrightarrow> fe_Size e' = 0"
      by (auto simp: index_step_def dest!: spec[of _ k])
    note r = index_ok_rev[OF assms(2,3), of k]
    have "sint (fe_Revision e') = sint (rev_of (m k)) + 1"
      unfolding e'(2) using r assms(4) by (intro sint_next) auto
    with e' r show ?thesis by (simp add: entry_ok_def)
  qed
  have "index_ok (n + 1) m'"
    unfolding index_ok_def
  proof (intro allI impI)
    fix k e' assume m': "m' k = Some e'"
    show "entry_ok (n + 1) k e'"
    proof (cases "m' k = m k")
      case True
      with m' assms(2) have "entry_ok n k e'" by (simp add: index_ok_def)
      then show ?thesis by (simp add: entry_ok_def)
    qed (use up[OF m'] in blast)
  qed
  moreover have "index_later m m'"
    unfolding index_later_def
  proof (intro allI impI)
    fix k e assume m: "m k = Some e"
    show "\<exists>e'. m' k = Some e' \<and> sint (fe_Revision e) \<le> sint (fe_Revision e') \<and>
        (fe_Revision e = fe_Revision e' \<longrightarrow> e = e')"
    proof (cases "m' k = m k")
      case False
      with assms(1) obtain e' where e': "m' k = Some e'" by (auto simp: index_step_def)
      from up[OF this False] m have "sint (fe_Revision e') = sint (fe_Revision e) + 1"
        by (simp add: rev_of_def)
      with e' show ?thesis by auto
    qed (use m in simp)
  qed
  ultimately show ?thesis by blast
qed

lemma committed_step:
  assumes "fe_Revision e = rev_of (m (fe_Path e)) + 1" "0 \<le> sint (fe_Size e)"
    "fe_Deleted e \<longrightarrow> fe_Size e = 0"
  shows "index_step m (m(fe_Path e \<mapsto> e))"
  using assms by (auto simp: index_step_def)

lemma ws_ok_leaf:
  assumes "ws_ok rc fs" "workspace rc fs'" "\<forall>r. leaf fs' (rc @ r) = leaf fs (rc @ r) \<or>
      leaf fs' (rc @ r) = None \<or> (\<exists>b. leaf fs' (rc @ r) = Some (File b) \<and> int (length b) < 2 ^ 63)"
  shows "ws_ok rc fs'"
proof -
  have "plain rc fs'"
    unfolding plain_iff[OF assms(2)]
  proof (intro allI notI)
    fix r t assume l: "leaf fs' (rc @ r) = Some (Link t)"
    have "leaf fs (rc @ r) \<noteq> Some (Link t)" using assms(1) plain_no_link by (auto simp: ws_ok_def)
    with l assms(3)[rule_format, of r] show False by auto
  qed
  moreover have "small_files rc fs'"
    unfolding small_files_def
  proof (intro allI impI)
    fix r b assume l: "leaf fs' (rc @ r) = Some (File b)"
    have "leaf fs (rc @ r) = Some (File b) \<Longrightarrow> int (length b) < 2 ^ 63"
      using assms(1) by (auto simp: ws_ok_def small_files_def)
    with l assms(3)[rule_format, of r] show "int (length b) < 2 ^ 63" by auto
  qed
  ultimately show ?thesis using assms(2) by (simp add: ws_ok_def)
qed

lemma ws_ok_same: "ws_ok rc fs \<Longrightarrow> workspace rc fs' \<Longrightarrow> leaf fs' = leaf fs \<Longrightarrow> ws_ok rc fs'"
  by (rule ws_ok_leaf) auto

lemma ws_ok_put:
  assumes "ws_ok rc fs" "workspace rc fs'" "leaf fs' = (leaf fs)(rc @ q \<mapsto> File b)" "int (length b) < 2 ^ 63"
  shows "ws_ok rc fs'"
  using assms by (intro ws_ok_leaf[OF assms(1,2)]) auto

lemma ws_ok_del:
  assumes "ws_ok rc fs" "workspace rc fs'" "leaf fs' = (leaf fs)(rc @ q := None)"
  shows "ws_ok rc fs'"
  using assms by (intro ws_ok_leaf[OF assms(1,2)]) auto

section \<open>Steps and runs on any store\<close>

context revision_store
begin

definition server_ok :: "int \<Rightarrow> string \<Rightarrow> string list \<Rightarrow> 's \<times> node \<Rightarrow> bool" where
  "server_ok n pid rc x \<longleftrightarrow> inv (fst x) \<and> ws_ok rc (snd x) \<and> index_ok n (idx (fst x) pid)"

lemma put_step:
  assumes "inv db" "ws_ok rc fs" "ss_ProjectID s = pid" "ss_Root s = abs_str rc" "sane_max (ss_MaxBytes s)"
    "fresh_tmp rnd rc fs" "HandlePut sha st s path baseRev decl body rnd (db, fs) = (res, db', fs')"
  shows "inv db' \<and> ws_ok rc fs' \<and> index_step (idx db pid) (idx db' pid)"
proof -
  have ws: "workspace rc fs" "plain rc fs" using assms(2) by (simp_all add: ws_ok_def)
  have cstep: "index_step (idx db pid) (committed pid \<lparr>fe_Path = rel, fe_Size = of_nat (length (rd_data body)),
      fe_SHA256 = decl, fe_Revision = baseRev + 1, fe_Deleted = False\<rparr> (idx db) pid)"
    if c: "case idx db pid rel of None \<Rightarrow> baseRev = 0 | Some e \<Rightarrow> fe_Revision e = baseRev"
      "int (length (rd_data body)) \<le> sint (ss_MaxBytes s)" for rel
  proof -
    have "int (length (rd_data body)) < 2 ^ 63" using c(2) assms(5) by (simp add: sane_max_def)
    moreover have "baseRev = rev_of (idx db pid rel)" using c(1) by (simp add: rev_of_def split: option.splits)
    ultimately show ?thesis
      using committed_step[of "\<lparr>fe_Path = rel, fe_Size = of_nat (length (rd_data body)),
        fe_SHA256 = decl, fe_Revision = baseRev + 1, fe_Deleted = False\<rparr>" "idx db pid"]
      by (simp add: sint_length)
  qed
  show ?thesis
  proof (cases "pr_OK res")
    case True
    from HandlePut_accepted[OF assms(1) ws assms(5,4,7) True] assms(3) obtain rel where R:
      "case idx db pid rel of None \<Rightarrow> baseRev = 0 | Some e \<Rightarrow> fe_Revision e = baseRev"
      "int (length (rd_data body)) \<le> sint (ss_MaxBytes s)" "inv db'" "workspace rc fs'"
      "leaf fs' = (leaf fs)(rc @ segs rel \<mapsto> File (rd_data body))"
      "idx db' = committed pid \<lparr>fe_Path = rel, fe_Size = of_nat (length (rd_data body)), fe_SHA256 = decl,
         fe_Revision = baseRev + 1, fe_Deleted = False\<rparr> (idx db)"
      by blast
    then show ?thesis
      using cstep[OF R(1,2)] ws_ok_put[OF assms(2) R(4,5)] assms(5) by (simp add: sane_max_def)
  next
    case False
    note H = HandlePut_rejected[OF assms(1) ws assms(5,6,4,7) False]
    then have i: "inv db'" "workspace rc fs'" by blast+
    from H consider "idx db' = idx db" "leaf fs' = leaf fs"
      | rel where "case idx db pid rel of None \<Rightarrow> baseRev = 0 | Some e \<Rightarrow> fe_Revision e = baseRev"
        "int (length (rd_data body)) \<le> sint (ss_MaxBytes s)"
        "leaf fs' = (leaf fs)(rc @ segs rel \<mapsto> File (rd_data body))"
        "idx db' = idx db \<or> idx db' = committed pid \<lparr>fe_Path = rel, fe_Size = of_nat (length (rd_data body)),
           fe_SHA256 = decl, fe_Revision = baseRev + 1, fe_Deleted = False\<rparr> (idx db)"
      using assms(3) by blast
    then show ?thesis
    proof cases
      case 1
      with i ws_ok_same[OF assms(2) i(2)] index_step_refl show ?thesis by simp
    next
      case 2
      then show ?thesis
        using i ws_ok_put[OF assms(2) i(2) 2(3)] assms(5) cstep[OF 2(1,2)] index_step_refl
        by (auto simp: sane_max_def)
    qed
  qed
qed

lemma delete_step:
  assumes "inv db" "ws_ok rc fs" "ss_ProjectID s = pid" "ss_Root s = abs_str rc"
    "HandleDelete st s path baseRev (db, fs) = (res, db', fs')"
  shows "inv db' \<and> ws_ok rc fs' \<and> index_step (idx db pid) (idx db' pid)"
proof -
  have ws: "workspace rc fs" "plain rc fs" using assms(2) by (simp_all add: ws_ok_def)
  note D = HandleDelete_effect[OF assms(1) ws assms(4,5)]
  have i: "inv db'" "workspace rc fs'" using D by blast+
  have t: "index_step (idx db pid) (committed pid (tombstone rel (baseRev + 1)) (idx db) pid)"
    if "idx db pid rel = Some e" "fe_Revision e = baseRev" for rel e
    using committed_step[of "tombstone rel (baseRev + 1)" "idx db pid"] that
    by (simp add: tombstone_def rev_of_def)
  consider "idx db' = idx db" "leaf fs' = leaf fs"
    | rel e where "idx db pid rel = Some e" "fe_Revision e = baseRev" "leaf fs' = (leaf fs)(rc @ segs rel := None)"
      "idx db' = idx db \<or> idx db' = committed pid (tombstone rel (baseRev + 1)) (idx db)"
    using conjunct2[OF conjunct2[OF D]] assms(3)
    by (cases "pr_OK res") (auto split: option.splits)
  then show ?thesis
  proof cases
    case 1
    with i ws_ok_same[OF assms(2) i(2)] index_step_refl show ?thesis by simp
  next
    case 2
    then show ?thesis
      using i ws_ok_del[OF assms(2) i(2) 2(3)] t[OF 2(1,2)] index_step_refl by auto
  qed
qed

lemma manifest_step:
  assumes "inv db" "ws_ok rc fs" "ss_ProjectID s = pid" "ss_Root s = abs_str rc"
    "HandleManifest sha st s (db, fs) = (r, db', fs')"
  shows "inv db' \<and> ws_ok rc fs' \<and> index_step (idx db pid) (idx db' pid)"
proof -
  have ws: "workspace rc fs" "plain rc fs" "small_files rc fs" using assms(2) by (simp_all add: ws_ok_def)
  from HandleManifest_effect[OF assms(1) ws(1,2) assms(4,5)] obtain db1 where H:
    "reconcileCloud sha st s (db, fs) = (db1, fs)" "inv db'" "idx db' = idx db1" "fs' = fs" by metis
  note R = reconcileCloud_effect[OF assms(1) ws(1,2) assms(4) H(1), unfolded assms(3)]
  have "index_step (idx db pid) (idx db1 pid)"
    unfolding index_step_def
  proof (intro allI)
    fix k
    from R consider "idx db1 pid k = idx db pid k"
      | e b where "idx db1 pid k = Some e" "fe_Revision e = rev_of (idx db pid k) + 1" "content rc fs k = Some b"
          "e = (scanned_entry sha k b)\<lparr>fe_Revision := fe_Revision e\<rparr>"
      | e where "idx db1 pid k = Some e" "fe_Revision e = rev_of (idx db pid k) + 1" "e = tombstone k (fe_Revision e)"
      unfolding rev_of_def by blast
    then show "idx db1 pid k = idx db pid k \<or> (\<exists>e. idx db1 pid k = Some e \<and> fe_Path e = k \<and>
        fe_Revision e = rev_of (idx db pid k) + 1 \<and> 0 \<le> sint (fe_Size e) \<and> (fe_Deleted e \<longrightarrow> fe_Size e = 0))"
    proof cases
      case 2
      have "leaf fs (rc @ segs k) = Some (File b)" using 2(3) by (auto simp: content_def split: option.splits node.splits)
      with ws(3) have "int (length b) < 2 ^ 63" by (auto simp: small_files_def)
      moreover have "fe_Path e = k" "fe_Size e = of_nat (length b)" "\<not> fe_Deleted e"
        by (subst 2(4), simp add: scanned_entry_def)+
      ultimately show ?thesis using 2(1,2) by (simp add: sint_length)
    next
      case 3
      have "fe_Path e = k" "fe_Size e = 0" by (subst 3(3), simp add: tombstone_def)+
      with 3(1,2) show ?thesis by simp
    qed simp
  qed
  with H assms(2) show ?thesis by simp
qed

lemma server_step_effect:
  assumes "server_step sha st pid rc x y" "inv (fst x)" "ws_ok rc (snd x)"
  shows "inv (fst y) \<and> ws_ok rc (snd y) \<and> index_step (idx (fst x) pid) (idx (fst y) pid)"
  using assms
proof (cases rule: server_step.cases)
  case (Put s rnd fs path baseRev decl body db res db' fs')
  with assms(2,3) put_step[of db rc fs s pid] show ?thesis by simp
next
  case (Delete s path baseRev db fs res db' fs')
  with assms(2,3) delete_step[of db rc fs s pid] show ?thesis by simp
next
  case (ListFiles s db fs r db' fs')
  with assms(2,3) manifest_step[of db rc fs s pid] show ?thesis by simp
next
  case (Get s path db fs g db' fs')
  with assms(2,3) have "inv db' \<and> idx db' = idx db \<and> leaf fs' = leaf fs \<and> workspace rc fs'"
    using HandleGet_effect[of db rc fs s path g db' fs'] by (simp add: ws_ok_def)
  with Get assms(3) ws_ok_same[of rc fs fs'] index_step_refl show ?thesis by simp
next
  case (CloudEdit fs' db fs)
  with assms index_step_refl show ?thesis by simp
qed

lemma server_run_effect:
  assumes "server_run sha st pid rc n x y" "server_ok m pid rc x" "0 \<le> m" "m + int n < 2 ^ 63"
  shows "server_ok (m + int n) pid rc y \<and> index_later (idx (fst x) pid) (idx (fst y) pid)"
  using assms
proof (induction rule: server_run.induct)
  case (Start x)
  then show ?case by (simp add: index_later_refl)
next
  case (More n x y z)
  then have y: "server_ok (m + int n) pid rc y" "index_later (idx (fst x) pid) (idx (fst y) pid)" by auto
  then have "inv (fst y)" "ws_ok rc (snd y)" "index_ok (m + int n) (idx (fst y) pid)"
    by (auto simp: server_ok_def)
  with server_step_effect[OF More.hyps(2)] index_step_ok[of "idx (fst y) pid" "idx (fst z) pid" "m + int n"] More.prems
  have "inv (fst z)" "ws_ok rc (snd z)" "index_ok (m + int n + 1) (idx (fst z) pid)"
    "index_later (idx (fst y) pid) (idx (fst z) pid)" by auto
  with index_later_trans[OF y(2)] show ?case by (simp add: server_ok_def add.commute add.left_commute)
qed

text \<open>No lost update: once a put on a base was accepted, no later put or delete on the same base is.\<close>

lemma stale_put_rejected:
  assumes ok: "server_ok m pid rc (db, fs)" "0 \<le> m" "m + 1 + int n < 2 ^ 63"
    and s: "ss_ProjectID s = pid" "ss_Root s = abs_str rc" "sane_max (ss_MaxBytes s)" "fresh_tmp rnd rc fs"
    and put: "HandlePut sha st s path baseRev decl body rnd (db, fs) = (res, db1, fs1)" "pr_OK res"
    and rel: "SafeRelPath path = Inr rel"
    and run: "server_run sha st pid rc n (db1, fs1) (db2, fs2)"
    and s2: "ss_ProjectID s2 = pid" "ss_Root s2 = abs_str rc" "sane_max (ss_MaxBytes s2)"
    and rel2: "SafeRelPath path2 = Inr rel"
  shows "\<not> pr_OK (fst (HandlePut sha st s2 path2 baseRev decl2 body2 rnd2 (db2, fs2))) \<and>
    \<not> pr_OK (fst (HandleDelete st s2 path2 baseRev (db2, fs2)))"
proof -
  from ok have i: "inv db" "ws_ok rc fs" "index_ok m (idx db pid)" by (auto simp: server_ok_def)
  then have ws: "workspace rc fs" "plain rc fs" by (simp_all add: ws_ok_def)
  from HandlePut_accepted[OF i(1) ws s(3,2) put] s(1) rel obtain e where e:
    "idx db1 pid rel = Some e" "fe_Revision e = baseRev + 1"
    "case idx db pid rel of None \<Rightarrow> baseRev = 0 | Some e \<Rightarrow> fe_Revision e = baseRev"
    by auto
  have b: "baseRev = rev_of (idx db pid rel)" using e(3) by (simp add: rev_of_def split: option.splits)
  have "server_step sha st pid rc (db, fs) (db1, fs1)" using server_step.Put[OF s(1-4) put(1)] .
  from server_step_effect[OF this] i index_step_ok[of "idx db pid" "idx db1 pid" m] ok(2,3)
  have "server_ok (m + 1) pid rc (db1, fs1)" by (auto simp: server_ok_def)
  from server_run_effect[OF run this] ok(2,3)
  have r: "server_ok (m + 1 + int n) pid rc (db2, fs2)" "index_later (idx db1 pid) (idx db2 pid)" by auto
  from r(2) e obtain e2 where e2: "idx db2 pid rel = Some e2" "sint (baseRev + 1) \<le> sint (fe_Revision e2)"
    unfolding index_later_def by metis
  have "sint (baseRev + 1) = sint baseRev + 1"
    using index_ok_rev[OF i(3) ok(2), of rel] ok(3) b by (intro sint_next) auto
  with e2(2) have ne: "fe_Revision e2 \<noteq> baseRev" by auto
  from r(1) have i2: "inv db2" "workspace rc fs2" "plain rc fs2" by (auto simp: server_ok_def ws_ok_def)
  obtain r2 db3 fs3 where p2: "HandlePut sha st s2 path2 baseRev decl2 body2 rnd2 (db2, fs2) = (r2, db3, fs3)"
    by (cases "HandlePut sha st s2 path2 baseRev decl2 body2 rnd2 (db2, fs2)") auto
  have "\<not> pr_OK r2"
  proof
    assume "pr_OK r2"
    from HandlePut_accepted[OF i2 s2(3,2) p2 this] rel2 e2(1) ne s2(1) show False by auto
  qed
  moreover obtain r3 db4 fs4 where d2: "HandleDelete st s2 path2 baseRev (db2, fs2) = (r3, db4, fs4)"
    by (cases "HandleDelete st s2 path2 baseRev (db2, fs2)") auto
  have "\<not> pr_OK r3"
    using HandleDelete_effect[OF i2 s2(2) d2] rel2 e2(1) ne s2(1) by auto
  ultimately show ?thesis using p2 d2 by simp
qed

text \<open>Quota: an accepted put of a session with the storage gate keeps the project within the limit,
  or at least does not add to it.\<close>

lemma put_within_quota:
  assumes ok: "server_ok m pid rc (db, fs)"
    and s: "ss_ProjectID s = pid" "ss_Root s = abs_str rc" "sane_max (ss_MaxBytes s)"
    and gate: "ss_AllowQuota s = Gate_Allow g"
    and fit: "total_size (idx db pid) + sint (ss_MaxBytes s) < 2 ^ 63"
    and put: "HandlePut sha st s path baseRev decl body rnd (db, fs) = (res, db', fs')" "pr_OK res"
  shows "total_size (idx db' pid) \<le> max (total_size (idx db pid)) (sint (g_Limit g))"
proof -
  from ok have i: "inv db" "workspace rc fs" "plain rc fs" "index_ok m (idx db pid)"
    by (auto simp: server_ok_def ws_ok_def)
  from HandlePut_accepted[OF i(1-3) s(3,2) put] s(1) gate obtain rel used where R:
    "int (length (rd_data body)) \<le> sint (ss_MaxBytes s)"
    "sint used = total_size (idx db pid)"
    "Gate_Allow g used (fst (snd (current_of (idx db pid) rel))) (of_nat (length (rd_data body))) = None"
    "idx db' = committed pid \<lparr>fe_Path = rel, fe_Size = of_nat (length (rd_data body)), fe_SHA256 = decl,
       fe_Revision = baseRev + 1, fe_Deleted = False\<rparr> (idx db)"
    by auto
  let ?old = "fst (snd (current_of (idx db pid) rel))" and ?n = "of_nat (length (rd_data body)) :: int64"
  have fin: "finite (dom (idx db pid))" by (rule finite_idx[OF i(1)])
  have pos: "\<forall>j e. idx db pid j = Some e \<longrightarrow> 0 \<le> sint (fe_Size e)" using i(4) by (auto simp: index_ok_def entry_ok_def)
  have old: "live_size (idx db pid rel) = sint ?old"
    using i(4) by (auto simp: current_of_def index_ok_def entry_ok_def split: option.split)
  have n: "sint ?n = int (length (rd_data body))" using R(1) s(3) by (intro sint_length) (simp add: sane_max_def)
  note ge = total_size_ge[OF fin pos, of rel]
  have "0 \<le> sint ?old" using pos by (auto simp: current_of_def split: option.split)
  then have f: "fits64 (sint used - sint ?old)" "fits64 (sint used - sint ?old + sint ?n)"
    using R(1,2) n ge old fit s(3) by (auto simp: fits64_def sane_max_def)
  have "total_size (idx db' pid) = total_size (idx db pid) - sint ?old + sint ?n"
    using R(4) total_size_update[OF fin] old by simp
  with Gate_Allow_iff[OF f, of g] R(2,3) show ?thesis by auto
qed

end

end
