(* ===== verification/Go_Encoding.thy ===== *)
theory Go_Encoding
  imports Go_Prelude
begin

text \<open>
  Package \<open>encoding/base64\<close> without padding (\<open>RawStdEncoding\<close>, \<open>RawURLEncoding\<close>) and the decimal
  numerals of \<open>fmt\<close>. The decoder is Go's non-strict one: it drops carriage returns and line
  feeds, rejects a byte outside the alphabet and a last group of one character, and ignores the
  unused low bits of a short last group.
\<close>

section \<open>Base64\<close>

definition b64_upper :: string where
  "b64_upper = ''ABCDEFGHIJKLMNOPQRSTUVWXYZabcdefghijklmnopqrstuvwxyz0123456789''"

definition b64_std :: string where "b64_std = b64_upper @ ''+/''"

definition b64_url :: string where "b64_url = b64_upper @ ''-_''"

fun sextets :: "nat list \<Rightarrow> nat list" where
  "sextets [] = []"
| "sextets [a] = [a div 4, a mod 4 * 16]"
| "sextets [a, b] = [a div 4, a mod 4 * 16 + b div 16, b mod 16 * 4]"
| "sextets (a # b # c # r) =
     (a div 4) # (a mod 4 * 16 + b div 16) # (b mod 16 * 4 + c div 64) # (c mod 64) # sextets r"

fun octets :: "nat list \<Rightarrow> nat list option" where
  "octets [] = Some []"
| "octets [w] = None"
| "octets [w, x] = Some [w * 4 + x div 16]"
| "octets [w, x, y] = Some [w * 4 + x div 16, x mod 16 * 16 + y div 4]"
| "octets (w # x # y # z # r) =
     (case octets r of None \<Rightarrow> None
      | Some os \<Rightarrow> Some ((w * 4 + x div 16) # (x mod 16 * 16 + y div 4) # (y mod 4 * 64 + z) # os))"

fun index_in :: "string \<Rightarrow> char \<Rightarrow> nat option" where
  "index_in [] c = None"
| "index_in (x # xs) c = (if x = c then Some 0 else map_option Suc (index_in xs c))"

fun all_some :: "'a option list \<Rightarrow> 'a list option" where
  "all_some [] = Some []"
| "all_some (None # r) = None"
| "all_some (Some x # r) = map_option ((#) x) (all_some r)"

definition b64_encode :: "string \<Rightarrow> bytes \<Rightarrow> string" where
  "b64_encode al bs = map ((!) al) (sextets (map of_char bs))"

definition b64_decode :: "string \<Rightarrow> string \<Rightarrow> bytes option" where
  "b64_decode al s =
     (case all_some (map (index_in al) (filter (\<lambda>c. c \<noteq> CHR 0x0A \<and> c \<noteq> CHR 0x0D) s)) of
        None \<Rightarrow> None
      | Some vs \<Rightarrow> map_option (map char_of) (octets vs))"

lemma sextets_bound: "\<forall>a \<in> set bs. a < 256 \<Longrightarrow> \<forall>x \<in> set (sextets bs). x < 64"
proof (induction bs rule: sextets.induct)
  case (2 a)
  then show ?case by auto
next
  case (3 a b)
  then have "a div 4 < 64" "b div 16 < 16" by auto
  moreover have "a mod 4 * 16 \<le> 48" "b mod 16 * 4 \<le> 60" by auto
  ultimately show ?case by auto
next
  case (4 a b c r)
  then have "a div 4 < 64" "b div 16 < 16" "c div 64 < 4" by auto
  moreover have "a mod 4 * 16 \<le> 48" "b mod 16 * 4 \<le> 60" "c mod 64 < 64" by auto
  ultimately show ?case using 4 by auto
qed simp

lemma octets_sextets: "\<forall>a \<in> set bs. a < 256 \<Longrightarrow> octets (sextets bs) = Some bs"
proof (induction bs rule: sextets.induct)
  case (3 a b)
  have "a mod 4 * 16 + b div 16 < 64" using 3 by auto
  then show ?case using 3 by (auto simp: div_mult_mod_eq)
next
  case (4 a b c r)
  have "b div 16 < 16" "c div 64 < 4" using 4 by auto
  then show ?case using 4 by (auto simp: div_mult_mod_eq)
qed auto

lemma index_in_nth: "distinct al \<Longrightarrow> n < length al \<Longrightarrow> index_in al (al ! n) = Some n"
proof (induction al arbitrary: n)
  case (Cons x al)
  then show ?case by (cases n) (auto simp: nth_mem)
qed simp

lemma all_some_Some: "all_some (map Some xs) = Some xs"
  by (induction xs) auto

definition b64_alphabet :: "string \<Rightarrow> bool" where
  "b64_alphabet al \<longleftrightarrow> distinct al \<and> length al = 64 \<and> CHR 0x0A \<notin> set al \<and> CHR 0x0D \<notin> set al"

lemma b64_alphabets [simp]: "b64_alphabet b64_std" "b64_alphabet b64_url"
  by code_simp+

lemma set_b64_encode: "b64_alphabet al \<Longrightarrow> set (b64_encode al bs) \<subseteq> set al"
  using sextets_bound[of "map of_char bs"]
  by (auto simp: b64_encode_def b64_alphabet_def set_conv_nth[of al])

lemma b64_decode_encode:
  assumes "b64_alphabet al"
  shows "b64_decode al (b64_encode al bs) = Some bs"
proof -
  have f: "filter (\<lambda>c. c \<noteq> CHR 0x0A \<and> c \<noteq> CHR 0x0D) (b64_encode al bs) = b64_encode al bs"
    using set_b64_encode[OF assms, of bs] assms by (auto simp: filter_id_conv b64_alphabet_def)
  have "\<forall>x \<in> set (sextets (map of_char bs)). index_in al (al ! x) = Some x"
    using sextets_bound[of "map of_char bs"] assms
    by (auto simp: b64_alphabet_def intro!: index_in_nth)
  then have "map (index_in al) (b64_encode al bs) = map Some (sextets (map of_char bs))"
    by (simp add: b64_encode_def)
  then show ?thesis
    using octets_sextets[of "map of_char bs"] f
    by (simp add: b64_decode_def all_some_Some comp_def)
qed

lemma b64_encode_clean:
  "CHR ''.'' \<notin> set (b64_encode b64_url bs)" "CHR ''$'' \<notin> set (b64_encode b64_std bs)"
proof -
  have "CHR ''.'' \<notin> set b64_url" "CHR ''$'' \<notin> set b64_std" by code_simp+
  then show "CHR ''.'' \<notin> set (b64_encode b64_url bs)" "CHR ''$'' \<notin> set (b64_encode b64_std bs)"
    using set_b64_encode[of b64_url bs] set_b64_encode[of b64_std bs] by auto
qed

section \<open>Decimal numerals\<close>

definition is_digit :: "char \<Rightarrow> bool" where
  "is_digit c \<longleftrightarrow> 48 \<le> (of_char c :: nat) \<and> (of_char c :: nat) \<le> 57"

fun nat_digits :: "nat \<Rightarrow> string" where
  "nat_digits n = (if n < 10 then [char_of (48 + n)] else nat_digits (n div 10) @ [char_of (48 + n mod 10)])"

declare nat_digits.simps [simp del]

definition digits_value :: "string \<Rightarrow> nat" where
  "digits_value s = foldl (\<lambda>n c. 10 * n + (of_char c - 48)) 0 s"

lemma digit_char: "n < 10 \<Longrightarrow> is_digit (char_of (48 + n)) \<and> (of_char (char_of (48 + n) :: char) :: nat) - 48 = n"
  by (simp add: is_digit_def)

lemma nat_digits_all: "\<forall>c \<in> set (nat_digits n). is_digit c"
proof (induction n rule: nat_digits.induct)
  case (1 n)
  have "n mod 10 < 10" by simp
  from digit_char[OF this] 1 show ?case
    using digit_char[of n] by (subst nat_digits.simps) auto
qed

lemma nat_digits_nonempty: "nat_digits n \<noteq> []"
  by (subst nat_digits.simps) auto

lemma digits_value_nat_digits: "digits_value (nat_digits n) = n"
proof (induction n rule: nat_digits.induct)
  case (1 n)
  have "n mod 10 < 10" by simp
  from digit_char[OF this] 1 show ?case
    using digit_char[of n] by (subst nat_digits.simps) (auto simp: digits_value_def)
qed

text \<open>\<open>%d\<close> of \<open>fmt.Sscanf\<close> into an unsigned variable of \<open>w\<close> bits: leading blanks are dropped, then at
  least one digit, a value that fits; the rest of the input is returned.\<close>

definition is_blank :: "char \<Rightarrow> bool" where
  "is_blank c \<longleftrightarrow> c \<in> {CHR '' '', CHR 0x09, CHR 0x0B, CHR 0x0C, CHR 0x0D}"

definition scan_uint :: "nat \<Rightarrow> string \<Rightarrow> (nat \<times> string) option" where
  "scan_uint w s0 =
     (let s = dropWhile is_blank s0;
          ds = takeWhile is_digit s;
          n = digits_value ds
      in if ds = [] \<or> 2 ^ w \<le> n then None else Some (n, dropWhile is_digit s))"

definition scan_lit :: "string \<Rightarrow> string \<Rightarrow> string option" where
  "scan_lit l s = (if has_prefix s l then Some (drop (length l) s) else None)"

lemma scan_lit_append [simp]: "scan_lit l (l @ s) = Some s"
  by (simp add: scan_lit_def)

lemma scan_uint_digits:
  assumes "n < 2 ^ w" "rest = [] \<or> \<not> is_digit (hd rest)"
  shows "scan_uint w (nat_digits n @ rest) = Some (n, rest)"
proof -
  have "\<not> is_blank c" if "is_digit c" for c
    using that by (auto simp: is_blank_def is_digit_def)
  then have "dropWhile is_blank (nat_digits n @ rest) = nat_digits n @ rest"
    using nat_digits_all[of n] nat_digits_nonempty[of n] by (cases "nat_digits n") auto
  moreover have "takeWhile is_digit (nat_digits n @ rest) = nat_digits n"
    "dropWhile is_digit (nat_digits n @ rest) = rest"
    using nat_digits_all[of n] assms(2) by (cases rest; simp)+
  ultimately show ?thesis
    using assms(1) nat_digits_nonempty[of n] by (simp add: scan_uint_def Let_def digits_value_nat_digits)
qed

end
