(* ===== verification/Auth_CDK.thy ===== *)
theory Auth_CDK
  imports Go_Encoding
begin

text \<open>
  \<^verbatim>\<open>internal/auth/cdk.go\<close> and \<^verbatim>\<open>internal/project/service.go\<close>: the access key (CDK) of a project,
  \<open>ccw_<public id>.<secret>\<close>, of which only a salted hash is stored, and the resolver that finds a
  project by its key. Argon2id is the parameter \<open>idkey\<close> (password, salt, time, memory, threads, key
  length); the random bytes are parameters, \<open>None\<close> when \<open>rand.Read\<close> fails. The library panics when
  the stored time or thread count is zero, so verification returns a \<open>go_run\<close>.
\<close>

section \<open>The keys: \<^verbatim>\<open>cdk.go\<close>\<close>

datatype auth_error = ErrMalformedCDK | ErrRand

datatype 'a go_run = Returns 'a | Panics

type_synonym argon2_idkey = "bytes \<Rightarrow> bytes \<Rightarrow> nat \<Rightarrow> nat \<Rightarrow> nat \<Rightarrow> nat \<Rightarrow> bytes"

definition argonTime :: nat where "argonTime = 3"
definition argonMemory :: nat where "argonMemory = 64 * 1024"
definition argonThreads :: nat where "argonThreads = 2"
definition argonKeyLen :: nat where "argonKeyLen = 32"
definition saltLen :: nat where "saltLen = 16"

definition NewCDK :: "bytes option \<Rightarrow> bytes option \<Rightarrow> auth_error + string \<times> string" where
  "NewCDK rnd_pub rnd_sec =
     (case rnd_pub of
        None \<Rightarrow> Inl ErrRand
      | Some pub \<Rightarrow>
          (case rnd_sec of
             None \<Rightarrow> Inl ErrRand
           | Some sec \<Rightarrow>
               let publicID = hex_encode pub
               in Inr (''ccw_'' @ publicID @ ''.'' @ hex_encode sec, publicID)))"

definition SplitCDK :: "string \<Rightarrow> auth_error + string \<times> string" where
  "SplitCDK plain =
     (if \<not> has_prefix plain ''ccw_'' then Inl ErrMalformedCDK
      else
        let body = drop (length ''ccw_'') plain;
            (publicID, secret, ok) = cut_ch (CHR ''.'') body
        in if \<not> ok \<or> publicID = [] \<or> secret = [] then Inl ErrMalformedCDK
           else Inr (publicID, secret))"

definition HashSecret :: "argon2_idkey \<Rightarrow> string \<Rightarrow> bytes option \<Rightarrow> auth_error + string" where
  "HashSecret idkey secret rnd =
     (case rnd of
        None \<Rightarrow> Inl ErrRand
      | Some salt \<Rightarrow>
          let h = idkey secret salt argonTime argonMemory argonThreads argonKeyLen
          in Inr (''argon2id$v=19$m='' @ nat_digits argonMemory @ '',t='' @ nat_digits argonTime @
               '',p='' @ nat_digits argonThreads @ ''$'' @ b64_encode b64_std salt @ ''$'' @
               b64_encode b64_std h))"

text \<open>\<open>fmt.Sscanf(s, "m=%d,t=%d,p=%d", &m, &t, &p)\<close> with two 32-bit and one 8-bit variable.\<close>

definition sscanf_params :: "string \<Rightarrow> (nat \<times> nat \<times> nat) option" where
  "sscanf_params s =
     Option.bind (scan_lit ''m='' s) (\<lambda>s.
     Option.bind (scan_uint 32 s) (\<lambda>(m, s).
     Option.bind (scan_lit '',t='' s) (\<lambda>s.
     Option.bind (scan_uint 32 s) (\<lambda>(t, s).
     Option.bind (scan_lit '',p='' s) (\<lambda>s.
     Option.bind (scan_uint 8 s) (\<lambda>(p, s). Some (m, t, p)))))))"

definition VerifySecret :: "argon2_idkey \<Rightarrow> string \<Rightarrow> string \<Rightarrow> bool go_run" where
  "VerifySecret idkey plain encoded =
     (let parts = split_ch (CHR ''$'') encoded in
      if length parts \<noteq> 5 \<or> parts ! 0 \<noteq> ''argon2id'' then Returns False
      else (case sscanf_params (parts ! 2) of
          None \<Rightarrow> Returns False
        | Some (m, t, p) \<Rightarrow>
            (case b64_decode b64_std (parts ! 3) of
               None \<Rightarrow> Returns False
             | Some salt \<Rightarrow>
                 (case b64_decode b64_std (parts ! 4) of
                    None \<Rightarrow> Returns False
                  | Some want \<Rightarrow>
                      if t = 0 \<or> p = 0 then Panics
                      else Returns (idkey plain salt t m p (length want mod 2 ^ 32) = want)))))"

section \<open>The resolver: \<^verbatim>\<open>service.go\<close>\<close>

record project =
  p_ID :: string
  p_AccountID :: string
  p_Slug :: string
  p_ContainerName :: string
  p_DiskLimit :: int64
  p_FiveHourLimit :: int64
  p_SevenDayLimit :: int64

datatype project_error = ErrInvalidCDK

record cdk_entry =
  ce_SecretHash :: string
  ce_Project :: project

definition Memory_ResolveCDK ::
    "argon2_idkey \<Rightarrow> (string \<rightharpoonup> cdk_entry) \<Rightarrow> string \<Rightarrow> (project_error + project) go_run" where
  "Memory_ResolveCDK idkey byPublicID plain =
     (case SplitCDK plain of
        Inl _ \<Rightarrow> Returns (Inl ErrInvalidCDK)
      | Inr (pub, secret) \<Rightarrow>
          (case byPublicID pub of
             None \<Rightarrow> Returns (Inl ErrInvalidCDK)
           | Some e \<Rightarrow>
               (case VerifySecret idkey secret (ce_SecretHash e) of
                  Panics \<Rightarrow> Panics
                | Returns False \<Rightarrow> Returns (Inl ErrInvalidCDK)
                | Returns True \<Rightarrow> Returns (Inr (ce_Project e)))))"

section \<open>Facts\<close>

lemma SplitCDK_iff:
  "SplitCDK plain = Inr (pub, sec) \<longleftrightarrow>
     plain = ''ccw_'' @ pub @ ''.'' @ sec \<and> pub \<noteq> [] \<and> sec \<noteq> [] \<and> CHR ''.'' \<notin> set pub"
proof
  assume s: "SplitCDK plain = Inr (pub, sec)"
  then obtain body where b: "plain = ''ccw_'' @ body" by (auto simp: SplitCDK_def prefix_def split: if_splits)
  with s have c: "pub = takeWhile (\<lambda>x. x \<noteq> CHR ''.'') body" "CHR ''.'' \<in> set body"
    "sec = drop 1 (dropWhile (\<lambda>x. x \<noteq> CHR ''.'') body)" "pub \<noteq> []" "sec \<noteq> []"
    by (auto simp: SplitCDK_def cut_ch_def Let_def split: if_splits)
  from c(2) have "\<exists>r. dropWhile (\<lambda>x. x \<noteq> CHR ''.'') body = CHR ''.'' # r"
    by (induction body) auto
  then have "body = pub @ ''.'' @ sec"
    using c(1,3) takeWhile_dropWhile_id[of "\<lambda>x. x \<noteq> CHR ''.''" body] by (metis append_Cons append_Nil drop0 drop_Suc_Cons One_nat_def)
  moreover have "CHR ''.'' \<notin> set pub" using c(1) by (auto dest: set_takeWhileD)
  ultimately show "plain = ''ccw_'' @ pub @ ''.'' @ sec \<and> pub \<noteq> [] \<and> sec \<noteq> [] \<and> CHR ''.'' \<notin> set pub"
    using b c by simp
next
  assume r: "plain = ''ccw_'' @ pub @ ''.'' @ sec \<and> pub \<noteq> [] \<and> sec \<noteq> [] \<and> CHR ''.'' \<notin> set pub"
  then have "takeWhile (\<lambda>x. x \<noteq> CHR ''.'') (pub @ CHR ''.'' # sec) = pub"
    "dropWhile (\<lambda>x. x \<noteq> CHR ''.'') (pub @ CHR ''.'' # sec) = CHR ''.'' # sec"
    by (auto simp: takeWhile_append dropWhile_append)
  with r show "SplitCDK plain = Inr (pub, sec)" by (simp add: SplitCDK_def cut_ch_def Let_def)
qed

lemma SplitCDK_cases:
  obtains pub sec where "SplitCDK plain = Inr (pub, sec)" | "SplitCDK plain = Inl ErrMalformedCDK"
proof (cases "SplitCDK plain")
  case (Inl e)
  then show thesis using that(2) by (cases e) (auto simp: SplitCDK_def Let_def split: prod.splits if_splits)
next
  case (Inr x)
  then show thesis using that(1) by (cases x) auto
qed

lemma sscanf_params_print:
  assumes "m < 2 ^ 32" "t < 2 ^ 32" "p < 2 ^ 8"
  shows "sscanf_params (''m='' @ nat_digits m @ '',t='' @ nat_digits t @ '',p='' @ nat_digits p) = Some (m, t, p)"
proof -
  have nd: "\<not> is_digit CHR '',''" by code_simp
  have l: "scan_lit ''m='' (''m='' @ s) = Some s" "scan_lit '',t='' (CHR '','' # ''t='' @ s) = Some s"
    "scan_lit '',p='' (CHR '','' # ''p='' @ s) = Some s" for s
    by (simp_all add: scan_lit_def)
  show ?thesis
    using scan_uint_digits[OF assms(1), of "CHR '','' # ''t='' @ nat_digits t @ '',p='' @ nat_digits p"]
      scan_uint_digits[OF assms(2), of "CHR '','' # ''p='' @ nat_digits p"]
      scan_uint_digits[OF assms(3), of "[]"] nd l
    by (simp add: sscanf_params_def)
qed

text \<open>A stored hash verifies exactly the secrets with the same derived key.\<close>

lemma VerifySecret_HashSecret:
  assumes "HashSecret idkey secret (Some salt) = Inr h"
    and len: "\<And>p s t m th k. length (idkey p s t m th k) = k"
  shows "VerifySecret idkey plain h = Returns
    (idkey plain salt argonTime argonMemory argonThreads argonKeyLen =
     idkey secret salt argonTime argonMemory argonThreads argonKeyLen)"
proof -
  let ?k = "idkey secret salt argonTime argonMemory argonThreads argonKeyLen"
  let ?ps = "''m='' @ nat_digits argonMemory @ '',t='' @ nat_digits argonTime @ '',p='' @ nat_digits argonThreads"
  let ?parts = "[''argon2id'', ''v=19'', ?ps, b64_encode b64_std salt, b64_encode b64_std ?k]"
  have "CHR ''$'' \<notin> set (nat_digits n)" for n
    using nat_digits_all[of n] by (auto simp: is_digit_def)
  then have "\<forall>p \<in> set ?parts. CHR ''$'' \<notin> set p" using b64_encode_clean(2) by simp
  then have "split_ch (CHR ''$'') (join_ch (CHR ''$'') ?parts) = ?parts" by (intro split_join) simp_all
  moreover have "h = join_ch (CHR ''$'') ?parts" using assms(1) by (simp add: HashSecret_def Let_def)
  moreover have "sscanf_params ?ps = Some (argonMemory, argonTime, argonThreads)"
    by (rule sscanf_params_print) (simp_all add: argonMemory_def argonTime_def argonThreads_def)
  moreover have "length ?k = argonKeyLen" by (rule len)
  ultimately show ?thesis
    by (simp add: VerifySecret_def Let_def b64_decode_encode)
      (simp add: argonKeyLen_def argonTime_def argonThreads_def)
qed

section \<open>The resolver's interface\<close>

text \<open>What every implementation of \<open>project.Resolver\<close> does: find the entry of the public id, then
  verify the secret against it, and give one error for every failure.\<close>

locale cdk_resolver =
  fixes idkey :: argon2_idkey
    and lookup_pub :: "string \<Rightarrow> (string \<times> project) option"
    and resolve :: "string \<Rightarrow> (project_error + project) go_run"
  assumes malformed: "SplitCDK plain = Inl e \<Longrightarrow> resolve plain = Returns (Inl ErrInvalidCDK)"
    and unknown: "SplitCDK plain = Inr (pub, sec) \<Longrightarrow> lookup_pub pub = None \<Longrightarrow>
          resolve plain = Returns (Inl ErrInvalidCDK)"
    and known: "SplitCDK plain = Inr (pub, sec) \<Longrightarrow> lookup_pub pub = Some (h, p) \<Longrightarrow>
          resolve plain = (case VerifySecret idkey sec h of Panics \<Rightarrow> Panics
            | Returns ok \<Rightarrow> Returns (if ok then Inr p else Inl ErrInvalidCDK))"
begin

lemma resolve_iff:
  "resolve plain = Returns (Inr p) \<longleftrightarrow>
     (\<exists>pub sec h. plain = ''ccw_'' @ pub @ ''.'' @ sec \<and> pub \<noteq> [] \<and> sec \<noteq> [] \<and> CHR ''.'' \<notin> set pub \<and>
        lookup_pub pub = Some (h, p) \<and> VerifySecret idkey sec h = Returns True)"
proof (cases rule: SplitCDK_cases[of plain])
  case (1 pub sec)
  have inj: "SplitCDK plain = Inr (a, b) \<longleftrightarrow> a = pub \<and> b = sec" for a b using 1 by auto
  have "resolve plain = Returns (Inr p) \<longleftrightarrow>
      (\<exists>h. lookup_pub pub = Some (h, p) \<and> VerifySecret idkey sec h = Returns True)"
    using unknown[OF 1] known[OF 1]
    by (cases "lookup_pub pub") (auto split: go_run.splits if_splits)
  then show ?thesis using inj[unfolded SplitCDK_iff] by blast
next
  case 2
  then have "\<nexists>pub sec. SplitCDK plain = Inr (pub, sec)" by simp
  then show ?thesis using malformed[OF 2] unfolding SplitCDK_iff by auto
qed

text \<open>A key issued for an entry opens exactly that entry's project.\<close>

lemma issued_key_resolves:
  assumes len: "\<And>p s t m th k. length (idkey p s t m th k) = k"
    and new: "NewCDK (Some bp) (Some bs) = Inr (plain, pub)" "bp \<noteq> []" "bs \<noteq> []"
    and hash: "HashSecret idkey (hex_encode bs) (Some salt) = Inr h"
    and look: "lookup_pub pub = Some (h, p)"
  shows "resolve plain = Returns (Inr p)"
proof -
  from new have n: "plain = ''ccw_'' @ pub @ ''.'' @ hex_encode bs" "pub = hex_encode bp"
    by (auto simp: NewCDK_def Let_def)
  have "hex_encode bp \<noteq> []" "hex_encode bs \<noteq> []" using new(2,3) length_hex_encode by (metis list.size(3) mult_is_0 length_0_conv zero_neq_numeral)+
  moreover have "CHR ''.'' \<notin> set (hex_encode bp)" using hex_encode_clean by blast
  moreover have "VerifySecret idkey (hex_encode bs) h = Returns True"
    using VerifySecret_HashSecret[OF hash len] by simp
  ultimately show ?thesis unfolding resolve_iff using n look by blast
qed

end

interpretation mr: cdk_resolver idkey
    "\<lambda>pub. map_option (\<lambda>e. (ce_SecretHash e, ce_Project e)) (byPublicID pub)"
    "Memory_ResolveCDK idkey byPublicID"
  for idkey byPublicID
  by unfold_locales (auto simp: Memory_ResolveCDK_def split: go_run.splits bool.splits)

section \<open>Properties\<close>

text \<open>The shape of a key: \<open>SplitCDK\<close> accepts exactly \<open>ccw_\<close>, a non-empty public id without a
  dot, a dot and a non-empty secret, and returns those two parts; so it recovers both parts of
  every key \<open>NewCDK\<close> issues.\<close>

theorem SplitCDK_exact:
  "(SplitCDK plain = Inr (pub, sec) \<longleftrightarrow>
      plain = ''ccw_'' @ pub @ ''.'' @ sec \<and> pub \<noteq> [] \<and> sec \<noteq> [] \<and> CHR ''.'' \<notin> set pub)
   \<and> SplitCDK (''ccw_'' @ hex_encode (b # bp) @ ''.'' @ hex_encode (c # bs)) =
      Inr (hex_encode (b # bp), hex_encode (c # bs))
   \<and> NewCDK (Some (b # bp)) (Some (c # bs)) =
      Inr (''ccw_'' @ hex_encode (b # bp) @ ''.'' @ hex_encode (c # bs), hex_encode (b # bp))"
proof -
  have "hex_encode (x # xs) \<noteq> []" for x xs by (simp add: hex_encode_def)
  moreover have "CHR ''.'' \<notin> set (hex_encode (b # bp))" using hex_encode_clean by blast
  ultimately have "SplitCDK (''ccw_'' @ hex_encode (b # bp) @ ''.'' @ hex_encode (c # bs)) =
      Inr (hex_encode (b # bp), hex_encode (c # bs))"
    unfolding SplitCDK_iff by blast
  then show ?thesis unfolding SplitCDK_iff by (simp add: NewCDK_def Let_def)
qed

text \<open>Secrets are checked by their derived key: if Argon2id returns keys of the length asked for,
  the stored form of a secret verifies another string if and only if both derive the same key
  from the stored salt; in particular the secret itself verifies and nothing panics.\<close>

theorem stored_secret_verifies:
  assumes "HashSecret idkey secret (Some salt) = Inr h"
    and "\<And>p s t m th k. length (idkey p s t m th k) = k"
  shows "VerifySecret idkey plain h = Returns
      (idkey plain salt argonTime argonMemory argonThreads argonKeyLen =
       idkey secret salt argonTime argonMemory argonThreads argonKeyLen) \<and>
    VerifySecret idkey secret h = Returns True"
  using VerifySecret_HashSecret[OF assms, of plain] VerifySecret_HashSecret[OF assms, of secret]
  by simp

theorem stored_secret_verifies_witness:
  "case HashSecret (\<lambda>p s t m th k. take k (p @ replicate k CHR ''0'')) ''key'' (Some ''salt'') of
     Inl _ \<Rightarrow> False
   | Inr h \<Rightarrow> VerifySecret (\<lambda>p s t m th k. take k (p @ replicate k CHR ''0'')) ''kez'' h = Returns False \<and>
              VerifySecret (\<lambda>p s t m th k. take k (p @ replicate k CHR ''0'')) ''key'' h = Returns True"
proof -
  let ?idkey = "\<lambda>p s (t :: nat) (m :: nat) (th :: nat) k. take k (p @ replicate k CHR ''0'')"
  obtain h where h: "HashSecret ?idkey ''key'' (Some ''salt'') = Inr h" by (simp add: HashSecret_def)
  have "?idkey ''kez'' ''salt'' argonTime argonMemory argonThreads argonKeyLen \<noteq>
      ?idkey ''key'' ''salt'' argonTime argonMemory argonThreads argonKeyLen"
    by code_simp
  with stored_secret_verifies[OF h, of "''kez''"] h show ?thesis by simp
qed

text \<open>Resolving a key: the memory resolver gives a project exactly for a well-formed key whose
  public id has an entry and whose secret verifies against that entry; every other key gets the
  same error, or stops on a stored hash whose time or thread count is zero.\<close>

theorem resolver_exact:
  "Memory_ResolveCDK idkey byPublicID plain = Returns (Inr p) \<longleftrightarrow>
     (\<exists>pub sec e. plain = ''ccw_'' @ pub @ ''.'' @ sec \<and> pub \<noteq> [] \<and> sec \<noteq> [] \<and> CHR ''.'' \<notin> set pub \<and>
        byPublicID pub = Some e \<and> ce_Project e = p \<and>
        VerifySecret idkey sec (ce_SecretHash e) = Returns True)"
  unfolding mr.resolve_iff by fastforce

end
