(* ===== verification/Pg_Store.thy ===== *)
theory Pg_Store
  imports Sync_History Auth_CDK
begin

text \<open>
  \<^verbatim>\<open>internal/store\<close> (\<^verbatim>\<open>postgres.go\<close>, \<^verbatim>\<open>sync.go\<close>, \<^verbatim>\<open>queries.go\<close>, \<^verbatim>\<open>admin.go\<close>): the queries the services run
  on PostgreSQL. A table is the list of its rows, a statement a function on the tables that
  follows its SQL text and the constraints of \<^verbatim>\<open>migrations/\<close>; rows come in list order, which no
  query of the program depends on. The state carries a schedule of faults, one per statement:
  a statement is carried out, or refused, or carried out with its acknowledgement lost; when the
  schedule is used up every statement is carried out. Columns no query reads (\<open>updated_at\<close>,
  \<open>created_at\<close>, token counts) are left out. Times are instants on one integer scale.
\<close>

section \<open>Tables and statements\<close>

datatype fault = Carried | Refused | AckLost

record account_row =
  ac_id :: string
  ac_name :: string
  ac_upstream_pool :: string

record cdk_row =
  ck_id :: string
  ck_project_id :: string
  ck_public_id :: string
  ck_secret_hash :: string
  ck_expires_at :: "int option"
  ck_disabled_at :: "int option"

record usage_row =
  ue_project_id :: string
  ue_occurred_at :: int
  ue_weighted_units :: int64
  ue_source_event_id :: string

record file_row =
  fr_project_id :: string
  fr_entry :: file_entry
  fr_device :: string

record pg =
  pg_accounts :: "account_row list"
  pg_projects :: "project list"
  pg_cdks :: "cdk_row list"
  pg_usage :: "usage_row list"
  pg_files :: "file_row list"
  pg_faults :: "fault list"

definition next_fault :: "pg \<Rightarrow> fault \<times> pg" where
  "next_fault s = (case pg_faults s of [] \<Rightarrow> (Carried, s) | f # fs \<Rightarrow> (f, s\<lparr>pg_faults := fs\<rparr>))"

definition pg_query :: "(pg \<Rightarrow> db_error + 'a) \<Rightarrow> pg \<Rightarrow> (db_error + 'a) \<times> pg" where
  "pg_query q s = (case next_fault s of (Carried, s') \<Rightarrow> (q s', s') | (_, s') \<Rightarrow> (Inl DbError, s'))"

definition pg_exec :: "(pg \<Rightarrow> pg option) \<Rightarrow> pg \<Rightarrow> db_error option \<times> pg" where
  "pg_exec f s =
     (case next_fault s of
        (Carried, s') \<Rightarrow> (case f s' of None \<Rightarrow> (Some DbError, s') | Some s'' \<Rightarrow> (None, s''))
      | (Refused, s') \<Rightarrow> (Some DbError, s')
      | (AckLost, s') \<Rightarrow> (Some DbError, case f s' of None \<Rightarrow> s' | Some s'' \<Rightarrow> s''))"

text \<open>\<open>COALESCE(SUM(..),0)\<close> is exact; reading it into an \<open>int64\<close> fails if it does not fit.\<close>

definition sum_column :: "int list \<Rightarrow> db_error + int64" where
  "sum_column xs = (let n = sum_list xs in if fits64 n then Inr (word_of_int n) else Inl DbError)"

section \<open>The file index: \<^verbatim>\<open>sync.go\<close> and \<open>PGIndex\<close> of \<^verbatim>\<open>queries.go\<close>\<close>

definition is_row :: "string \<Rightarrow> string \<Rightarrow> file_row \<Rightarrow> bool" where
  "is_row pid path r \<longleftrightarrow> fr_project_id r = pid \<and> fe_Path (fr_entry r) = path"

definition project_rows :: "string \<Rightarrow> pg \<Rightarrow> file_row list" where
  "project_rows pid s = filter (\<lambda>r. fr_project_id r = pid) (pg_files s)"

definition pg_Current :: "string \<Rightarrow> string \<Rightarrow> pg \<Rightarrow> (db_error + int64 \<times> int64 \<times> bool) \<times> pg" where
  "pg_Current pid path = pg_query (\<lambda>s. Inr
     (case filter (is_row pid path) (pg_files s) of
        [] \<Rightarrow> (0, 0, False)
      | r # _ \<Rightarrow> (fe_Revision (fr_entry r), fe_Size (fr_entry r), True)))"

definition pg_Manifest :: "string \<Rightarrow> pg \<Rightarrow> (db_error + file_entry list) \<times> pg" where
  "pg_Manifest pid = pg_query (\<lambda>s. Inr (map fr_entry (project_rows pid s)))"

definition upsert_row :: "file_row \<Rightarrow> (file_row \<Rightarrow> file_row) \<Rightarrow> file_row list \<Rightarrow> file_row list" where
  "upsert_row new upd rows =
     (let here = is_row (fr_project_id new) (fe_Path (fr_entry new)) in
      if \<exists>r \<in> set rows. here r then map (\<lambda>r. if here r then upd r else r) rows
      else rows @ [new])"

definition project_exists :: "string \<Rightarrow> pg \<Rightarrow> bool" where
  "project_exists pid s \<longleftrightarrow> pid \<in> p_ID ` set (pg_projects s)"

definition pg_Commit :: "string \<Rightarrow> file_entry \<Rightarrow> string \<Rightarrow> pg \<Rightarrow> db_error option \<times> pg" where
  "pg_Commit pid e device = pg_exec (\<lambda>s.
     if project_exists pid s
     then Some (s\<lparr>pg_files := upsert_row \<lparr>fr_project_id = pid, fr_entry = e, fr_device = device\<rparr>
                    (\<lambda>r. r\<lparr>fr_entry := e, fr_device := device\<rparr>) (pg_files s)\<rparr>)
     else None)"

definition pg_TotalSize :: "string \<Rightarrow> pg \<Rightarrow> (db_error + int64) \<times> pg" where
  "pg_TotalSize pid = pg_query (\<lambda>s. sum_column
     (map (\<lambda>r. sint (fe_Size (fr_entry r))) (filter (\<lambda>r. \<not> fe_Deleted (fr_entry r)) (project_rows pid s))))"

definition PGIndex_Upsert :: "string \<Rightarrow> file_entry \<Rightarrow> pg \<Rightarrow> db_error option \<times> pg" where
  "PGIndex_Upsert pid e = pg_exec (\<lambda>s.
     if project_exists pid s
     then Some (s\<lparr>pg_files := upsert_row \<lparr>fr_project_id = pid, fr_entry = e, fr_device = ''''\<rparr>
                    (\<lambda>r. r\<lparr>fr_entry := e\<rparr>) (pg_files s)\<rparr>)
     else None)"

definition PGIndex_DiskUsed :: "string \<Rightarrow> pg \<Rightarrow> (db_error + int64) \<times> pg" where
  "PGIndex_DiskUsed pid = pg_query (\<lambda>s. sum_column
     (map (\<lambda>r. sint (fe_Size (fr_entry r))) (filter (\<lambda>r. \<not> fe_Deleted (fr_entry r)) (project_rows pid s))))"

definition pg_store :: "pg rev_store" where
  "pg_store = \<lparr>rs_Current = pg_Current, rs_Manifest = pg_Manifest, rs_Commit = pg_Commit,
     rs_TotalSize = pg_TotalSize\<rparr>"

section \<open>Usage windows: \<^verbatim>\<open>queries.go\<close>\<close>

definition pg_WindowUsed :: "string \<Rightarrow> int \<Rightarrow> pg \<Rightarrow> (db_error + int64) \<times> pg" where
  "pg_WindowUsed pid since = pg_query (\<lambda>s. sum_column
     (map (\<lambda>u. sint (ue_weighted_units u))
        (filter (\<lambda>u. ue_project_id u = pid \<and> since < ue_occurred_at u) (pg_usage s))))"

definition pg_PoolUsed :: "string \<Rightarrow> int \<Rightarrow> pg \<Rightarrow> (db_error + int64) \<times> pg" where
  "pg_PoolUsed account since = pg_query (\<lambda>s. sum_column
     (map (\<lambda>(u, p). sint (ue_weighted_units u))
        (filter (\<lambda>(u, p). p_ID p = ue_project_id u \<and> p_AccountID p = account \<and> since < ue_occurred_at u)
           (List.product (pg_usage s) (pg_projects s)))))"

section \<open>Projects and keys: \<^verbatim>\<open>postgres.go\<close>, \<^verbatim>\<open>admin.go\<close>\<close>

definition cdk_live :: "int \<Rightarrow> cdk_row \<Rightarrow> bool" where
  "cdk_live now c \<longleftrightarrow> ck_disabled_at c = None \<and>
     (case ck_expires_at c of None \<Rightarrow> True | Some t \<Rightarrow> now < t)"

definition pg_lookup_pub :: "int \<Rightarrow> pg \<Rightarrow> string \<Rightarrow> (string \<times> project) option" where
  "pg_lookup_pub now s pub =
     (case filter (\<lambda>(c, p). p_ID p = ck_project_id c \<and> ck_public_id c = pub \<and> cdk_live now c)
             (List.product (pg_cdks s) (pg_projects s)) of
        [] \<Rightarrow> None
      | (c, p) # _ \<Rightarrow> Some (ck_secret_hash c, p))"

definition pg_ResolveCDK ::
    "argon2_idkey \<Rightarrow> int \<Rightarrow> string \<Rightarrow> pg \<Rightarrow> (project_error + project) go_run \<times> pg" where
  "pg_ResolveCDK idkey now cdk s =
     (case SplitCDK cdk of
        Inl _ \<Rightarrow> (Returns (Inl ErrInvalidCDK), s)
      | Inr (pub, secret) \<Rightarrow>
          (case pg_query (\<lambda>s. case pg_lookup_pub now s pub of None \<Rightarrow> Inl DbError | Some r \<Rightarrow> Inr r) s of
             (Inl _, s') \<Rightarrow> (Returns (Inl ErrInvalidCDK), s')
           | (Inr (hash, p), s') \<Rightarrow>
               (case VerifySecret idkey secret hash of
                  Panics \<Rightarrow> (Panics, s')
                | Returns False \<Rightarrow> (Returns (Inl ErrInvalidCDK), s')
                | Returns True \<Rightarrow> (Returns (Inr p), s'))))"

definition pg_GetProjectByID :: "string \<Rightarrow> pg \<Rightarrow> (db_error + project) \<times> pg" where
  "pg_GetProjectByID pid = pg_query (\<lambda>s.
     case filter (\<lambda>p. p_ID p = pid) (pg_projects s) of [] \<Rightarrow> Inl DbError | p # _ \<Rightarrow> Inr p)"

text \<open>\<open>uuid\<close> is the result of \<open>uuid.NewString\<close>.\<close>

definition pg_EnsureAccount :: "string \<Rightarrow> string \<Rightarrow> string \<Rightarrow> pg \<Rightarrow> (string \<times> db_error option) \<times> pg" where
  "pg_EnsureAccount uuid name pool s =
     (case pg_query (\<lambda>s. case filter (\<lambda>a. ac_name a = name) (pg_accounts s) of
                           [] \<Rightarrow> Inl DbError | a # _ \<Rightarrow> Inr (ac_id a)) s of
        (Inr i, s') \<Rightarrow> ((i, None), s')
      | (Inl _, s') \<Rightarrow>
          (case pg_exec (\<lambda>s. if uuid \<in> ac_id ` set (pg_accounts s) then None
                   else Some (s\<lparr>pg_accounts := pg_accounts s @
                     [\<lparr>ac_id = uuid, ac_name = name, ac_upstream_pool = pool\<rparr>]\<rparr>)) s' of
             (r, s'') \<Rightarrow> ((uuid, r), s'')))"

definition pg_CreateProject ::
    "string \<Rightarrow> string \<Rightarrow> string \<Rightarrow> string \<Rightarrow> int64 \<Rightarrow> int64 \<Rightarrow> int64 \<Rightarrow> pg \<Rightarrow>
       (string \<times> db_error option) \<times> pg" where
  "pg_CreateProject uuid accountID slug containerName diskLimit fiveHour sevenDay s =
     (case pg_exec (\<lambda>s.
          if accountID \<notin> ac_id ` set (pg_accounts s) \<or> uuid \<in> p_ID ` set (pg_projects s) \<or>
             slug \<in> p_Slug ` set (pg_projects s) \<or>
             containerName \<in> p_ContainerName ` set (pg_projects s) then None
          else Some (s\<lparr>pg_projects := pg_projects s @
            [\<lparr>p_ID = uuid, p_AccountID = accountID, p_Slug = slug, p_ContainerName = containerName,
              p_DiskLimit = diskLimit, p_FiveHourLimit = fiveHour, p_SevenDayLimit = sevenDay\<rparr>]\<rparr>)) s of
        (r, s') \<Rightarrow> ((uuid, r), s'))"

datatype admin_error = AdminAuth auth_error | AdminDb db_error

definition pg_CreateCDK ::
    "argon2_idkey \<Rightarrow> bytes option \<Rightarrow> bytes option \<Rightarrow> bytes option \<Rightarrow> string \<Rightarrow> string \<Rightarrow> pg \<Rightarrow>
       (admin_error + string) \<times> pg" where
  "pg_CreateCDK idkey rnd_pub rnd_sec rnd_salt uuid projectID s =
     (case NewCDK rnd_pub rnd_sec of
        Inl e \<Rightarrow> (Inl (AdminAuth e), s)
      | Inr (cdk, publicID) \<Rightarrow>
          (case SplitCDK cdk of
             Inl e \<Rightarrow> (Inl (AdminAuth e), s)
           | Inr (_, secret) \<Rightarrow>
               (case HashSecret idkey secret rnd_salt of
                  Inl e \<Rightarrow> (Inl (AdminAuth e), s)
                | Inr hash \<Rightarrow>
                    (case pg_exec (\<lambda>s.
                        if \<not> project_exists projectID s \<or> uuid \<in> ck_id ` set (pg_cdks s) \<or>
                           publicID \<in> ck_public_id ` set (pg_cdks s) then None
                        else Some (s\<lparr>pg_cdks := pg_cdks s @
                          [\<lparr>ck_id = uuid, ck_project_id = projectID, ck_public_id = publicID,
                            ck_secret_hash = hash, ck_expires_at = None, ck_disabled_at = None\<rparr>]\<rparr>)) s of
                       (Some e, s') \<Rightarrow> (Inl (AdminDb e), s')
                     | (None, s') \<Rightarrow> (Inr cdk, s')))))"

section \<open>The tables as maps\<close>

definition row_key :: "file_row \<Rightarrow> string \<times> string" where
  "row_key r = (fr_project_id r, fe_Path (fr_entry r))"

definition pg_idx :: "pg \<Rightarrow> string \<Rightarrow> index" where
  "pg_idx s pid k = map_option fr_entry (index_by row_key (pg_files s) (pid, k))"

text \<open>The primary keys, unique columns and foreign keys of the schema.\<close>

definition pg_inv :: "pg \<Rightarrow> bool" where
  "pg_inv s \<longleftrightarrow>
     distinct (map row_key (pg_files s)) \<and> distinct (map p_ID (pg_projects s)) \<and>
     distinct (map p_Slug (pg_projects s)) \<and> distinct (map p_ContainerName (pg_projects s)) \<and>
     distinct (map ck_public_id (pg_cdks s)) \<and>
     (\<forall>r \<in> set (pg_files s). project_exists (fr_project_id r) s) \<and>
     (\<forall>c \<in> set (pg_cdks s). project_exists (ck_project_id c) s) \<and>
     (\<forall>u \<in> set (pg_usage s). project_exists (ue_project_id u) s)"

lemma index_by_iff:
  "distinct (map key xs) \<Longrightarrow> index_by key xs k = Some x \<longleftrightarrow> x \<in> set xs \<and> key x = k"
  using index_by_Some[of key xs k x] index_by_distinct[of key xs x] by auto

lemma filter_key:
  "distinct (map key xs) \<Longrightarrow>
     filter (\<lambda>x. key x = k) xs = (case index_by key xs k of None \<Rightarrow> [] | Some x \<Rightarrow> [x])"
proof (induction xs)
  case (Cons y xs)
  show ?case
  proof (cases "key y = k")
    case True
    then have "index_by key (y # xs) k = Some y" using index_by_iff[OF Cons.prems] by simp
    moreover have "filter (\<lambda>x. key x = k) xs = []" using Cons.prems True unfolding filter_empty_conv
      by (metis distinct.simps(2) image_eqI list.simps(9) set_map)
    ultimately show ?thesis using True by simp
  next
    case False
    have "index_by key (y # xs) k = index_by key xs k"
    proof (cases "index_by key xs k")
      case None
      with False have "index_by key (y # xs) k = None" by (simp add: index_by_None_iff)
      with None show ?thesis by simp
    next
      case (Some z)
      with False Cons.prems show ?thesis
        using index_by_iff[of key xs k z] index_by_iff[OF Cons.prems, of k z] by simp
    qed
    with False Cons show ?thesis by simp
  qed
qed (simp add: index_by_def)

lemma next_fault_simps [simp]:
  "pg_files (snd (next_fault s)) = pg_files s" "pg_projects (snd (next_fault s)) = pg_projects s"
  "pg_cdks (snd (next_fault s)) = pg_cdks s" "pg_usage (snd (next_fault s)) = pg_usage s"
  "pg_accounts (snd (next_fault s)) = pg_accounts s"
  by (auto simp: next_fault_def split: list.split)

text \<open>A query changes only the schedule of faults, and returns the value or an error.\<close>

lemma pg_query_cases:
  assumes "pg_query q s = (r, s')"
  shows "s' = snd (next_fault s) \<and> (r = Inl DbError \<or> r = q s')"
  using assms by (cases "next_fault s") (auto simp: pg_query_def split: fault.splits)

lemma pg_exec_cases:
  assumes "pg_exec f s = (r, s')"
  obtains (same) "r \<noteq> None" "s' = snd (next_fault s)"
    | (changed) "f (snd (next_fault s)) = Some s'"
  using assms by (cases "next_fault s") (auto simp: pg_exec_def split: fault.splits option.splits)

lemma pg_exec_None:
  assumes "pg_exec f s = (None, s')"
  shows "f (snd (next_fault s)) = Some s'"
  using assms by (cases "next_fault s") (auto simp: pg_exec_def split: fault.splits option.splits)

lemma no_faults: "pg_faults s = [] \<Longrightarrow> next_fault s = (Carried, s)"
  by (simp add: next_fault_def)

lemma pg_query_healthy: "pg_faults s = [] \<Longrightarrow> pg_query q s = (q s, s)"
  by (simp add: pg_query_def no_faults)

lemma pg_exec_healthy:
  "pg_faults s = [] \<Longrightarrow> pg_exec f s = (case f s of None \<Rightarrow> (Some DbError, s) | Some s' \<Rightarrow> (None, s'))"
  by (simp add: pg_exec_def no_faults)

lemma pg_idx_cong: "pg_files s = pg_files t \<Longrightarrow> pg_idx s = pg_idx t"
  by (simp add: pg_idx_def fun_eq_iff)

lemma pg_inv_next [simp]: "pg_inv (snd (next_fault s)) = pg_inv s"
  by (simp add: pg_inv_def project_exists_def)

lemma pg_idx_next [simp]: "pg_idx (snd (next_fault s)) = pg_idx s"
  by (rule pg_idx_cong) simp

section \<open>The file index implements the interface\<close>

lemma pg_idx_Some:
  "pg_inv s \<Longrightarrow> pg_idx s pid k = Some e \<longleftrightarrow>
     (\<exists>r \<in> set (pg_files s). fr_project_id r = pid \<and> fr_entry r = e \<and> fe_Path e = k)"
  using index_by_iff[of row_key "pg_files s" "(pid, k)"]
  by (auto simp: pg_idx_def pg_inv_def row_key_def)

lemma finite_pg_idx: "finite (dom (pg_idx s pid))"
proof -
  have "dom (pg_idx s pid) \<subseteq> (\<lambda>r. fe_Path (fr_entry r)) ` set (pg_files s)"
  proof
    fix k assume "k \<in> dom (pg_idx s pid)"
    then obtain r where "index_by row_key (pg_files s) (pid, k) = Some r" by (auto simp: pg_idx_def)
    then show "k \<in> (\<lambda>r. fe_Path (fr_entry r)) ` set (pg_files s)"
      by (auto dest!: index_by_Some simp: row_key_def)
  qed
  then show ?thesis using finite_subset by blast
qed

lemma distinct_project_rows:
  assumes "pg_inv s"
  shows "distinct (map fe_Path (map fr_entry (project_rows pid s)))"
proof -
  have "distinct (map row_key (project_rows pid s))"
    using assms by (simp add: pg_inv_def project_rows_def distinct_map_filter)
  moreover have "map row_key (project_rows pid s) =
      map (\<lambda>k. (pid, k)) (map fe_Path (map fr_entry (project_rows pid s)))"
    by (auto simp: project_rows_def row_key_def)
  ultimately show ?thesis by (metis distinct_map)
qed

lemma project_rows_index:
  assumes "pg_inv s"
  shows "index_by fe_Path (map fr_entry (project_rows pid s)) = pg_idx s pid"
proof (rule ext)
  fix k
  have "index_by fe_Path (map fr_entry (project_rows pid s)) k = Some e \<longleftrightarrow> pg_idx s pid k = Some e" for e
    unfolding index_by_iff[OF distinct_project_rows[OF assms]] pg_idx_Some[OF assms]
    by (auto simp: project_rows_def)
  then show "index_by fe_Path (map fr_entry (project_rows pid s)) k = pg_idx s pid k"
    by (metis option.exhaust)
qed

lemma pg_Current_spec:
  assumes "pg_inv s" "pg_Current pid path s = (r, s')"
  shows "s' = snd (next_fault s) \<and> (\<forall>x. r = Inr x \<longrightarrow> x = current_of (pg_idx s pid) path)"
proof -
  have "filter (is_row pid path) (pg_files s) =
      (case index_by row_key (pg_files s) (pid, path) of None \<Rightarrow> [] | Some x \<Rightarrow> [x])"
    using filter_key[of row_key "pg_files s" "(pid, path)"] assms(1)
    by (simp add: pg_inv_def is_row_def[abs_def] row_key_def[abs_def])
  then show ?thesis
    using pg_query_cases[OF assms(2)[unfolded pg_Current_def]]
    by (auto simp: current_of_def pg_idx_def split: option.split)
qed

lemma upsert_row_effect:
  assumes d: "distinct (map row_key rows)" and u: "\<And>r. is_row pid path r \<Longrightarrow>
      fr_project_id (upd r) = pid \<and> fr_entry (upd r) = e"
    and e: "fr_project_id new = pid" "fr_entry new = e" "fe_Path e = path"
  shows "distinct (map row_key (upsert_row new upd rows)) \<and>
    (\<forall>p k. map_option fr_entry (index_by row_key (upsert_row new upd rows) (p, k)) =
       (if p = pid \<and> k = path then Some e else map_option fr_entry (index_by row_key rows (p, k)))) \<and>
    fr_project_id ` set (upsert_row new upd rows) \<subseteq> insert pid (fr_project_id ` set rows)"
proof -
  let ?f = "\<lambda>r. if is_row pid path r then upd r else r"
  have key: "row_key (?f r) = row_key r" for r
    using u[of r] e by (auto simp: row_key_def is_row_def)
  show ?thesis
  proof (cases "\<exists>r \<in> set rows. is_row pid path r")
    case True
    then have U: "upsert_row new upd rows = map ?f rows"
      using e by (simp add: upsert_row_def)
    have d': "distinct (map row_key (map ?f rows))" using d key by (simp add: comp_def)
    have "map_option fr_entry (index_by row_key (map ?f rows) (p, k)) =
       (if p = pid \<and> k = path then Some e else map_option fr_entry (index_by row_key rows (p, k)))" for p k
    proof (cases "index_by row_key rows (p, k)")
      case None
      then have n: "(p, k) \<notin> row_key ` set rows" by (simp add: index_by_None_iff)
      moreover have "row_key ` set (map ?f rows) = row_key ` set rows"
        unfolding set_map image_image key ..
      ultimately have im: "index_by row_key (map ?f rows) (p, k) = None" unfolding index_by_None_iff by simp
      have "(p, k) \<noteq> (pid, path)" using n True by (force simp: is_row_def row_key_def)
      with None im show ?thesis by auto
    next
      case (Some r)
      then have r: "r \<in> set rows" "row_key r = (p, k)" by (auto dest: index_by_Some)
      then have "index_by row_key (map ?f rows) (p, k) = Some (?f r)"
        unfolding index_by_iff[OF d'] using key by auto
      with Some r u show ?thesis by (auto simp: is_row_def row_key_def)
    qed
    with U d' u show ?thesis by (auto simp: is_row_def)
  next
    case False
    then have U: "upsert_row new upd rows = rows @ [new]" using e by (simp add: upsert_row_def)
    have k: "row_key new = (pid, path)" using e by (simp add: row_key_def)
    moreover have "(pid, path) \<notin> row_key ` set rows" using False by (auto simp: is_row_def row_key_def)
    ultimately show ?thesis using U d e by auto
  qed
qed

lemma pg_Commit_spec:
  assumes "pg_inv s" "pg_Commit pid e dev s = (r, s')"
  shows "pg_inv s' \<and> (r = None \<longrightarrow> pg_idx s' = committed pid e (pg_idx s)) \<and>
    (r \<noteq> None \<longrightarrow> pg_idx s' = pg_idx s \<or> pg_idx s' = committed pid e (pg_idx s))"
proof -
  have new: "pg_inv s' \<and> pg_idx s' = committed pid e (pg_idx s)"
    if ch: "project_exists pid t" "pg_inv t" "pg_idx t = pg_idx s"
      "s' = t\<lparr>pg_files := upsert_row \<lparr>fr_project_id = pid, fr_entry = e, fr_device = dev\<rparr>
                    (\<lambda>r. r\<lparr>fr_entry := e, fr_device := dev\<rparr>) (pg_files t)\<rparr>" for t
  proof -
    have d: "distinct (map row_key (pg_files t))" using ch(2) by (simp add: pg_inv_def)
    define new where "new = \<lparr>fr_project_id = pid, fr_entry = e, fr_device = dev\<rparr>"
    define upd where "upd = (\<lambda>r :: file_row. r\<lparr>fr_entry := e, fr_device := dev\<rparr>)"
    have s': "s' = t\<lparr>pg_files := upsert_row new upd (pg_files t)\<rparr>" using ch(4) by (simp add: new_def upd_def)
    have u: "is_row pid (fe_Path e) r \<Longrightarrow> fr_project_id (upd r) = pid \<and> fr_entry (upd r) = e" for r
      by (simp add: upd_def is_row_def)
    have n: "fr_project_id new = pid" "fr_entry new = e" by (simp_all add: new_def)
    have U: "distinct (map row_key (upsert_row new upd (pg_files t)))"
      "\<forall>p k. map_option fr_entry (index_by row_key (upsert_row new upd (pg_files t)) (p, k)) =
         (if p = pid \<and> k = fe_Path e then Some e else map_option fr_entry (index_by row_key (pg_files t) (p, k)))"
      "fr_project_id ` set (upsert_row new upd (pg_files t)) \<subseteq> insert pid (fr_project_id ` set (pg_files t))"
      using upsert_row_effect[OF d _ n refl, of upd] u by simp_all
    have "pg_idx s' p k = committed pid e (pg_idx t) p k" for p k
      using U s' by (auto simp: pg_idx_def committed_def)
    then have "pg_idx s' = committed pid e (pg_idx s)" using ch(3) by (simp add: fun_eq_iff)
    moreover have "insert pid (fr_project_id ` set (pg_files t)) \<subseteq> p_ID ` set (pg_projects t)"
      using ch(1,2) by (auto simp: pg_inv_def project_exists_def)
    from subset_trans[OF U(3) this] have "fr_project_id ` set (pg_files s') \<subseteq> p_ID ` set (pg_projects t)"
      by (simp add: s')
    then have "pg_inv s'"
      using U ch(2) s' unfolding pg_inv_def project_exists_def by (simp add: image_subset_iff)
    ultimately show ?thesis by blast
  qed
  from assms(2)[unfolded pg_Commit_def] show ?thesis
  proof (cases rule: pg_exec_cases)
    case same
    with assms(1) show ?thesis by auto
  next
    case changed
    with new[of "snd (next_fault s)"] assms(1) show ?thesis by (auto split: if_splits)
  qed
qed

lemma sum_column_Inr: "sum_column xs = Inr n \<Longrightarrow> sint n = sum_list xs"
  by (auto simp: sum_column_def Let_def sint_of_int64 split: if_splits)

lemma total_size_rows:
  assumes "pg_inv s"
  shows "total_size (pg_idx s pid) =
    sum_list (map (\<lambda>r. sint (fe_Size (fr_entry r))) (filter (\<lambda>r. \<not> fe_Deleted (fr_entry r)) (project_rows pid s)))"
proof -
  let ?es = "map fr_entry (project_rows pid s)"
  have d: "distinct (map fe_Path ?es)" using distinct_project_rows[OF assms] .
  have i: "pg_idx s pid = index_by fe_Path ?es" using project_rows_index[OF assms] by simp
  have "total_size (pg_idx s pid) = sum_list (map (\<lambda>k. live_size (pg_idx s pid k)) (map fe_Path ?es))"
    using d i dom_index_by[of fe_Path ?es] sum.distinct_set_conv_list[OF d, of "\<lambda>k. live_size (pg_idx s pid k)"]
    by (simp add: total_size_def image_image)
  also have "\<dots> = sum_list (map (\<lambda>e. live_size (pg_idx s pid (fe_Path e))) ?es)"
    by (simp add: comp_def)
  also have "map (\<lambda>e. live_size (pg_idx s pid (fe_Path e))) ?es = map (\<lambda>e. live_size (Some e)) ?es"
    using index_by_distinct[OF d] i by (intro map_cong) auto
  also have "sum_list (map (\<lambda>e. live_size (Some e)) (map fr_entry rs)) =
      sum_list (map (\<lambda>r. sint (fe_Size (fr_entry r))) (filter (\<lambda>r. \<not> fe_Deleted (fr_entry r)) rs))" for rs
    by (induction rs) auto
  finally show ?thesis .
qed

lemma pg_TotalSize_spec:
  assumes "pg_inv s" "pg_TotalSize pid s = (r, s')"
  shows "s' = snd (next_fault s) \<and> (\<forall>n. r = Inr n \<longrightarrow> sint n = total_size (pg_idx s pid))"
proof -
  from pg_query_cases[OF assms(2)[unfolded pg_TotalSize_def]] have "s' = snd (next_fault s)"
    and r: "r = Inl DbError \<or> r = sum_column (map (\<lambda>r. sint (fe_Size (fr_entry r)))
      (filter (\<lambda>r. \<not> fe_Deleted (fr_entry r)) (project_rows pid s)))"
    by (auto simp: project_rows_def)
  moreover have "sint n = total_size (pg_idx s pid)" if "r = Inr n" for n
    using r that sum_column_Inr[of _ n] unfolding total_size_rows[OF assms(1)] by force
  ultimately show ?thesis by blast
qed

interpretation pgs: revision_store pg_store pg_idx pg_inv
proof unfold_locales
  fix s pid path r s'
  assume i: "pg_inv s" and "rs_Current pg_store pid path s = (r, s')"
  then have "pg_Current pid path s = (r, s')" by (simp add: pg_store_def)
  from pg_Current_spec[OF i this] i
  show "pg_inv s' \<and> pg_idx s' = pg_idx s \<and> (\<forall>x. r = Inr x \<longrightarrow> x = current_of (pg_idx s pid) path)"
    by simp
next
  fix s pid r s'
  assume i: "pg_inv s" and "rs_Manifest pg_store pid s = (r, s')"
  then have "pg_Manifest pid s = (r, s')" by (simp add: pg_store_def)
  from pg_query_cases[OF this[unfolded pg_Manifest_def]] i
  show "pg_inv s' \<and> pg_idx s' = pg_idx s \<and>
      (\<forall>es. r = Inr es \<longrightarrow> distinct (map fe_Path es) \<and> index_by fe_Path es = pg_idx s pid)"
    using distinct_project_rows[of s' pid] project_rows_index[of s' pid] by auto
next
  fix s pid e dev r s'
  assume "pg_inv s" "rs_Commit pg_store pid e dev s = (r, s')"
  then show "pg_inv s' \<and> (r = None \<longrightarrow> pg_idx s' = committed pid e (pg_idx s)) \<and>
      (r \<noteq> None \<longrightarrow> pg_idx s' = pg_idx s \<or> pg_idx s' = committed pid e (pg_idx s))"
    using pg_Commit_spec[of s pid e dev r s'] by (simp add: pg_store_def)
next
  fix s pid r s'
  assume i: "pg_inv s" and "rs_TotalSize pg_store pid s = (r, s')"
  then have "pg_TotalSize pid s = (r, s')" by (simp add: pg_store_def)
  from pg_TotalSize_spec[OF i this] i
  show "pg_inv s' \<and> pg_idx s' = pg_idx s \<and> (\<forall>n. r = Inr n \<longrightarrow> sint n = total_size (pg_idx s pid))"
    by simp
qed (auto simp: finite_pg_idx pg_idx_Some)

definition pg_up :: "string \<Rightarrow> pg \<Rightarrow> bool" where
  "pg_up pid s \<longleftrightarrow> pg_faults s = [] \<and> project_exists pid s"

interpretation pgr: reachable_store pg_store pg_idx pg_inv pg_up
proof unfold_locales
  fix s pid path r s'
  assume i: "pg_inv s" "pg_up pid s" and "rs_Current pg_store pid path s = (r, s')"
  then have c: "pg_Current pid path s = (r, s')" by (simp add: pg_store_def)
  from c i(2) have "s' = s" "\<exists>x. r = Inr x"
    unfolding pg_Current_def pg_up_def by (auto simp: pg_query_healthy simp del: split_paired_Ex)
  with pg_Current_spec[OF i(1) c] i
  show "r = Inr (current_of (pg_idx s pid) path) \<and> pg_up pid s'" by auto
next
  fix s pid r s'
  assume "pg_inv s" "pg_up pid s" "rs_Manifest pg_store pid s = (r, s')"
  then show "(\<exists>es. r = Inr es) \<and> pg_up pid s'"
    by (auto simp: pg_store_def pg_Manifest_def pg_query_healthy pg_up_def)
next
  fix s pid e dev r s'
  assume "pg_inv s" "pg_up pid s" "rs_Commit pg_store pid e dev s = (r, s')"
  then show "r = None \<and> pg_up pid s'"
    by (auto simp: pg_store_def pg_Commit_def pg_exec_healthy pg_up_def project_exists_def)
next
  fix s pid r s'
  assume i: "pg_inv s" "pg_up pid s" "fits64 (total_size (pg_idx s pid))"
    and "rs_TotalSize pg_store pid s = (r, s')"
  then show "(\<exists>n. r = Inr n) \<and> pg_up pid s'"
    using total_size_rows[OF i(1), of pid]
    by (auto simp: pg_store_def pg_TotalSize_def pg_query_healthy pg_up_def sum_column_def Let_def)
qed

section \<open>Accounts, projects and keys\<close>

lemma pg_lookup_pub_iff:
  assumes "pg_inv s"
  shows "pg_lookup_pub now s pub = Some (h, p) \<longleftrightarrow>
    (\<exists>c \<in> set (pg_cdks s). ck_public_id c = pub \<and> cdk_live now c \<and> ck_secret_hash c = h \<and>
       p \<in> set (pg_projects s) \<and> p_ID p = ck_project_id c)"
proof -
  let ?P = "\<lambda>(c, p). p_ID p = ck_project_id c \<and> ck_public_id c = pub \<and> cdk_live now c"
  let ?rows = "filter ?P (List.product (pg_cdks s) (pg_projects s))"
  have u: "x = y" if "x \<in> set ?rows" "y \<in> set ?rows" for x y
  proof -
    obtain c p where x: "x = (c, p)" by (cases x)
    obtain c' p' where y: "y = (c', p')" by (cases y)
    have "distinct (map ck_public_id (pg_cdks s))" "distinct (map p_ID (pg_projects s))"
      using assms by (simp_all add: pg_inv_def)
    moreover have "c \<in> set (pg_cdks s)" "c' \<in> set (pg_cdks s)" "ck_public_id c = ck_public_id c'"
      "p \<in> set (pg_projects s)" "p' \<in> set (pg_projects s)" "p_ID p = ck_project_id c" "p_ID p' = ck_project_id c'"
      using that x y by auto
    ultimately show ?thesis using x y by (metis (no_types) index_by_distinct option.inject)
  qed
  have "pg_lookup_pub now s pub = Some (h, p) \<longleftrightarrow> (\<exists>c. (c, p) \<in> set ?rows \<and> ck_secret_hash c = h)"
  proof (cases ?rows)
    case Nil
    then show ?thesis unfolding pg_lookup_pub_def Nil by simp
  next
    case (Cons x xs)
    obtain c0 p0 where x: "x = (c0, p0)" by (cases x)
    have "x \<in> set ?rows" unfolding Cons by simp
    then have "y \<in> set ?rows \<longleftrightarrow> y = x" for y using u by blast
    then show ?thesis unfolding pg_lookup_pub_def by (simp only: Cons x) auto
  qed
  then show ?thesis by auto
qed

text \<open>With the store reachable, the resolver implements the interface of \<^verbatim>\<open>project.Resolver\<close>.\<close>

interpretation pgc: cdk_resolver idkey "pg_lookup_pub now s"
    "\<lambda>cdk. fst (pg_ResolveCDK idkey now cdk (s\<lparr>pg_faults := []\<rparr>))"
  for idkey now s
  by unfold_locales
    (auto simp: pg_ResolveCDK_def pg_query_healthy pg_lookup_pub_def split: go_run.splits bool.splits)

lemma pg_exec_inv:
  assumes "pg_exec f s = (r, s')" "pg_inv s" "\<And>t t'. pg_inv t \<Longrightarrow> f t = Some t' \<Longrightarrow> pg_inv t'"
  shows "pg_inv s'"
  using assms(1)
proof (cases rule: pg_exec_cases)
  case same
  with assms(2) show ?thesis by simp
next
  case changed
  with assms(2,3) show ?thesis by (metis pg_inv_next)
qed

lemma pg_query_state: "pg_query q s = (r, s') \<Longrightarrow> s' = snd (next_fault s)"
  using pg_query_cases by blast

lemma pg_EnsureAccount_inv:
  assumes "pg_EnsureAccount uuid name pool s = (x, s')" "pg_inv s"
  shows "pg_inv s'"
proof -
  obtain r1 s1 where q: "pg_query (\<lambda>s. case filter (\<lambda>a. ac_name a = name) (pg_accounts s) of
      [] \<Rightarrow> Inl DbError | a # _ \<Rightarrow> Inr (ac_id a)) s = (r1, s1)" by fastforce
  then have i: "pg_inv s1" using pg_query_state[OF q] assms(2) by simp
  show ?thesis
  proof (cases r1)
    case (Inr i)
    with q assms(1) \<open>pg_inv s1\<close> show ?thesis by (simp add: pg_EnsureAccount_def)
  next
    case (Inl e)
    with q assms(1) obtain r2 where "pg_exec (\<lambda>s. if uuid \<in> ac_id ` set (pg_accounts s) then None
        else Some (s\<lparr>pg_accounts := pg_accounts s @
          [\<lparr>ac_id = uuid, ac_name = name, ac_upstream_pool = pool\<rparr>]\<rparr>)) s1 = (r2, s')"
      by (auto simp: pg_EnsureAccount_def split: prod.splits)
    then show ?thesis using i
      by (rule pg_exec_inv) (auto simp: pg_inv_def project_exists_def split: if_splits)
  qed
qed

lemma pg_CreateProject_inv:
  assumes "pg_CreateProject uuid acc slug cn d f v s = (x, s')" "pg_inv s"
  shows "pg_inv s'"
proof -
  from assms(1) obtain r where "pg_exec (\<lambda>s.
          if acc \<notin> ac_id ` set (pg_accounts s) \<or> uuid \<in> p_ID ` set (pg_projects s) \<or>
             slug \<in> p_Slug ` set (pg_projects s) \<or>
             cn \<in> p_ContainerName ` set (pg_projects s) then None
          else Some (s\<lparr>pg_projects := pg_projects s @
            [\<lparr>p_ID = uuid, p_AccountID = acc, p_Slug = slug, p_ContainerName = cn,
              p_DiskLimit = d, p_FiveHourLimit = f, p_SevenDayLimit = v\<rparr>]\<rparr>)) s = (r, s')"
    by (auto simp: pg_CreateProject_def split: prod.splits)
  then show ?thesis using assms(2)
    by (rule pg_exec_inv) (auto simp: pg_inv_def project_exists_def split: if_splits)
qed

lemma pg_CreateCDK_Inr:
  assumes "pg_CreateCDK idkey rp rs rsalt uuid pid s = (Inr cdk, s')"
  obtains pub secret hash where "NewCDK rp rs = Inr (cdk, pub)" "SplitCDK cdk = Inr (pub, secret) \<or> (\<exists>p. SplitCDK cdk = Inr (p, secret))"
    "HashSecret idkey secret rsalt = Inr hash" "project_exists pid s" "pub \<notin> ck_public_id ` set (pg_cdks s)"
    "s' = (snd (next_fault s))\<lparr>pg_cdks := pg_cdks s @ [\<lparr>ck_id = uuid, ck_project_id = pid, ck_public_id = pub,
       ck_secret_hash = hash, ck_expires_at = None, ck_disabled_at = None\<rparr>]\<rparr>"
proof -
  from assms obtain pub p2 secret hash where n: "NewCDK rp rs = Inr (cdk, pub)" "SplitCDK cdk = Inr (p2, secret)"
    "HashSecret idkey secret rsalt = Inr hash"
    and e: "pg_exec (\<lambda>s.
        if \<not> project_exists pid s \<or> uuid \<in> ck_id ` set (pg_cdks s) \<or> pub \<in> ck_public_id ` set (pg_cdks s) then None
        else Some (s\<lparr>pg_cdks := pg_cdks s @ [\<lparr>ck_id = uuid, ck_project_id = pid, ck_public_id = pub,
           ck_secret_hash = hash, ck_expires_at = None, ck_disabled_at = None\<rparr>]\<rparr>)) s = (None, s')"
    by (auto simp: pg_CreateCDK_def split: sum.splits prod.splits option.splits)
  from pg_exec_None[OF e] that[OF n(1) _ n(3)] n(2) show thesis
    by (auto simp: project_exists_def split: if_splits)
qed

lemma pg_CreateCDK_inv:
  assumes "pg_CreateCDK idkey rp rs rsalt uuid pid s = (x, s')" "pg_inv s"
  shows "pg_inv s'"
proof (cases "s' = s")
  case False
  with assms(1) obtain pub hash r where "pg_exec (\<lambda>s.
        if \<not> project_exists pid s \<or> uuid \<in> ck_id ` set (pg_cdks s) \<or> pub \<in> ck_public_id ` set (pg_cdks s) then None
        else Some (s\<lparr>pg_cdks := pg_cdks s @ [\<lparr>ck_id = uuid, ck_project_id = pid, ck_public_id = pub,
           ck_secret_hash = hash, ck_expires_at = None, ck_disabled_at = None\<rparr>]\<rparr>)) s = (r, s')"
    by (auto simp: pg_CreateCDK_def split: sum.splits prod.splits option.splits)
  then show ?thesis using assms(2)
    by (rule pg_exec_inv) (auto simp: pg_inv_def project_exists_def split: if_splits)
qed (use assms in simp)

section \<open>Usage windows\<close>

lemma sum_list_product:
  "sum_list (map (\<lambda>(u, p). f u) (filter (\<lambda>(u, p). Q u p) (List.product us ps))) =
     sum_list (map (\<lambda>u. f u * int (length (filter (Q u) ps))) us)"
proof (induction us)
  case (Cons u us)
  have "sum_list (map (\<lambda>(u, p). f u) (filter (\<lambda>(u, p). Q u p) (map (Pair u) ps))) =
      f u * int (length (filter (Q u) ps))"
    by (induction ps) (auto simp: algebra_simps)
  with Cons show ?case by simp
qed simp

text \<open>The use of the pool is the sum of the windows of the account's projects.\<close>

lemma pool_is_sum_of_windows:
  fixes s :: pg
  shows "sum_list (map (\<lambda>(u, p). sint (ue_weighted_units u))
        (filter (\<lambda>(u, p). p_ID p = ue_project_id u \<and> p_AccountID p = account \<and> since < ue_occurred_at u)
           (List.product (pg_usage s) (pg_projects s)))) =
     sum_list (map (\<lambda>p. sum_list (map (\<lambda>u. sint (ue_weighted_units u))
        (filter (\<lambda>u. ue_project_id u = p_ID p \<and> since < ue_occurred_at u) (pg_usage s))))
       (filter (\<lambda>p. p_AccountID p = account) (pg_projects s)))"
proof -
  let ?w = "\<lambda>u. sint (ue_weighted_units u)"
  have one: "sum_list (map ?w (filter (\<lambda>u. ue_project_id u = p_ID p \<and> since < ue_occurred_at u) us)) =
      sum_list (map (\<lambda>u. if ue_project_id u = p_ID p \<and> since < ue_occurred_at u then ?w u else 0) us)" for p us
    by (induction us) auto
  have sw: "sum_list (map (\<lambda>p. sum_list (map (\<lambda>u. if ue_project_id u = p_ID p \<and> since < ue_occurred_at u then ?w u else 0) us)) ps) =
      sum_list (map (\<lambda>u. ?w u * int (length (filter (\<lambda>p. p_ID p = ue_project_id u \<and> since < ue_occurred_at u) ps))) us)" for us ps
  proof (induction ps)
    case (Cons p ps)
    have "sum_list (map (\<lambda>u. if ue_project_id u = p_ID p \<and> since < ue_occurred_at u then ?w u else 0) us) +
        sum_list (map (\<lambda>u. ?w u * int (length (filter (\<lambda>p. p_ID p = ue_project_id u \<and> since < ue_occurred_at u) ps))) us) =
        sum_list (map (\<lambda>u. ?w u * int (length (filter (\<lambda>p. p_ID p = ue_project_id u \<and> since < ue_occurred_at u) (p # ps)))) us)"
      by (induction us) (auto simp: algebra_simps)
    with Cons show ?case by simp
  qed simp
  have fl: "filter (\<lambda>p. p_ID p = ue_project_id u \<and> p_AccountID p = account \<and> since < ue_occurred_at u) (pg_projects s) =
      filter (\<lambda>p. p_ID p = ue_project_id u \<and> since < ue_occurred_at u)
        (filter (\<lambda>p. p_AccountID p = account) (pg_projects s))" for u
    by (simp add: conj_commute conj_left_commute)
  show ?thesis
    unfolding sum_list_product one sw fl by (rule refl)
qed

section \<open>Properties\<close>

text \<open>A key's life: if Argon2id returns keys of the length asked for, a key that \<open>CreateCDK\<close>
  returned for an existing project resolves, at any later time while its row stays and the store
  can be reached, to exactly that project; and making it keeps the schema's constraints.\<close>

theorem created_key_resolves:
  assumes "pg_inv s" and "\<And>p s t m th k. length (idkey p s t m th k) = k"
    and "pg_CreateCDK idkey (Some (b # bp)) (Some (c # bs)) (Some salt) uuid (p_ID p) s = (Inr cdk, s')"
    and "p \<in> set (pg_projects s)"
  shows "pg_inv s' \<and>
    fst (pg_ResolveCDK idkey now cdk (s'\<lparr>pg_faults := []\<rparr>)) = Returns (Inr p)"
proof -
  from pg_CreateCDK_Inr[OF assms(3)] obtain pub secret hash where N:
    "NewCDK (Some (b # bp)) (Some (c # bs)) = Inr (cdk, pub)" "\<exists>p. SplitCDK cdk = Inr (p, secret)"
    "HashSecret idkey secret (Some salt) = Inr hash" "project_exists (p_ID p) s"
    "s' = (snd (next_fault s))\<lparr>pg_cdks := pg_cdks s @ [\<lparr>ck_id = uuid, ck_project_id = p_ID p, ck_public_id = pub,
       ck_secret_hash = hash, ck_expires_at = None, ck_disabled_at = None\<rparr>]\<rparr>"
    by metis
  have i: "pg_inv s'" using pg_CreateCDK_inv[OF assms(3,1)] .
  from N(1) have cdk: "cdk = ''ccw_'' @ pub @ ''.'' @ hex_encode (c # bs)" "pub = hex_encode (b # bp)"
    by (auto simp: NewCDK_def Let_def)
  have "hex_encode (x # xs) \<noteq> []" for x xs by (simp add: hex_encode_def)
  moreover have "CHR ''.'' \<notin> set (hex_encode (b # bp))" using hex_encode_clean by blast
  ultimately have "SplitCDK cdk = Inr (pub, hex_encode (c # bs))"
    unfolding SplitCDK_iff using cdk by simp
  with N(2) have "secret = hex_encode (c # bs)" by auto
  moreover have "pg_lookup_pub now s' pub = Some (hash, p)"
    unfolding pg_lookup_pub_iff[OF i] using N(5) assms(4) by (simp add: cdk_live_def)
  ultimately show ?thesis
    using i pgc.issued_key_resolves[where idkey = idkey and now = now and s = s', OF assms(2) N(1)] N(3) by auto
qed

theorem created_key_resolves_witness:
  "\<exists>s' cdk. pg_CreateCDK (\<lambda>p s t m th k. take k (p @ replicate k CHR ''0'')) (Some ''ab'') (Some ''cd'')
      (Some ''salt'') ''k1'' ''p1''
      \<lparr>pg_accounts = [], pg_projects = [\<lparr>p_ID = ''p1'', p_AccountID = ''a1'', p_Slug = ''s'',
         p_ContainerName = ''c'', p_DiskLimit = 1, p_FiveHourLimit = 1, p_SevenDayLimit = 1\<rparr>],
       pg_cdks = [], pg_usage = [], pg_files = [], pg_faults = []\<rparr> = (Inr cdk, s') \<and> pg_inv s' \<and>
     cdk = ''ccw_6162.6364''"
proof -
  let ?p = "\<lparr>p_ID = ''p1'', p_AccountID = ''a1'', p_Slug = ''s'',
         p_ContainerName = ''c'', p_DiskLimit = 1, p_FiveHourLimit = 1, p_SevenDayLimit = 1\<rparr>"
  let ?s = "\<lparr>pg_accounts = [], pg_projects = [?p], pg_cdks = [], pg_usage = [], pg_files = [], pg_faults = []\<rparr>"
  let ?idkey = "\<lambda>p s (t :: nat) (m :: nat) (th :: nat) k. take k (p @ replicate k CHR ''0'')"
  obtain r s' where c: "pg_CreateCDK ?idkey (Some ''ab'') (Some ''cd'') (Some ''salt'') ''k1'' ''p1'' ?s = (r, s')"
    by fastforce
  have s: "SplitCDK ''ccw_6162.6364'' = Inr (''6162'', ''6364'')" by code_simp
  have n: "NewCDK (Some ''ab'') (Some ''cd'') = Inr (''ccw_6162.6364'', ''6162'')" by code_simp
  have "\<exists>h. HashSecret ?idkey ''6364'' (Some ''salt'') = Inr h" by (simp add: HashSecret_def)
  then have r: "r = Inr ''ccw_6162.6364''"
    using c by (auto simp: pg_CreateCDK_def n s pg_exec_healthy project_exists_def)
  have i: "pg_inv ?s" by (simp add: pg_inv_def project_exists_def)
  have "pg_CreateCDK ?idkey (Some (CHR ''a'' # ''b'')) (Some (CHR ''c'' # ''d'')) (Some ''salt'') ''k1'' (p_ID ?p) ?s =
      (Inr ''ccw_6162.6364'', s')" using c r by simp
  with created_key_resolves[OF i _ this] have "pg_inv s'" by simp
  with c r show ?thesis by simp
qed

text \<open>The pool window: when the queries succeed, the pool's use of an account is exactly the sum of
  the windows of the account's projects, and each window is the sum of the project's events after
  the start of the window; none of them changes the tables.\<close>

theorem pool_sums_windows:
  assumes "pg_faults s = []" and "pg_PoolUsed account since s = (Inr n, s')"
  shows "s' = s \<and> sint n = sum_list (map (\<lambda>p. sum_list (map (\<lambda>u. sint (ue_weighted_units u))
        (filter (\<lambda>u. ue_project_id u = p_ID p \<and> since < ue_occurred_at u) (pg_usage s))))
       (filter (\<lambda>p. p_AccountID p = account) (pg_projects s))) \<and>
    (\<forall>p m. fst (pg_WindowUsed p since s) = Inr m \<longrightarrow>
       sint m = sum_list (map (\<lambda>u. sint (ue_weighted_units u))
         (filter (\<lambda>u. ue_project_id u = p \<and> since < ue_occurred_at u) (pg_usage s))))"
proof -
  from assms have q: "s' = s" and n: "sum_column (map (\<lambda>(u, p). sint (ue_weighted_units u))
      (filter (\<lambda>(u, p). p_ID p = ue_project_id u \<and> p_AccountID p = account \<and> since < ue_occurred_at u)
        (List.product (pg_usage s) (pg_projects s)))) = Inr n"
    by (auto simp: pg_PoolUsed_def pg_query_healthy)
  have w: "\<forall>p m. fst (pg_WindowUsed p since s) = Inr m \<longrightarrow>
       sint m = sum_list (map (\<lambda>u. sint (ue_weighted_units u))
         (filter (\<lambda>u. ue_project_id u = p \<and> since < ue_occurred_at u) (pg_usage s)))"
    using assms(1) by (auto simp: pg_WindowUsed_def pg_query_healthy dest: sum_column_Inr)
  show ?thesis
    using q w sum_column_Inr[OF n] unfolding pool_is_sum_of_windows by blast
qed

theorem pool_sums_windows_witness:
  "sint (7 :: int64) = 7 \<and>
   fst (pg_PoolUsed ''a1'' 10 \<lparr>pg_accounts = [],
     pg_projects = [\<lparr>p_ID = ''p1'', p_AccountID = ''a1'', p_Slug = ''s'', p_ContainerName = ''c'',
       p_DiskLimit = 1, p_FiveHourLimit = 1, p_SevenDayLimit = 1\<rparr>], pg_cdks = [],
     pg_usage = [\<lparr>ue_project_id = ''p1'', ue_occurred_at = 11, ue_weighted_units = 7, ue_source_event_id = ''e''\<rparr>,
       \<lparr>ue_project_id = ''p1'', ue_occurred_at = 10, ue_weighted_units = 5, ue_source_event_id = ''f''\<rparr>],
     pg_files = [], pg_faults = []\<rparr>) = Inr 7"
proof -
  let ?s = "\<lparr>pg_accounts = [],
     pg_projects = [\<lparr>p_ID = ''p1'', p_AccountID = ''a1'', p_Slug = ''s'', p_ContainerName = ''c'',
       p_DiskLimit = 1, p_FiveHourLimit = 1, p_SevenDayLimit = 1\<rparr>], pg_cdks = [],
     pg_usage = [\<lparr>ue_project_id = ''p1'', ue_occurred_at = 11, ue_weighted_units = 7, ue_source_event_id = ''e''\<rparr>,
       \<lparr>ue_project_id = ''p1'', ue_occurred_at = 10, ue_weighted_units = 5, ue_source_event_id = ''f''\<rparr>],
     pg_files = [], pg_faults = []\<rparr>"
  have f: "pg_faults ?s = []" by simp
  have p: "pg_PoolUsed ''a1'' 10 ?s = (Inr 7, ?s)"
    by (simp add: pg_PoolUsed_def pg_query_healthy sum_column_def fits64_def)
  from pool_sums_windows[OF f p] p show ?thesis by simp
qed

text \<open>Accounts: with the store reachable, \<open>EnsureAccount\<close> returns the id of an account of that
  name, adds one only if there is none (so a second call returns the same id and changes nothing),
  and keeps every other row.\<close>

theorem EnsureAccount_idempotent:
  assumes "pg_faults s = []" and "pg_EnsureAccount uuid name pool s = ((i, None), s')"
  shows "(\<exists>a \<in> set (pg_accounts s'). ac_id a = i \<and> ac_name a = name) \<and>
    (\<exists>new. pg_accounts s' = pg_accounts s @ new \<and>
       (new \<noteq> [] \<longrightarrow> (\<forall>a \<in> set (pg_accounts s). ac_name a \<noteq> name))) \<and>
    pg_EnsureAccount uuid2 name pool s' = ((i, None), s')"
proof (cases "filter (\<lambda>a. ac_name a = name) (pg_accounts s)")
  case Nil
  then have none: "\<forall>a \<in> set (pg_accounts s). ac_name a \<noteq> name" by (simp add: filter_empty_conv)
  from assms Nil have s': "s' = s\<lparr>pg_accounts := pg_accounts s @ [\<lparr>ac_id = uuid, ac_name = name, ac_upstream_pool = pool\<rparr>]\<rparr>"
    and "i = uuid"
    by (auto simp: pg_EnsureAccount_def pg_query_healthy pg_exec_healthy split: if_splits)
  moreover have "pg_faults s' = []" using assms(1) s' by simp
  ultimately show ?thesis using none Nil
    by (simp add: pg_EnsureAccount_def pg_query_healthy)
next
  case (Cons a as)
  then have "a \<in> set (pg_accounts s)" "ac_name a = name"
    by (auto dest: filter_eq_ConsD)
  moreover from assms Cons have "s' = s" "i = ac_id a"
    by (auto simp: pg_EnsureAccount_def pg_query_healthy)
  ultimately show ?thesis using assms(1) Cons
    by (auto simp: pg_EnsureAccount_def pg_query_healthy)
qed

theorem EnsureAccount_idempotent_witness:
  "pg_EnsureAccount ''u2'' ''default'' ''pool'' \<lparr>pg_accounts = [\<lparr>ac_id = ''u1'', ac_name = ''default'',
      ac_upstream_pool = ''pool''\<rparr>], pg_projects = [], pg_cdks = [], pg_usage = [], pg_files = [], pg_faults = []\<rparr> =
   ((''u1'', None), \<lparr>pg_accounts = [\<lparr>ac_id = ''u1'', ac_name = ''default'',
      ac_upstream_pool = ''pool''\<rparr>], pg_projects = [], pg_cdks = [], pg_usage = [], pg_files = [], pg_faults = []\<rparr>)"
proof -
  let ?s = "\<lparr>pg_accounts = [], pg_projects = [], pg_cdks = [], pg_usage = [], pg_files = [], pg_faults = []\<rparr> :: pg"
  let ?t = "\<lparr>pg_accounts = [\<lparr>ac_id = ''u1'', ac_name = ''default'',
      ac_upstream_pool = ''pool''\<rparr>], pg_projects = [], pg_cdks = [], pg_usage = [], pg_files = [], pg_faults = []\<rparr>"
  have "pg_faults ?s = []" "pg_EnsureAccount ''u1'' ''default'' ''pool'' ?s = ((''u1'', None), ?t)"
    by (simp_all add: pg_EnsureAccount_def pg_query_healthy pg_exec_healthy)
  from EnsureAccount_idempotent[OF this] show ?thesis by blast
qed

end
