(* ===== verification/Sync_Service.thy ===== *)
theory Sync_Service
  imports Pg_Store
begin

text \<open>
  The sync service as \<^verbatim>\<open>cmd/worker-agent/main.go\<close> composes it: the session factory binds the
  PostgreSQL store, the workspace directory of the project's slug, the disk gate with the
  project's limit (a terabyte when it is zero) and a limit of one gigabyte per file. The
  properties state, for this composition, what the handlers of \<open>Sync_Server\<close> and the histories of
  \<open>Sync_History\<close> give; \<open>demo_\<close> constants are the concrete inputs of the witnesses.
\<close>

section \<open>The session factory\<close>

text \<open>\<open>projectSlug\<close> and the two queries of the factory each ask the store once.\<close>

definition projectSlug :: "string \<Rightarrow> pg \<Rightarrow> string \<times> pg" where
  "projectSlug pid db =
     (case pg_GetProjectByID pid db of
        (Inr p, db') \<Rightarrow> (if p_Slug p \<noteq> [] then p_Slug p else pid, db')
      | (Inl _, db') \<Rightarrow> (pid, db'))"

definition sessionFactory ::
    "string \<Rightarrow> string \<Rightarrow> string \<Rightarrow> string \<Rightarrow> pg \<times> node \<Rightarrow> sync_session \<times> pg \<times> node" where
  "sessionFactory workspaceRoot pid device mode = (\<lambda>(db, fs).
     (case projectSlug pid db of (slug, db) \<Rightarrow>
      let root = filepath_Join workspaceRoot slug;
          fs = snd (os_MkdirAll fs root)
      in (case pg_GetProjectByID pid db of (rp, db) \<Rightarrow>
      let limit = (case rp of Inr p \<Rightarrow> if 0 < sint (p_DiskLimit p) then p_DiskLimit p else 2 ^ 40
                   | Inl _ \<Rightarrow> 2 ^ 40)
      in (\<lparr>ss_ProjectID = pid, ss_Device = device, ss_Mode = mode, ss_Root = root,
           ss_MaxBytes = 2 ^ 30, ss_AllowQuota = Gate_Allow \<lparr>g_Limit = limit\<rparr>\<rparr>, db, fs))))"

definition modeFor :: "string \<Rightarrow> string" where
  "modeFor pid = ''rw''"

section \<open>Concrete inputs\<close>

definition demo_project :: project where
  "demo_project = \<lparr>p_ID = ''p1'', p_AccountID = ''a1'', p_Slug = ''ws'', p_ContainerName = ''ccw-ws'',
     p_DiskLimit = 100, p_FiveHourLimit = 10, p_SevenDayLimit = 20\<rparr>"

definition demo_db :: pg where
  "demo_db = \<lparr>pg_accounts = [], pg_projects = [demo_project], pg_cdks = [], pg_usage = [], pg_files = [],
     pg_faults = []\<rparr>"

definition demo_fs :: node where
  "demo_fs = Dir [(''ws'', Dir [])]"

definition demo_session :: sync_session where
  "demo_session = \<lparr>ss_ProjectID = ''p1'', ss_Device = ''d1'', ss_Mode = ''rw'', ss_Root = ''/ws'',
     ss_MaxBytes = 64, ss_AllowQuota = Gate_Allow \<lparr>g_Limit = 100\<rparr>\<rparr>"

definition demo_sha :: "bytes \<Rightarrow> string" where
  "demo_sha b = ''h'' @ b"

definition demo_put :: "put_result \<times> pg \<times> node" where
  "demo_put = HandlePut demo_sha pg_store demo_session ''a'' 0 ''hxy'' \<lparr>rd_data = ''xy'', rd_fails = False\<rparr>
     (Some ''*'') (demo_db, demo_fs)"

definition demo_db1 :: pg where
  "demo_db1 = demo_db\<lparr>pg_files := [\<lparr>fr_project_id = ''p1'', fr_entry = \<lparr>fe_Path = ''a'', fe_Size = 2,
     fe_SHA256 = ''hxy'', fe_Revision = 1, fe_Deleted = False\<rparr>, fr_device = ''d1''\<rparr>]\<rparr>"

definition demo_fs1 :: node where
  "demo_fs1 = Dir [(''ws'', Dir [(''a'', File ''xy'')])]"

lemma demo_root: "ss_Root demo_session = abs_str [''ws'']" by code_simp

lemma demo_facts:
  "pg_inv demo_db" "workspace [''ws''] demo_fs" "plain [''ws''] demo_fs" "sane_max (ss_MaxBytes demo_session)"
  "fresh_tmp (Some ''*'') [''ws''] demo_fs" "pg_inv demo_db1" "workspace [''ws''] demo_fs1" "plain [''ws''] demo_fs1"
  "sane_max (2 ^ 30)"
  by code_simp+

lemma demo_put_eq: "demo_put = (accepted 1, demo_db1, demo_fs1)"
  by code_simp

section \<open>Properties\<close>

text \<open>C4. An accepted put is a compare-and-swap: it was accepted only because the base revision is the
  current one (0 for a path without a row), the declared digest is the content's, the content is
  within the limit, and mode and quota admit it; it then changed exactly one entry of the index,
  to the next revision with this digest and size, and exactly one file, to the content.\<close>

theorem accepted_put_is_compare_and_swap:
  assumes "pg_inv db" and "workspace rc fs" and "plain rc fs" and "sane_max (ss_MaxBytes s)"
    and "ss_Root s = abs_str rc"
    and "HandlePut sha pg_store s path baseRev decl body rnd (db, fs) = (res, db', fs')" and "pr_OK res"
  shows "\<exists>rel used. SafeRelPath path = Inr rel \<and>
    (case pg_idx db (ss_ProjectID s) rel of None \<Rightarrow> baseRev = 0 | Some e \<Rightarrow> fe_Revision e = baseRev) \<and>
    decl = sha (rd_data body) \<and> int (length (rd_data body)) \<le> sint (ss_MaxBytes s) \<and>
    sint used = total_size (pg_idx db (ss_ProjectID s)) \<and>
    ss_AllowQuota s used (fst (snd (current_of (pg_idx db (ss_ProjectID s)) rel)))
      (of_nat (length (rd_data body))) = None \<and>
    (ss_Mode s = ''cleanup'' \<longrightarrow> int (length (rd_data body)) <
       sint (fst (snd (current_of (pg_idx db (ss_ProjectID s)) rel)))) \<and>
    pr_Revision res = baseRev + 1 \<and> pg_inv db' \<and> workspace rc fs' \<and>
    leaf fs' = (leaf fs)(rc @ segs rel \<mapsto> File (rd_data body)) \<and>
    pg_idx db' = committed (ss_ProjectID s)
      \<lparr>fe_Path = rel, fe_Size = of_nat (length (rd_data body)), fe_SHA256 = decl,
       fe_Revision = baseRev + 1, fe_Deleted = False\<rparr> (pg_idx db)"
  by (rule pgs.HandlePut_accepted[OF assms])

theorem accepted_put_is_compare_and_swap_witness:
  "pg_idx demo_db1 = committed ''p1'' \<lparr>fe_Path = ''a'', fe_Size = 2, fe_SHA256 = ''hxy'',
       fe_Revision = 1, fe_Deleted = False\<rparr> (pg_idx demo_db) \<and>
   leaf demo_fs1 = (leaf demo_fs)([''ws''] @ segs ''a'' \<mapsto> File ''xy'')"
proof -
  have s: "SafeRelPath ''a'' = Inr ''a''" by code_simp
  have p: "pr_OK (accepted 1)" by (simp add: accepted_def)
  from accepted_put_is_compare_and_swap[OF demo_facts(1-4) demo_root demo_put_eq[unfolded demo_put_def] p] s
  show ?thesis by (auto simp: demo_session_def)
qed



text \<open>The exception of the previous property is real: when the acknowledgement of the last
  statement is lost or the statement refused, the put is reported as failed, yet the file has the
  new content; the comment on \<open>HandlePut\<close> promises that no failure leaves anything behind.\<close>

theorem failed_commit_leaves_file:
  "let db = demo_db\<lparr>pg_faults := [Carried, Carried, Refused]\<rparr>;
       (res, db', fs') = HandlePut demo_sha pg_store demo_session ''a'' 0 ''hxy''
         \<lparr>rd_data = ''xy'', rd_fails = False\<rparr> (Some ''*'') (db, demo_fs)
   in \<not> pr_OK res \<and> pg_files db' = [] \<and> fs' = demo_fs1"
  by code_simp

text \<open>Deleting: an accepted delete either found no row (and changed nothing) or found the base
  revision current, removed exactly the path's file and wrote a tombstone with the next revision;
  a delete that is not accepted changed nothing, unless the final commit reported an error.\<close>

theorem delete_effect:
  assumes "pg_inv db" and "workspace rc fs" and "plain rc fs" and "ss_Root s = abs_str rc"
    and "HandleDelete pg_store s path baseRev (db, fs) = (res, db', fs')"
  shows "pg_inv db' \<and> workspace rc fs' \<and>
    (if pr_OK res then \<exists>rel. SafeRelPath path = Inr rel \<and>
       (case pg_idx db (ss_ProjectID s) rel of
          None \<Rightarrow> pr_Revision res = baseRev \<and> pg_idx db' = pg_idx db \<and> fs' = fs
        | Some e \<Rightarrow> fe_Revision e = baseRev \<and> pr_Revision res = baseRev + 1 \<and>
            leaf fs' = (leaf fs)(rc @ segs rel := None) \<and>
            pg_idx db' = committed (ss_ProjectID s) (tombstone rel (baseRev + 1)) (pg_idx db))
     else (pg_idx db' = pg_idx db \<and> leaf fs' = leaf fs) \<or>
       (\<exists>rel e. pr_Reason res = ''internal'' \<and> SafeRelPath path = Inr rel \<and>
          pg_idx db (ss_ProjectID s) rel = Some e \<and> fe_Revision e = baseRev \<and>
          leaf fs' = (leaf fs)(rc @ segs rel := None) \<and>
          (pg_idx db' = pg_idx db \<or>
           pg_idx db' = committed (ss_ProjectID s) (tombstone rel (baseRev + 1)) (pg_idx db))))"
  by (rule pgs.HandleDelete_effect[OF assms])

theorem delete_effect_witness:
  "\<exists>db' fs'. HandleDelete pg_store demo_session ''a'' 1 (demo_db1, demo_fs1) = (accepted 2, db', fs') \<and>
     leaf fs' = (leaf demo_fs1)([''ws''] @ segs ''a'' := None)"
proof -
  obtain db' fs' where h: "HandleDelete pg_store demo_session ''a'' 1 (demo_db1, demo_fs1) = (accepted 2, db', fs')"
  proof -
    have "fst (HandleDelete pg_store demo_session ''a'' 1 (demo_db1, demo_fs1)) = accepted 2" by code_simp
    then show thesis using that by (metis prod.collapse)
  qed
  have i: "pg_idx demo_db1 ''p1'' ''a'' \<noteq> None" by code_simp
  have s: "SafeRelPath ''a'' = Inr ''a''" by code_simp
  from delete_effect[OF demo_facts(6-8) demo_root h] i s h show ?thesis
    by (auto simp: accepted_def demo_session_def)
qed

text \<open>C6. Revisions name versions: from a workspace whose index is empty, along any run of fewer than
  2^63 handler runs and container edits, with any faults of the store, no path's entry disappears,
  revisions never go back, and two entries of a path with the same revision are the same entry.\<close>

theorem revisions_name_versions:
  assumes "pg_inv db" and "ws_ok rc fs" and "pg_idx db pid = Map.empty"
    and "server_run sha pg_store pid rc n (db, fs) (db1, fs1)"
    and "server_run sha pg_store pid rc m (db1, fs1) (db2, fs2)" and "int n + int m < 2 ^ 63"
  shows "pg_inv db2 \<and> ws_ok rc fs2 \<and>
    (\<forall>k e. pg_idx db1 pid k = Some e \<longrightarrow> (\<exists>e'. pg_idx db2 pid k = Some e' \<and>
       sint (fe_Revision e) \<le> sint (fe_Revision e') \<and> (fe_Revision e = fe_Revision e' \<longrightarrow> e = e')))"
proof -
  have "pgs.server_ok 0 pid rc (db, fs)"
    using assms(1-3) by (simp add: pgs.server_ok_def index_ok_def)
  from pgs.server_run_effect[OF assms(4) this] assms(6)
  have "pgs.server_ok (int n) pid rc (db1, fs1)" by simp
  from pgs.server_run_effect[OF assms(5) this] assms(6) show ?thesis
    by (auto simp: pgs.server_ok_def index_later_def)
qed

theorem revisions_name_versions_witness:
  "\<exists>e'. pg_idx demo_db1 ''p1'' ''a'' = Some e' \<and> fe_Revision e' = 1"
proof -
  have st: "server_step demo_sha pg_store ''p1'' [''ws''] (demo_db, demo_fs) (demo_db1, demo_fs1)"
    by (rule server_step.Put[OF _ demo_root demo_facts(4,5) demo_put_eq[unfolded demo_put_def]])
      (simp add: demo_session_def)
  then have r: "server_run demo_sha pg_store ''p1'' [''ws''] 1 (demo_db, demo_fs) (demo_db1, demo_fs1)"
    using server_run.More[OF server_run.Start] by fastforce
  have l: "leaf demo_fs ([''ws''] @ r) = None" for r
    by (cases r) (simp_all add: leaf_def demo_fs_def)
  have w: "ws_ok [''ws''] demo_fs" using demo_facts(2,3) l by (simp add: ws_ok_def small_files_def)
  have e: "pg_idx demo_db ''p1'' = Map.empty" by (simp add: pg_idx_def demo_db_def index_by_def fun_eq_iff)
  have "\<exists>e. pg_idx demo_db1 ''p1'' ''a'' = Some e \<and> fe_Revision e = 1"
    by (simp add: pg_idx_def demo_db1_def index_by_def row_key_def)
  with revisions_name_versions[OF demo_facts(1) w e r server_run.Start] show ?thesis by auto
qed



text \<open>C13. The disk quota holds: with the storage gate, where sizes stay within 64 bits, an accepted put
  leaves the project's bytes within the limit, or not above what they were.\<close>

theorem put_keeps_quota:
  assumes "pg_inv db" and "ws_ok rc fs" and "index_ok m (pg_idx db pid)"
    and "ss_ProjectID s = pid" and "ss_Root s = abs_str rc" and "sane_max (ss_MaxBytes s)"
    and "ss_AllowQuota s = Gate_Allow g" and "total_size (pg_idx db pid) + sint (ss_MaxBytes s) < 2 ^ 63"
    and "HandlePut sha pg_store s path baseRev decl body rnd (db, fs) = (res, db', fs')" and "pr_OK res"
  shows "total_size (pg_idx db' pid) \<le> max (total_size (pg_idx db pid)) (sint (g_Limit g))"
proof -
  have "pgs.server_ok m pid rc (db, fs)" using assms(1-3) by (simp add: pgs.server_ok_def)
  from pgs.put_within_quota[OF this assms(4-10)] show ?thesis .
qed

theorem put_keeps_quota_witness:
  "total_size (pg_idx demo_db1 ''p1'') \<le> 100"
proof -
  have l: "leaf demo_fs ([''ws''] @ r) = None" for r
    by (cases r) (simp_all add: leaf_def demo_fs_def)
  have w: "ws_ok [''ws''] demo_fs" using demo_facts(2,3) l by (simp add: ws_ok_def small_files_def)
  have i: "pg_idx demo_db ''p1'' = Map.empty" by (simp add: pg_idx_def demo_db_def index_by_def fun_eq_iff)
  have p: "ss_ProjectID demo_session = ''p1''" "ss_AllowQuota demo_session = Gate_Allow \<lparr>g_Limit = 100\<rparr>"
    "sint (ss_MaxBytes demo_session) = 64" by (simp_all add: demo_session_def)
  have a: "pr_OK (accepted 1)" by (simp add: accepted_def)
  have e: "index_ok 0 (pg_idx demo_db ''p1'')" by (simp add: i index_ok_def)
  have t: "total_size (pg_idx demo_db ''p1'') = 0" by (simp add: i total_size_def)
  from put_keeps_quota[OF demo_facts(1) w e p(1) demo_root demo_facts(4) p(2) _
      demo_put_eq[unfolded demo_put_def] a] t p(3)
  show ?thesis by simp
qed



text \<open>A download returns the current bytes without their digest: when the store can be reached and
  the path has a row and a file, \<open>HandleGet\<close> returns exactly the file's bytes with the row's revision
  and size, and an empty digest, whatever digest the row has.\<close>

theorem get_returns_bytes_without_digest:
  assumes "pg_inv db" and "pg_up (ss_ProjectID s) db" and "workspace rc fs" and "ss_Root s = abs_str rc"
    and "SafeRelPath path = Inr rel" and "pg_idx db (ss_ProjectID s) rel = Some e0"
    and "content rc fs rel = Some b"
  shows "fst (HandleGet pg_store s path (db, fs)) =
    Inr (\<lparr>fe_Path = rel, fe_Size = fe_Size e0, fe_SHA256 = '''', fe_Revision = fe_Revision e0,
          fe_Deleted = False\<rparr>, \<lparr>rd_data = b, rd_fails = False\<rparr>)"
  by (rule pgr.HandleGet_up[OF assms])

theorem get_returns_bytes_without_digest_witness:
  "fst (HandleGet pg_store demo_session ''a'' (demo_db1, demo_fs1)) =
    Inr (\<lparr>fe_Path = ''a'', fe_Size = 2, fe_SHA256 = '''', fe_Revision = 1, fe_Deleted = False\<rparr>,
      \<lparr>rd_data = ''xy'', rd_fails = False\<rparr>)"
proof -
  have u: "pg_up (ss_ProjectID demo_session) demo_db1" "SafeRelPath ''a'' = Inr ''a''"
    "content [''ws''] demo_fs1 ''a'' = Some ''xy''" by code_simp+
  have e: "pg_idx demo_db1 (ss_ProjectID demo_session) ''a'' = Some \<lparr>fe_Path = ''a'', fe_Size = 2,
     fe_SHA256 = ''hxy'', fe_Revision = 1, fe_Deleted = False\<rparr>"
    by (simp add: pg_idx_def demo_db1_def index_by_def row_key_def demo_session_def)
  from get_returns_bytes_without_digest[OF demo_facts(6) u(1) demo_facts(7) demo_root u(2) e u(3)]
  show ?thesis by simp
qed

text \<open>C14. A good put is accepted: when the store can be reached, the base is current, the content's
  digest is the declared one, mode and gate admit it, the temporary file could be written and no
  directory is in the file's place, the put succeeds with the next revision.\<close>

theorem good_put_is_accepted:
  assumes "pg_inv db" and "pg_up (ss_ProjectID s) db" and "workspace rc fs" and "plain rc fs"
    and "sane_max (ss_MaxBytes s)" and "ss_Root s = abs_str rc" and "SafeRelPath path = Inr rel"
    and "current_of (pg_idx db (ss_ProjectID s)) rel = (baseRev, old, ex)" and "\<not> ex \<longrightarrow> baseRev = 0"
    and "WriteTemp sha (abs_str rc) rel body (ss_MaxBytes s) rnd fs = (Inr (tmpID, decl, n), fs1)"
    and "ss_Mode s = ''cleanup'' \<longrightarrow> sint n < sint old"
    and "fits64 (total_size (pg_idx db (ss_ProjectID s)))"
    and "\<And>used. sint used = total_size (pg_idx db (ss_ProjectID s)) \<Longrightarrow> ss_AllowQuota s used old n = None"
    and "\<not> is_dir fs1 (rc @ segs rel)"
  shows "fst (HandlePut sha pg_store s path baseRev decl body rnd (db, fs)) = accepted (baseRev + 1)"
  by (rule pgr.HandlePut_succeeds[OF assms(1-7) assms(8) assms(9) assms(10) assms(11) assms(12) assms(13) assms(14)])

theorem good_put_is_accepted_witness:
  "fst (HandlePut demo_sha pg_store demo_session ''a'' 0 ''hxy'' \<lparr>rd_data = ''xy'', rd_fails = False\<rparr>
     (Some ''*'') (demo_db, demo_fs)) = accepted 1"
proof -
  let ?t = "Dir [(''ws'', Dir [(''.cclaude.tmp.2a'', File ''xy'')])]"
  have u: "pg_up (ss_ProjectID demo_session) demo_db" "SafeRelPath ''a'' = Inr ''a''"
    "WriteTemp demo_sha (abs_str [''ws'']) ''a'' \<lparr>rd_data = ''xy'', rd_fails = False\<rparr> (ss_MaxBytes demo_session)
       (Some ''*'') demo_fs = (Inr (''.cclaude.tmp.2a'', ''hxy'', 2), ?t)"
    "\<not> is_dir ?t ([''ws''] @ segs ''a'')" by code_simp+
  have i: "pg_idx demo_db (ss_ProjectID demo_session) = Map.empty"
    by (simp add: pg_idx_def demo_db_def index_by_def fun_eq_iff)
  have c: "current_of (pg_idx demo_db (ss_ProjectID demo_session)) ''a'' = (0, 0, False)"
    by (simp add: i current_of_def)
  have t: "total_size (pg_idx demo_db (ss_ProjectID demo_session)) = 0" by (simp add: i total_size_def)
  have g: "ss_AllowQuota demo_session used 0 2 = None" if "sint used = 0" for used
  proof -
    have "used = 0" using that by (intro signed_word_eqI) simp
    then show ?thesis by (simp add: demo_session_def Gate_Allow_def)
  qed
  have m: "ss_Mode demo_session = ''cleanup'' \<longrightarrow> sint (2 :: int64) < sint (0 :: int64)"
    by (simp add: demo_session_def)
  show ?thesis
    using good_put_is_accepted[OF demo_facts(1) u(1) demo_facts(2-4) demo_root u(2) c _ u(3) m _ _ u(4)] t g
    by (simp add: fits64_def)
qed

end
