(* ===== verification/Sync_Client.thy ===== *)
theory Sync_Client
  imports Dir_Store "HOL-Library.AList"
begin

text \<open>
  \<^verbatim>\<open>internal/sync/syncclient.go\<close> and \<open>LocalIndex\<close> of \<^verbatim>\<open>internal/sync/client.go\<close>: one round of a client.
  A round asks the server for its manifest, scans the directory, compares both with the saved
  baseline and executes the plan through a transport, a record of functions on the state \<open>'t\<close> of
  the connection. The baseline under construction is a Go map, here an association list; it is
  written out in the order \<open>rng\<close> of \<open>range\<close>. JSON is the pair of parameters \<open>enc\<close> and \<open>dec\<close>;
  \<open>clock path\<close> is the time at which the conflict copy of \<open>path\<close> is made.
\<close>

section \<open>The baseline file\<close>

definition li_path :: "string \<Rightarrow> string" where
  "li_path root = filepath_Join (filepath_Join root ''.cclaude'') ''index.json''"

datatype load_error = LoadOs errno | LoadJson

definition li_Load :: "(bytes \<Rightarrow> local_entry list option) \<Rightarrow> string \<Rightarrow> node \<Rightarrow> load_error + local_entry list" where
  "li_Load dec root fs =
     (case os_ReadFile fs (li_path root) of
        Inl e \<Rightarrow> if e = ENOENT then Inr [] else Inl (LoadOs e)
      | Inr b \<Rightarrow> (case dec b of None \<Rightarrow> Inl LoadJson | Some es \<Rightarrow> Inr es))"

definition li_Save :: "(local_entry list \<Rightarrow> bytes) \<Rightarrow> string \<Rightarrow> local_entry list \<Rightarrow> node \<Rightarrow> errno option \<times> node" where
  "li_Save enc root es fs =
     (case os_MkdirAll fs (filepath_Dir (li_path root)) of
        (Some e, fs) \<Rightarrow> (Some e, fs)
      | (None, fs) \<Rightarrow> os_Create fs (li_path root) (enc es))"

section \<open>The transport\<close>

datatype transport_error = TransportError

record 't transport =
  tr_Hello :: "string \<Rightarrow> 't \<Rightarrow> (transport_error + string) \<times> 't"
  tr_Manifest :: "'t \<Rightarrow> (transport_error + file_entry list) \<times> 't"
  tr_Put :: "local_entry \<Rightarrow> reader \<Rightarrow> 't \<Rightarrow> (transport_error + int64 \<times> string) \<times> 't"
  tr_Get :: "string \<Rightarrow> 't \<Rightarrow> (transport_error + file_entry \<times> reader) \<times> 't"
  tr_Delete :: "local_entry \<Rightarrow> 't \<Rightarrow> (transport_error + int64 \<times> string) \<times> 't"

datatype client_note = RejectedNote string string | ConflictNote string string

record 't client_state =
  cs_t :: 't
  cs_fs :: node
  cs_notes :: "client_note list"

type_synonym baseline = "(string \<times> local_entry) list"

section \<open>Writing a downloaded file\<close>

definition dl_suffix :: string where
  "dl_suffix = ''.cclaude.dl.tmp''"

definition writeLocal :: "string \<Rightarrow> string \<Rightarrow> reader \<Rightarrow> node \<Rightarrow> ds_error option \<times> node" where
  "writeLocal root rel r fs =
     (let ap = filepath_Join root rel in
      case os_MkdirAll fs (filepath_Dir ap) of
        (Some e, fs) \<Rightarrow> (Some (DsOs e), fs)
      | (None, fs) \<Rightarrow>
          let tmp = ap @ dl_suffix in
          (case os_Create fs tmp (rd_data r) of
             (Some e, fs) \<Rightarrow> (Some (DsOs e), fs)
           | (None, fs) \<Rightarrow>
               if rd_fails r then (Some DsRead, snd (os_Remove fs tmp))
               else (case os_Rename fs tmp ap of
                       (Some e, fs) \<Rightarrow> (Some (DsOs e), fs)
                     | (None, fs) \<Rightarrow> (None, fs))))"

definition clean :: "string \<Rightarrow> int64 \<Rightarrow> string \<Rightarrow> local_entry" where
  "clean path revision sha =
     \<lparr>le_Path = path, le_Size = 0, le_BaseRevision = revision, le_BaseSHA256 = sha,
      le_CurrentSHA256 = sha, le_State = StateClean\<rparr>"

section \<open>Executing a plan\<close>

definition download ::
    "'t transport \<Rightarrow> string \<Rightarrow> 't client_state \<times> baseline \<Rightarrow> file_entry \<Rightarrow> 't client_state \<times> baseline" where
  "download tr root = (\<lambda>(s, base) d.
     (case tr_Get tr (fe_Path d) (cs_t s) of
        (Inl _, t) \<Rightarrow> (s\<lparr>cs_t := t\<rparr>, base)
      | (Inr (entry, rc), t) \<Rightarrow>
          (case writeLocal root (fe_Path d) rc (cs_fs s) of
             (Some _, fs) \<Rightarrow> (s\<lparr>cs_t := t, cs_fs := fs\<rparr>, base)
           | (None, fs) \<Rightarrow>
               (s\<lparr>cs_t := t, cs_fs := fs\<rparr>,
                AList.update (fe_Path d) (clean (fe_Path d) (fe_Revision entry) (fe_SHA256 entry)) base))))"

definition saveConflict ::
    "'t transport \<Rightarrow> string \<Rightarrow> (string \<Rightarrow> utc_time) \<Rightarrow> 't client_state \<times> baseline \<Rightarrow> string \<Rightarrow>
       't client_state \<times> baseline" where
  "saveConflict tr root clock = (\<lambda>(s, base) path.
     (case tr_Get tr path (cs_t s) of
        (Inl _, t) \<Rightarrow> (s\<lparr>cs_t := t\<rparr>, base)
      | (Inr (entry, rc), t) \<Rightarrow>
          let cname = ConflictName path ''remote'' (clock path) in
          (case writeLocal root cname rc (cs_fs s) of
             (Some _, fs) \<Rightarrow> (s\<lparr>cs_t := t, cs_fs := fs\<rparr>, base)
           | (None, fs) \<Rightarrow>
               (s\<lparr>cs_t := t, cs_fs := fs, cs_notes := cs_notes s @ [ConflictNote path cname]\<rparr>,
                AList.update path (clean path (fe_Revision entry) (fe_SHA256 entry)) base))))"

definition upload ::
    "'t transport \<Rightarrow> string \<Rightarrow> (string \<Rightarrow> utc_time) \<Rightarrow> 't client_state \<times> baseline \<Rightarrow> local_entry \<Rightarrow>
       't client_state \<times> baseline" where
  "upload tr root clock = (\<lambda>(s, base) u.
     (case os_Open (cs_fs s) (filepath_Join root (le_Path u)) of
        Inl _ \<Rightarrow> (s, base)
      | Inr f \<Rightarrow>
          (case tr_Put tr u f (cs_t s) of
             (Inl _, t) \<Rightarrow> (s\<lparr>cs_t := t\<rparr>, base)
           | (Inr (newRev, reject), t) \<Rightarrow>
               let s = s\<lparr>cs_t := t\<rparr> in
               if reject = '''' then
                 (s, AList.update (le_Path u) (clean (le_Path u) newRev (le_CurrentSHA256 u)) base)
               else if reject = ''conflict'' then saveConflict tr root clock (s, base) (le_Path u)
               else (s\<lparr>cs_notes := cs_notes s @ [RejectedNote (le_Path u) reject]\<rparr>, base))))"

definition delete_remote ::
    "'t transport \<Rightarrow> 't client_state \<times> baseline \<Rightarrow> local_entry \<Rightarrow> 't client_state \<times> baseline" where
  "delete_remote tr = (\<lambda>(s, base) d.
     (case tr_Delete tr d (cs_t s) of
        (Inl _, t) \<Rightarrow> (s\<lparr>cs_t := t\<rparr>, base)
      | (Inr (_, reject), t) \<Rightarrow>
          (s\<lparr>cs_t := t\<rparr>, if reject = '''' then AList.delete (le_Path d) base else base)))"

definition delete_local ::
    "string \<Rightarrow> 't client_state \<times> baseline \<Rightarrow> file_entry \<Rightarrow> 't client_state \<times> baseline" where
  "delete_local root = (\<lambda>(s, base) d.
     (s\<lparr>cs_fs := snd (os_Remove (cs_fs s) (filepath_Join root (fe_Path d)))\<rparr>,
      AList.delete (fe_Path d) base))"

definition clean_base :: "local_entry list \<Rightarrow> baseline" where
  "clean_base local =
     foldl (\<lambda>base l. if le_State l = StateClean
       then AList.update (le_Path l) (clean (le_Path l) (le_BaseRevision l) (le_BaseSHA256 l)) base
       else base) [] local"

definition execute ::
    "'t transport \<Rightarrow> string \<Rightarrow> (string \<Rightarrow> utc_time) \<Rightarrow> (string list \<Rightarrow> string list) \<Rightarrow> plan \<Rightarrow> string \<Rightarrow>
       local_entry list \<Rightarrow> 't client_state \<Rightarrow> local_entry list \<times> 't client_state" where
  "execute tr root clock rng p mode local s =
     (let x = (s, clean_base local);
          x = (if mode \<noteq> ''cleanup'' then foldl (upload tr root clock) x (Upload p) else x);
          x = foldl (download tr root) x (Download p);
          x = foldl (delete_remote tr) x (DeleteToRemote p);
          x = foldl (delete_local root) x (DeleteToLocal p);
          x = foldl (saveConflict tr root clock) x (map cf_Path (Conflicts p))
      in (map (\<lambda>k. the (map_of (snd x) k)) (rng (map fst (snd x))), fst x))"

datatype sync_error = SyncTransport | SyncScan errno | SyncLoad load_error

definition SyncOnce ::
    "(bytes \<Rightarrow> string) \<Rightarrow> (bytes \<Rightarrow> local_entry list option) \<Rightarrow> 't transport \<Rightarrow> string \<Rightarrow> string \<Rightarrow>
       (string \<Rightarrow> utc_time) \<Rightarrow> (string list \<Rightarrow> string list) \<Rightarrow> 't client_state \<Rightarrow>
       (sync_error + local_entry list) \<times> 't client_state" where
  "SyncOnce sha dec tr root device clock rng s =
     (case tr_Hello tr device (cs_t s) of
        (Inl _, t) \<Rightarrow> (Inl SyncTransport, s\<lparr>cs_t := t\<rparr>)
      | (Inr mode, t) \<Rightarrow>
     (case tr_Manifest tr t of
        (Inl _, t) \<Rightarrow> (Inl SyncTransport, s\<lparr>cs_t := t\<rparr>)
      | (Inr remote, t) \<Rightarrow>
     (case ScanDir sha (cs_fs s) root of
        (Some e, _) \<Rightarrow> (Inl (SyncScan e), s\<lparr>cs_t := t\<rparr>)
      | (None, scanned) \<Rightarrow>
     (case li_Load dec root (cs_fs s) of
        Inl e \<Rightarrow> (Inl (SyncLoad e), s\<lparr>cs_t := t\<rparr>)
      | Inr base \<Rightarrow>
     let local = BuildLocal scanned base;
         p = Diff rng local remote
     in (case execute tr root clock rng p mode local (s\<lparr>cs_t := t\<rparr>) of
           (es, s') \<Rightarrow> (Inr es, s'))))))"

section \<open>Writing a file keeps all others\<close>

lemma os_Create_real:
  assumes "clean_comps (d @ [c])" "is_dir fs d" "\<forall>t. lookup fs (d @ [c]) \<noteq> Some (Link t)"
    "os_Create fs (abs_str (d @ [c])) b = (r, fs')"
  shows "(r = None \<and> \<not> is_dir fs (d @ [c]) \<and> leaf fs' = (leaf fs)(d @ [c] \<mapsto> File b) \<and>
            (\<forall>q. is_dir fs' q = is_dir fs q) \<and> (wf_node fs \<longrightarrow> wf_node fs')) \<or>
         (r \<noteq> None \<and> is_dir fs (d @ [c]) \<and> fs' = fs)"
proof -
  have sg: "segs (abs_str (d @ [c])) = [] # d @ [c]" by (rule segs_abs_str[OF assms(1)]) simp
  have lst: "last (segs (abs_str (d @ [c]))) \<notin> {[], ''.'', ''..''}"
    using assms(1) by (simp add: sg clean_seg_def)
  have "create_target kernel_links fs (abs_str (d @ [c])) =
      (if is_dir fs (d @ [c]) then Inl EISDIR else Inr (d @ [c]))"
    using lst assms(3)
    by (subst create_target.simps)
      (auto simp: entry_of_real[OF assms(1,2)] is_dir_iff split: option.split node.split)
  with assms(4) have "(r, fs') = (if is_dir fs (d @ [c]) then (Some EISDIR, fs)
      else (None, put_at (d @ [c]) (Some (File b)) fs))"
    by (auto simp: os_Create_def)
  then show ?thesis
    using assms(1,2) leaf_put_at[of "d @ [c]" fs "Some (File b)"] is_dir_put_at[of "d @ [c]" fs "Some (File b)"]
      wf_put_at[of fs "d @ [c]" "Some (File b)"]
    by (auto simp: clean_comps_def split: if_splits)
qed

lemma plain_cong: "workspace rc fs \<Longrightarrow> workspace rc fs' \<Longrightarrow> plain rc fs \<Longrightarrow>
    (\<And>r t. leaf fs' (rc @ r) = Some (Link t) \<Longrightarrow> leaf fs (rc @ r) = Some (Link t)) \<Longrightarrow> plain rc fs'"
  unfolding plain_iff by blast

definition dl_loc :: "string list \<Rightarrow> string \<Rightarrow> string list" where
  "dl_loc rc rel = rc @ butlast (segs rel) @ [last (segs rel) @ dl_suffix]"

lemma writeLocal_effect:
  assumes ws: "workspace rc fs" and pl: "plain rc fs" and rel: "clean_comps (segs rel)"
    and w: "writeLocal (abs_str rc) rel r fs = (res, fs')"
  shows "workspace rc fs' \<and> plain rc fs' \<and>
    (\<forall>p. p \<noteq> rc @ segs rel \<longrightarrow> p \<noteq> dl_loc rc rel \<longrightarrow> leaf fs' p = leaf fs p) \<and>
    (res = None \<longrightarrow> leaf fs' (rc @ segs rel) = Some (File (rd_data r)) \<and> leaf fs' (dl_loc rc rel) = None) \<and>
    (res \<noteq> None \<longrightarrow> leaf fs' (rc @ segs rel) = leaf fs (rc @ segs rel))"
proof -
  have cc: "clean_comps rc" using ws by (simp add: workspace_def)
  have ss: "segs rel \<noteq> []" "clean_comps (segs rel)" using rel by (simp_all add: segs_def split_ch_nonempty)
  define d where "d = rc @ butlast (segs rel)"
  define c where "c = last (segs rel)"
  define c' where "c' = c @ dl_suffix"
  have l: "rc @ segs rel = d @ [c]" "dl_loc rc rel = d @ [c']"
    using ss(1) by (simp_all add: d_def c_def c'_def dl_loc_def)
  have cd: "clean_comps d" "clean_seg c"
    using ss cc clean_comps_butlast[OF ss(2)] by (auto simp: d_def c_def clean_comps_def)
  have cs': "clean_seg c'" using cd(2) by (auto simp: clean_seg_def c'_def dl_suffix_def append_eq_Cons_conv)
  have ne: "d @ [c] \<noteq> d @ [c']" by (simp add: c'_def dl_suffix_def)
  have ab: "filepath_Join (abs_str rc) rel = abs_str (d @ [c])"
    using filepath_Join_abs[OF cc ss(2,1)] l(1) by simp
  have tmp: "abs_str (d @ [c]) @ dl_suffix = abs_str (d @ [c'])"
    by (simp add: abs_str_snoc c'_def)
  have par: "filepath_Dir (abs_str (d @ [c])) = abs_str d" using cd by (intro filepath_Dir_abs) simp
  obtain rm fs1 where mk: "os_MkdirAll fs (abs_str d) = (rm, fs1)" by fastforce
  then have mk': "mkdir_all fs (rev d) = (rm, fs1)" using cd(1) by (simp add: os_MkdirAll_def)
  have crev: "clean_comps (rev d)" using cd(1) by (auto simp: clean_comps_def)
  have M: "extends fs fs1" "leaf fs1 = leaf fs" "wf_node fs1"
    using mkdir_all_effect[OF mk' crev workspace_root[OF ws]] ws by (auto simp: workspace_def)
  have w1: "workspace rc fs1" using workspace_cong[OF ws _ M(3)] M(1) by (auto simp: extends_def)
  have p1: "plain rc fs1" using plain_cong[OF ws w1 pl] M(2) by simp
  show ?thesis
  proof (cases rm)
    case (Some e)
    then have "fs' = fs1 \<and> res \<noteq> None" using w mk by (auto simp: writeLocal_def ab par)
    with M w1 p1 show ?thesis by auto
  next
    case None
    from mkdir_all_ok[OF mk'[unfolded None] crev workspace_root[OF ws]] obtain q
      where q: "walk kernel_links fs1 [] d True = Inr q" "is_dir fs1 q" by auto
    have "walk kernel_links fs1 [] d True = walk kernel_links fs1 rc (butlast (segs rel)) True"
      using walk_real[of rc fs1 "[]" kernel_links "butlast (segs rel)" True] w1 by (simp add: d_def workspace_def)
    with q(1) have "walk kernel_links fs1 rc (butlast (segs rel)) True = Inr q" by simp
    then have "q = d"
      using walk_no_links[of kernel_links fs1 rc "butlast (segs rel)" True q] clean_comps_butlast[OF ss(2)]
        plain_no_link[OF w1 p1] by (simp add: d_def)
    with q(2) have dd: "is_dir fs1 d" by simp
    have nl: "lookup fs1 (d @ [x]) \<noteq> Some (Link t)" for x t
      using plain_no_link[OF w1 p1, of "butlast (segs rel) @ [x]" t] by (simp add: d_def leaf_Some_iff)
    obtain rcr fs2 where cr: "os_Create fs1 (abs_str (d @ [c'])) (rd_data r) = (rcr, fs2)" by fastforce
    have cl: "clean_comps (d @ [c'])" "clean_comps (d @ [c])" using cd cs' by simp_all
    from os_Create_real[OF cl(1) dd _ cr] nl consider
      (ok) "rcr = None" "leaf fs2 = (leaf fs1)(d @ [c'] \<mapsto> File (rd_data r))" "\<forall>q. is_dir fs2 q = is_dir fs1 q"
        "wf_node fs2" "\<not> is_dir fs1 (d @ [c'])"
      | (bad) "rcr \<noteq> None" "fs2 = fs1" using M(3) by auto
    then show ?thesis
    proof cases
      case bad
      then have "fs' = fs1 \<and> res \<noteq> None" using w mk None cr by (auto simp: writeLocal_def ab par tmp)
      with M w1 p1 show ?thesis by auto
    next
      case ok
      have w2: "workspace rc fs2" using workspace_cong[OF w1 _ ok(4)] ok(3) by simp
      have d2: "is_dir fs2 d" using dd ok(3) by simp
      show ?thesis
      proof (cases "rd_fails r")
        case True
        obtain rr fs3 where rm: "os_Remove fs2 (abs_str (d @ [c'])) = (rr, fs3)" by fastforce
        have "fs' = fs3 \<and> res \<noteq> None" using w mk None cr ok(1) True rm by (auto simp: writeLocal_def ab par tmp)
        moreover have "\<not> is_dir fs2 (d @ [c'])" using ok(3,5) by simp
        from os_Remove_real[OF cl(1) d2 rm this] have R: "leaf fs3 = (leaf fs2)(d @ [c'] := None)"
          "\<forall>q. is_dir fs3 q = is_dir fs2 q" "wf_node fs3" using ok(4) by blast+
        moreover have w3: "workspace rc fs3" using workspace_cong[OF w2 _ R(3)] R(2) by simp
        moreover have "plain rc fs3"
          by (rule plain_cong[OF w1 w3 p1]) (auto simp: R(1) ok(2) split: if_splits)
        ultimately show ?thesis using R(1) ok(2) M(2) ne l by auto
      next
        case False
        obtain rr fs3 where rn: "os_Rename fs2 (abs_str (d @ [c'])) (abs_str (d @ [c])) = (rr, fs3)" by fastforce
        have fin: "fs' = fs3 \<and> (res = None \<longleftrightarrow> rr = None)"
          using w mk None cr ok(1) False rn by (auto simp: writeLocal_def ab par tmp split: option.splits)
        have lk: "lookup fs2 (d @ [c']) = Some (File (rd_data r))"
          using ok(2) by (metis fun_upd_same leaf_Some_iff)
        from os_Rename_real[OF cl d2 lk rn] show ?thesis
        proof (elim disjE conjE)
          assume r: "rr = None" "leaf fs3 = (leaf fs2)(d @ [c'] := None, d @ [c] \<mapsto> File (rd_data r))"
            "\<forall>q. is_dir fs3 q = is_dir fs2 q" "wf_node fs2 \<longrightarrow> wf_node fs3"
          have w3: "workspace rc fs3" using workspace_cong[OF w2] r(3,4) ok(4) by simp
          have "plain rc fs3" by (rule plain_cong[OF w1 w3 p1]) (auto simp: r(2) ok(2) split: if_splits)
          with w3 r(1,2) ok(2) M(2) ne l fin show ?thesis by auto
        next
          assume r: "rr \<noteq> None" "fs3 = fs2"
          have "plain rc fs2" by (rule plain_cong[OF w1 w2 p1]) (auto simp: ok(2) split: if_splits)
          with w2 r ok(2) M(2) ne l fin show ?thesis by auto
        qed
      qed
    qed
  qed
qed

lemma os_Remove_rel:
  assumes ws: "workspace rc fs" and pl: "plain rc fs" and k: "clean_comps (segs k)"
    and r: "os_Remove fs (filepath_Join (abs_str rc) k) = (r, fs')"
  shows "workspace rc fs' \<and> plain rc fs' \<and> leaf fs' = (leaf fs)(rc @ segs k := None)"
proof -
  have cc: "clean_comps rc" using ws by (simp add: workspace_def)
  have ss: "segs k \<noteq> []" by (simp add: segs_def split_ch_nonempty)
  define d where "d = rc @ butlast (segs k)"
  define c where "c = last (segs k)"
  have l: "rc @ segs k = d @ [c]" using ss by (simp add: d_def c_def)
  have cl: "clean_comps (d @ [c])" using cc k unfolding l[symmetric] by (auto simp: clean_comps_def)
  have ab: "filepath_Join (abs_str rc) k = abs_str (d @ [c])"
    using filepath_Join_abs[OF cc k ss] l by simp
  have noparent: "fs' = fs \<and> leaf fs (d @ [c]) = None" if nd: "\<not> is_dir fs d"
  proof -
    have "\<exists>e. entry_of fs (abs_str (d @ [c])) = Inl e"
    proof (cases "entry_of fs (abs_str (d @ [c]))")
      case (Inr q)
      have "walk kernel_links fs [] d True = walk kernel_links fs rc (butlast (segs k)) True"
        using walk_real[of rc fs "[]" kernel_links "butlast (segs k)" True] ws by (simp add: d_def workspace_def)
      moreover from Inr obtain p where p: "walk kernel_links fs [] d True = Inr p" "is_dir fs p"
        using cl by (auto simp: entry_of_def Let_def split: sum.splits if_splits)
      ultimately have "p = d"
        using walk_no_links[of kernel_links fs rc "butlast (segs k)" True p] clean_comps_butlast[OF k]
          plain_no_link[OF ws pl] by (simp add: d_def)
      with p(2) nd show ?thesis by simp
    qed simp
    moreover have "lookup fs (d @ [c]) = None" using nd is_dir_butlast[of fs "d @ [c]"] by force
    ultimately show ?thesis using r by (auto simp: os_Remove_def ab leaf_def)
  qed
  have kept: "workspace rc fs' \<and> plain rc fs'"
    if "leaf fs' = (leaf fs)(d @ [c] := None)" "is_dir fs' rc" "wf_node fs'"
  proof -
    have w: "workspace rc fs'" using ws that by (simp add: workspace_def)
    have "plain rc fs'" by (rule plain_cong[OF ws w pl]) (auto simp: that(1) split: if_splits)
    with w show ?thesis ..
  qed
  have rd: "is_dir fs rc" "wf_node fs" "rc \<noteq> d @ [c]" using ws ss l by (auto simp: workspace_def)
  show ?thesis
  proof (cases "is_dir fs d")
    case False
    with noparent ws pl l show ?thesis by (simp add: fun_upd_idem)
  next
    case d: True
    note r' = r[unfolded ab]
    have "leaf fs' = (leaf fs)(d @ [c] := None) \<and> is_dir fs' rc \<and> wf_node fs'"
    proof (cases "is_dir fs (d @ [c])")
      case True
      then have "leaf fs (d @ [c]) = None" by (auto simp: leaf_def is_dir_def split: option.splits node.splits)
      with os_Remove_dir[OF cl d r' True] rd show ?thesis by (auto simp: fun_upd_idem)
    next
      case False
      from os_Remove_real[OF cl d r' False] rd show ?thesis by simp
    qed
    with kept l show ?thesis by simp
  qed
qed

section \<open>What a round does to the files\<close>

text \<open>\<open>files_kept rc W fs fs'\<close>: outside the locations \<open>W\<close> no file of the directory tree changed.\<close>

definition files_kept :: "string list \<Rightarrow> string list set \<Rightarrow> node \<Rightarrow> node \<Rightarrow> bool" where
  "files_kept rc W fs fs' \<longleftrightarrow>
     (workspace rc fs \<and> plain rc fs \<longrightarrow>
        workspace rc fs' \<and> plain rc fs' \<and> (\<forall>p. p \<notin> W \<longrightarrow> leaf fs' p = leaf fs p))"

lemma files_kept_refl [simp]: "files_kept rc W fs fs"
  by (simp add: files_kept_def)

lemma files_kept_trans: "files_kept rc W a b \<Longrightarrow> files_kept rc W b c \<Longrightarrow> files_kept rc W a c"
  by (auto simp: files_kept_def)

lemma files_kept_foldl:
  assumes "\<And>y x. x \<in> set xs \<Longrightarrow> files_kept rc W (cs_fs (fst y)) (cs_fs (fst (f y x)))"
  shows "files_kept rc W (cs_fs (fst y)) (cs_fs (fst (foldl f y xs)))"
  using assms
proof (induction xs arbitrary: y)
  case (Cons x xs)
  have "files_kept rc W (cs_fs (fst y)) (cs_fs (fst (f y x)))" using Cons.prems[of x y] by simp
  moreover have "files_kept rc W (cs_fs (fst (f y x))) (cs_fs (fst (foldl f (f y x) xs)))"
    using Cons.prems by (intro Cons.IH) simp
  ultimately show ?case using files_kept_trans by fastforce
qed simp

definition touched :: "string list \<Rightarrow> string \<Rightarrow> string list set" where
  "touched rc k = {rc @ segs k, dl_loc rc k}"

lemma writeLocal_kept:
  assumes "clean_comps (segs rel)" "touched rc rel \<subseteq> W" "writeLocal (abs_str rc) rel r fs = (res, fs')"
  shows "files_kept rc W fs fs'"
  unfolding files_kept_def
proof (intro impI)
  assume "workspace rc fs \<and> plain rc fs"
  then have "workspace rc fs' \<and> plain rc fs' \<and>
      (\<forall>p. p \<noteq> rc @ segs rel \<longrightarrow> p \<noteq> dl_loc rc rel \<longrightarrow> leaf fs' p = leaf fs p)"
    using writeLocal_effect[OF _ _ assms(1,3)] by blast
  then show "workspace rc fs' \<and> plain rc fs' \<and> (\<forall>p. p \<notin> W \<longrightarrow> leaf fs' p = leaf fs p)"
    using assms(2) unfolding touched_def by blast
qed

lemma segs_append_clean:
  assumes "CHR ''/'' \<notin> set s"
  shows "segs (k @ s) = butlast (segs k) @ [last (segs k) @ s]"
proof -
  have "split_ch (CHR ''/'') (k @ s) =
      butlast (split_ch (CHR ''/'') k) @ [last (split_ch (CHR ''/'') k) @ s]"
  proof (induction k)
    case Nil
    then show ?case using assms by (simp add: split_ch_single)
  next
    case (Cons x k)
    then show ?case
      by (cases "split_ch (CHR ''/'') k" rule: rev_cases)
        (auto simp: append_eq_Cons_conv Cons_eq_append_conv split: list.split)
  qed
  then show ?thesis by (simp add: segs_def)
qed

lemma clean_conflict_name:
  assumes "clean_comps (segs k)"
  shows "clean_comps (segs (ConflictName k ''remote'' t))"
proof -
  define x where "x = ''.conflict-remote-'' @ format_stamp t"
  have dg: "digit n \<noteq> CHR ''/''" for n
  proof
    assume "digit n = CHR ''/''"
    then have "(of_char (digit n) :: nat) = of_char (CHR ''/'')" by simp
    then show False by (simp add: digit_def)
  qed
  have x: "CHR ''/'' \<notin> set x" "length x \<ge> 3"
    using dg dg[symmetric] by (simp_all add: x_def format_stamp_def pad2_def pad4_def)
  have "clean_seg (last (segs k))" using assms by (simp add: clean_comps_def segs_def)
  then have "clean_seg (last (segs k) @ x)" using x by (auto simp: clean_seg_def append_eq_Cons_conv)
  moreover have "segs (ConflictName k ''remote'' t) = butlast (segs k) @ [last (segs k) @ x]"
    using segs_append_clean[OF x(1), of k] by (simp add: ConflictName_def x_def)
  ultimately show ?thesis using clean_comps_butlast[OF assms] by (simp add: clean_comps_def)
qed

text \<open>Each step of \<open>execute\<close> leaves alone all files but those it names.\<close>

abbreviation conflict_touched where
  "conflict_touched rc clock k \<equiv> touched rc (ConflictName k ''remote'' (clock k))"

lemma download_kept:
  assumes "clean_comps (segs (fe_Path d))" "touched rc (fe_Path d) \<subseteq> W"
  shows "files_kept rc W (cs_fs (fst y)) (cs_fs (fst (download tr (abs_str rc) y d)))"
  using writeLocal_kept[OF assms]
  by (auto simp: download_def split: prod.splits sum.splits option.splits)

lemma saveConflict_kept:
  assumes "clean_comps (segs k)" "conflict_touched rc clock k \<subseteq> W"
  shows "files_kept rc W (cs_fs (fst y)) (cs_fs (fst (saveConflict tr (abs_str rc) clock y k)))"
  using writeLocal_kept[OF clean_conflict_name[OF assms(1)] assms(2)]
  by (auto simp: saveConflict_def Let_def split: prod.splits sum.splits option.splits)

lemma upload_kept:
  assumes "clean_comps (segs (le_Path u))" "conflict_touched rc clock (le_Path u) \<subseteq> W"
  shows "files_kept rc W (cs_fs (fst y)) (cs_fs (fst (upload tr (abs_str rc) clock y u)))"
proof (cases y)
  case (Pair s base)
  show ?thesis
  proof (cases "os_Open (cs_fs s) (filepath_Join (abs_str rc) (le_Path u))")
    case (Inl e)
    with Pair show ?thesis by (simp add: upload_def)
  next
    case f: (Inr f)
    obtain r t where p: "tr_Put tr u f (cs_t s) = (r, t)" by fastforce
    show ?thesis
      using saveConflict_kept[where y = "(s\<lparr>cs_t := t\<rparr>, base)" and tr = tr and rc = rc and clock = clock and W = W, OF assms] Pair f p
      by (auto simp: upload_def Let_def split: sum.splits prod.splits)
  qed
qed

lemma delete_remote_kept: "cs_fs (fst (delete_remote tr y d)) = cs_fs (fst y)"
  by (auto simp: delete_remote_def split: prod.splits sum.splits)

lemma delete_local_kept:
  assumes "clean_comps (segs (fe_Path d))" "rc @ segs (fe_Path d) \<in> W"
  shows "files_kept rc W (cs_fs (fst y)) (cs_fs (fst (delete_local (abs_str rc) y d)))"
proof -
  obtain r fs' where "os_Remove (cs_fs (fst y)) (filepath_Join (abs_str rc) (fe_Path d)) = (r, fs')" by fastforce
  with os_Remove_rel[OF _ _ assms(1) this] assms(2) show ?thesis
    by (auto simp: files_kept_def delete_local_def split: prod.splits)
qed

text \<open>What a plan can touch.\<close>

definition plan_touched :: "string list \<Rightarrow> (string \<Rightarrow> utc_time) \<Rightarrow> plan \<Rightarrow> string list set" where
  "plan_touched rc clock p =
     (\<Union>d \<in> set (Download p). touched rc (fe_Path d)) \<union>
     (\<lambda>d. rc @ segs (fe_Path d)) ` set (DeleteToLocal p) \<union>
     (\<Union>k \<in> le_Path ` set (Upload p) \<union> cf_Path ` set (Conflicts p). conflict_touched rc clock k)"

definition plan_clean :: "plan \<Rightarrow> bool" where
  "plan_clean p \<longleftrightarrow> (\<forall>k \<in> fe_Path ` set (Download p) \<union> fe_Path ` set (DeleteToLocal p) \<union>
     le_Path ` set (Upload p) \<union> cf_Path ` set (Conflicts p). clean_comps (segs k))"

lemma execute_kept:
  assumes "plan_clean p"
  shows "files_kept rc (plan_touched rc clock p) (cs_fs s)
    (cs_fs (snd (execute tr (abs_str rc) clock rng p mode local s)))"
proof -
  let ?W = "plan_touched rc clock p" and ?r = "abs_str rc"
  define x0 where "x0 = (s, clean_base local)"
  define x1 where "x1 = (if mode \<noteq> ''cleanup'' then foldl (upload tr ?r clock) x0 (Upload p) else x0)"
  define x2 where "x2 = foldl (download tr ?r) x1 (Download p)"
  define x3 where "x3 = foldl (delete_remote tr) x2 (DeleteToRemote p)"
  define x4 where "x4 = foldl (delete_local ?r) x3 (DeleteToLocal p)"
  define x5 where "x5 = foldl (saveConflict tr ?r clock) x4 (map cf_Path (Conflicts p))"
  have "snd (execute tr ?r clock rng p mode local s) = fst x5"
    by (simp add: execute_def Let_def x5_def x4_def x3_def x2_def x1_def x0_def)
  moreover have "files_kept rc ?W (cs_fs (fst x0)) (cs_fs (fst x1))"
    using assms by (auto simp: x1_def plan_clean_def plan_touched_def
        intro!: files_kept_foldl upload_kept)
  moreover have "files_kept rc ?W (cs_fs (fst x1)) (cs_fs (fst x2))"
    using assms unfolding x2_def
    by (intro files_kept_foldl download_kept) (auto simp: plan_clean_def plan_touched_def)
  moreover have "files_kept rc ?W (cs_fs (fst x2)) (cs_fs (fst x3))"
    unfolding x3_def by (intro files_kept_foldl) (simp add: delete_remote_kept)
  moreover have "files_kept rc ?W (cs_fs (fst x3)) (cs_fs (fst x4))"
    using assms unfolding x4_def
    by (intro files_kept_foldl delete_local_kept) (auto simp: plan_clean_def plan_touched_def)
  moreover have "files_kept rc ?W (cs_fs (fst x4)) (cs_fs (fst x5))"
    using assms unfolding x5_def
    by (intro files_kept_foldl saveConflict_kept) (auto simp: plan_clean_def plan_touched_def)
  ultimately show ?thesis
    using files_kept_trans[of rc ?W] by (metis fst_conv x0_def)
qed

section \<open>What a round relies on\<close>

text \<open>The contract of a transport. \<open>later\<close> relates the states of one connection; \<open>ok\<close> is its invariant;
  \<open>fine\<close> is the assumption on everything that happened up to a state; \<open>named\<close> holds of the strings the
  messages carry unchanged; \<open>honest t k r h\<close> says that the server has seen revision \<open>r\<close> of \<open>k\<close>, and
  that \<open>h\<close> is blank or the digest of that revision if it is still the current one.\<close>

locale sync_transport =
  fixes tr :: "'t transport"
    and later :: "'t \<Rightarrow> 't \<Rightarrow> bool"
    and ok fine :: "'t \<Rightarrow> bool"
    and named :: "string \<Rightarrow> bool"
    and honest :: "'t \<Rightarrow> string \<Rightarrow> int64 \<Rightarrow> string \<Rightarrow> bool"
  assumes later_refl: "later t t"
    and later_trans: "later t u \<Longrightarrow> later u v \<Longrightarrow> later t v"
    and fine_back: "later t u \<Longrightarrow> fine u \<Longrightarrow> fine t"
    and honest_later: "ok t \<Longrightarrow> later t u \<Longrightarrow> fine u \<Longrightarrow> honest t k r h \<Longrightarrow> honest u k r h"
    and hello: "tr_Hello tr d t = (rh, t') \<Longrightarrow> later t t' \<and> (ok t \<longrightarrow> fine t' \<longrightarrow> ok t')"
    and manifest: "tr_Manifest tr t = (rm, t') \<Longrightarrow> later t t' \<and> (ok t \<longrightarrow> fine t' \<longrightarrow> ok t' \<and>
          (\<forall>rs. rm = Inr rs \<longrightarrow> (\<forall>r \<in> set rs. named (fe_Path r))))"
    and put: "tr_Put tr l f t = (rp, t') \<Longrightarrow> later t t' \<and> (ok t \<longrightarrow> fine t' \<longrightarrow> ok t' \<and>
          (\<forall>r. rp = Inr (r, '''') \<longrightarrow> named (le_Path l) \<longrightarrow> named (le_CurrentSHA256 l) \<longrightarrow>
             honest t' (le_Path l) r (le_CurrentSHA256 l)))"
    and get: "tr_Get tr k t = (rg, t') \<Longrightarrow> later t t' \<and> (ok t \<longrightarrow> fine t' \<longrightarrow> ok t' \<and>
          (\<forall>e rc. rg = Inr (e, rc) \<longrightarrow> named k \<longrightarrow> honest t' k (fe_Revision e) (fe_SHA256 e)))"
    and delete: "tr_Delete tr l t = (rd, t') \<Longrightarrow> later t t' \<and> (ok t \<longrightarrow> fine t' \<longrightarrow> ok t')"
begin

definition base_ok :: "'t \<Rightarrow> baseline \<Rightarrow> bool" where
  "base_ok t base \<longleftrightarrow> (\<forall>(k, e) \<in> set base. k = le_Path e \<and> le_State e = StateClean \<and>
     honest t k (le_BaseRevision e) (le_BaseSHA256 e))"

definition round_ok :: "'t client_state \<times> baseline \<Rightarrow> bool" where
  "round_ok y \<longleftrightarrow> ok (cs_t (fst y)) \<and> base_ok (cs_t (fst y)) (snd y)"

lemma base_ok_later: "ok t \<Longrightarrow> later t u \<Longrightarrow> fine u \<Longrightarrow> base_ok t base \<Longrightarrow> base_ok u base"
  unfolding base_ok_def using honest_later by fast

lemma base_ok_update:
  assumes "base_ok t base" "honest t k r h"
  shows "base_ok t (AList.update k (clean k r h) base)"
proof -
  have "set (AList.update k v base) \<subseteq> insert (k, v) (set base)" for v
    by (induction base) auto
  with assms show ?thesis unfolding base_ok_def by (fastforce simp: clean_def)
qed

lemma base_ok_delete: "base_ok t base \<Longrightarrow> base_ok t (AList.delete k base)"
  by (auto simp: base_ok_def AList.delete_eq)

text \<open>Each step of \<open>execute\<close>: the connection moves on, and the baseline stays honest.\<close>

lemma download_ok:
  "later (cs_t (fst y)) (cs_t (fst (download tr root y d)))"
  "round_ok y \<Longrightarrow> fine (cs_t (fst (download tr root y d))) \<Longrightarrow> named (fe_Path d) \<Longrightarrow>
     round_ok (download tr root y d)"
proof -
  obtain s base where y: "y = (s, base)" by fastforce
  obtain rg t' where g: "tr_Get tr (fe_Path d) (cs_t s) = (rg, t')" by fastforce
  have t: "cs_t (fst (download tr root y d)) = t'"
    using y g by (auto simp: download_def split: sum.splits prod.splits option.splits)
  with get[OF g] y show "later (cs_t (fst y)) (cs_t (fst (download tr root y d)))" by simp
  assume a: "round_ok y" "fine (cs_t (fst (download tr root y d)))" "named (fe_Path d)"
  then have b: "ok t'" "base_ok t' base" "\<forall>e rc. rg = Inr (e, rc) \<longrightarrow> honest t' (fe_Path d) (fe_Revision e) (fe_SHA256 e)"
    using get[OF g] base_ok_later t y by (auto simp: round_ok_def)
  show "round_ok (download tr root y d)"
    using y g b base_ok_update[OF b(2)]
    by (auto simp: download_def round_ok_def split: sum.splits prod.splits option.splits)
qed

lemma saveConflict_ok:
  "later (cs_t (fst y)) (cs_t (fst (saveConflict tr root clock y k)))"
  "round_ok y \<Longrightarrow> fine (cs_t (fst (saveConflict tr root clock y k))) \<Longrightarrow> named k \<Longrightarrow>
     round_ok (saveConflict tr root clock y k)"
proof -
  obtain s base where y: "y = (s, base)" by fastforce
  obtain rg t' where g: "tr_Get tr k (cs_t s) = (rg, t')" by fastforce
  have t: "cs_t (fst (saveConflict tr root clock y k)) = t'"
    using y g by (auto simp: saveConflict_def Let_def split: sum.splits prod.splits option.splits)
  with get[OF g] y show "later (cs_t (fst y)) (cs_t (fst (saveConflict tr root clock y k)))" by simp
  assume a: "round_ok y" "fine (cs_t (fst (saveConflict tr root clock y k)))" "named k"
  then have b: "ok t'" "base_ok t' base" "\<forall>e rc. rg = Inr (e, rc) \<longrightarrow> honest t' k (fe_Revision e) (fe_SHA256 e)"
    using get[OF g] base_ok_later t y by (auto simp: round_ok_def)
  show "round_ok (saveConflict tr root clock y k)"
    using y g b base_ok_update[OF b(2)]
    by (auto simp: saveConflict_def Let_def round_ok_def split: sum.splits prod.splits option.splits)
qed

lemma upload_ok:
  "later (cs_t (fst y)) (cs_t (fst (upload tr root clock y u)))"
  "round_ok y \<Longrightarrow> fine (cs_t (fst (upload tr root clock y u))) \<Longrightarrow> named (le_Path u) \<Longrightarrow>
     named (le_CurrentSHA256 u) \<Longrightarrow> round_ok (upload tr root clock y u)"
proof -
  obtain s base where y: "y = (s, base)" by fastforce
  have A: "later (cs_t (fst y)) (cs_t (fst (upload tr root clock y u))) \<and>
    (round_ok y \<longrightarrow> fine (cs_t (fst (upload tr root clock y u))) \<longrightarrow> named (le_Path u) \<longrightarrow>
       named (le_CurrentSHA256 u) \<longrightarrow> round_ok (upload tr root clock y u))"
  proof (cases "os_Open (cs_fs s) (filepath_Join root (le_Path u))")
    case (Inl e)
    with y show ?thesis by (simp add: upload_def later_refl)
  next
    case f: (Inr f)
    obtain rp t' where p: "tr_Put tr u f (cs_t s) = (rp, t')" by fastforce
    note P = put[OF p]
    show ?thesis
    proof (cases "\<exists>r. rp = Inr (r, ''conflict'')")
      case True
      let ?y = "(s\<lparr>cs_t := t'\<rparr>, base)"
      have U: "upload tr root clock y u = saveConflict tr root clock ?y (le_Path u)"
        using True y f p by (auto simp: upload_def Let_def)
      have l: "later (cs_t s) t'" "later t' (cs_t (fst (saveConflict tr root clock ?y (le_Path u))))"
        using P saveConflict_ok(1)[of ?y] by simp_all
      have "round_ok ?y" if "round_ok y" "fine (cs_t (fst (saveConflict tr root clock ?y (le_Path u))))"
      proof -
        have "ok (cs_t s)" "base_ok (cs_t s) base" using that(1) y by (simp_all add: round_ok_def)
        moreover have "fine t'" using fine_back[OF l(2) that(2)] .
        ultimately show ?thesis using P l(1) base_ok_later by (simp add: round_ok_def)
      qed
      with U l later_trans y saveConflict_ok(2)[of ?y] show ?thesis by auto
    next
      case False
      have t: "cs_t (fst (upload tr root clock y u)) = t'"
        using y f p False by (auto simp: upload_def Let_def split: sum.splits prod.splits)
      have "round_ok (upload tr root clock y u)"
        if "round_ok y" "fine t'" "named (le_Path u)" "named (le_CurrentSHA256 u)"
      proof -
        have b: "ok t'" "base_ok t' base" "\<forall>r. rp = Inr (r, '''') \<longrightarrow> honest t' (le_Path u) r (le_CurrentSHA256 u)"
          using that P base_ok_later y by (auto simp: round_ok_def)
        show ?thesis
          using y f p b base_ok_update[OF b(2)] False
          by (auto simp: upload_def Let_def round_ok_def split: sum.splits prod.splits)
      qed
      with t P y show ?thesis by simp
    qed
  qed
  then show "later (cs_t (fst y)) (cs_t (fst (upload tr root clock y u)))"
    "round_ok y \<Longrightarrow> fine (cs_t (fst (upload tr root clock y u))) \<Longrightarrow> named (le_Path u) \<Longrightarrow>
     named (le_CurrentSHA256 u) \<Longrightarrow> round_ok (upload tr root clock y u)" by blast+
qed

lemma delete_remote_ok:
  "later (cs_t (fst y)) (cs_t (fst (delete_remote tr y l)))"
  "round_ok y \<Longrightarrow> fine (cs_t (fst (delete_remote tr y l))) \<Longrightarrow> round_ok (delete_remote tr y l)"
proof -
  obtain s base where y: "y = (s, base)" by fastforce
  obtain rd t' where d: "tr_Delete tr l (cs_t s) = (rd, t')" by fastforce
  have t: "cs_t (fst (delete_remote tr y l)) = t'"
    using y d by (auto simp: delete_remote_def split: sum.splits prod.splits)
  with delete[OF d] y show "later (cs_t (fst y)) (cs_t (fst (delete_remote tr y l)))" by simp
  assume a: "round_ok y" "fine (cs_t (fst (delete_remote tr y l)))"
  then have b: "ok t'" "base_ok t' base" using delete[OF d] base_ok_later t y by (auto simp: round_ok_def)
  show "round_ok (delete_remote tr y l)"
    using y d b base_ok_delete[OF b(2)]
    by (auto simp: delete_remote_def round_ok_def split: sum.splits prod.splits)
qed

lemma delete_local_ok:
  "cs_t (fst (delete_local root y d)) = cs_t (fst y)"
  "round_ok y \<Longrightarrow> round_ok (delete_local root y d)"
  using base_ok_delete by (auto simp: delete_local_def round_ok_def split: prod.splits)

lemma foldl_round:
  assumes "\<And>y x. later (cs_t (fst y)) (cs_t (fst (f y x)))"
    and "\<And>y x. G \<Longrightarrow> x \<in> set xs \<Longrightarrow> round_ok y \<Longrightarrow> fine (cs_t (fst (f y x))) \<Longrightarrow> round_ok (f y x)"
  shows "later (cs_t (fst y)) (cs_t (fst (foldl f y xs))) \<and>
    (G \<longrightarrow> round_ok y \<longrightarrow> fine (cs_t (fst (foldl f y xs))) \<longrightarrow> round_ok (foldl f y xs))"
  using assms(2)
proof (induction xs arbitrary: y)
  case (Cons x xs)
  let ?y = "f y x"
  have IH: "later (cs_t (fst ?y)) (cs_t (fst (foldl f ?y xs))) \<and>
      (G \<longrightarrow> round_ok ?y \<longrightarrow> fine (cs_t (fst (foldl f ?y xs))) \<longrightarrow> round_ok (foldl f ?y xs))"
    using Cons.prems by (intro Cons.IH) simp
  moreover have "round_ok ?y" if "G" "round_ok y" "fine (cs_t (fst (foldl f ?y xs)))"
    using Cons.prems[of x y] fine_back[OF conjunct1[OF IH] that(3)] that(1,2) by simp
  moreover have "later (cs_t (fst y)) (cs_t (fst (foldl f ?y xs)))"
    using later_trans[OF assms(1)[of y x] conjunct1[OF IH]] .
  ultimately show ?case by simp
qed (simp add: later_refl)

definition plan_named :: "plan \<Rightarrow> bool" where
  "plan_named p \<longleftrightarrow> (\<forall>d \<in> set (Download p). named (fe_Path d)) \<and> (\<forall>c \<in> set (Conflicts p). named (cf_Path c)) \<and>
     (\<forall>u \<in> set (Upload p). named (le_Path u) \<and> named (le_CurrentSHA256 u))"

lemma execute_ok:
  fixes s :: "'t client_state"
  assumes "execute tr root clock rng p mode local s = (es, s')" "range_order rng"
  shows "later (cs_t s) (cs_t s') \<and>
    (plan_named p \<longrightarrow> ok (cs_t s) \<longrightarrow> fine (cs_t s') \<longrightarrow>
       (\<forall>l \<in> set local. le_State l = StateClean \<longrightarrow> honest (cs_t s) (le_Path l) (le_BaseRevision l) (le_BaseSHA256 l)) \<longrightarrow>
       ok (cs_t s') \<and> (\<forall>e \<in> set es. le_State e = StateClean \<and>
         honest (cs_t s') (le_Path e) (le_BaseRevision e) (le_BaseSHA256 e)))"
proof -
  define x0 where "x0 = (s, clean_base local)"
  define x1 where "x1 = (if mode \<noteq> ''cleanup'' then foldl (upload tr root clock) x0 (Upload p) else x0)"
  define x2 where "x2 = foldl (download tr root) x1 (Download p)"
  define x3 where "x3 = foldl (delete_remote tr) x2 (DeleteToRemote p)"
  define x4 where "x4 = foldl (delete_local root) x3 (DeleteToLocal p)"
  define x5 where "x5 = foldl (saveConflict tr root clock) x4 (map cf_Path (Conflicts p))"
  have "execute tr root clock rng p mode local s =
      (map (\<lambda>k. the (map_of (snd x5) k)) (rng (map fst (snd x5))), fst x5)"
    by (simp only: execute_def Let_def x5_def x4_def x3_def x2_def x1_def x0_def)
  then have fin: "s' = fst x5" "es = map (\<lambda>k. the (map_of (snd x5) k)) (rng (map fst (snd x5)))"
    using assms(1) by simp_all
  define st where "st = (\<lambda>a b. later (cs_t (fst a)) (cs_t (fst b)) \<and>
      (plan_named p \<longrightarrow> round_ok a \<longrightarrow> fine (cs_t (fst b)) \<longrightarrow> round_ok b))"
  have tr: "st a b \<Longrightarrow> st b c \<Longrightarrow> st a c" for a b c
    unfolding st_def using later_trans fine_back by meson
  have "st x0 x1"
    unfolding st_def x1_def
    using foldl_round[of "upload tr root clock" "plan_named p", OF upload_ok(1)] upload_ok(2)
    by (auto simp: plan_named_def later_refl)
  moreover have "st x1 x2"
    unfolding st_def x2_def
    by (intro foldl_round download_ok) (auto simp: plan_named_def)
  moreover have "st x2 x3"
    unfolding st_def x3_def by (intro foldl_round delete_remote_ok)
  moreover have "st x3 x4"
    unfolding st_def x4_def by (intro foldl_round) (simp_all add: delete_local_ok later_refl)
  moreover have "st x4 x5"
    unfolding st_def x5_def
    by (intro foldl_round saveConflict_ok) (auto simp: plan_named_def)
  ultimately have run: "st x0 x5" using tr by blast
  have init: "round_ok x0" if "ok (cs_t s)" "\<forall>l \<in> set local. le_State l = StateClean \<longrightarrow>
      honest (cs_t s) (le_Path l) (le_BaseRevision l) (le_BaseSHA256 l)"
  proof -
    have "base_ok (cs_t s) (clean_base ls)" if "set ls \<subseteq> set local" for ls
      using that
    proof (induction ls rule: rev_induct)
      case Nil
      then show ?case by (simp add: clean_base_def base_ok_def)
    next
      case (snoc l ls)
      then show ?case
        using base_ok_update \<open>\<forall>l \<in> set local. _ l\<close> by (auto simp: clean_base_def)
    qed
    with that(1) show ?thesis by (simp add: round_ok_def x0_def)
  qed
  have keys: "set (rng (map fst b)) \<subseteq> fst ` set b" for b :: baseline
    using range_order_set[OF assms(2)] by auto
  have out: "le_State e = StateClean \<and> honest (cs_t s') (le_Path e) (le_BaseRevision e) (le_BaseSHA256 e)"
    if "round_ok x5" "e \<in> set es" for e
  proof -
    from that(2) fin(2) obtain k where k: "k \<in> set (rng (map fst (snd x5)))" "e = the (map_of (snd x5) k)" by auto
    from k(1) keys have "k \<in> fst ` set (snd x5)" by blast
    with k
    have "(k, e) \<in> set (snd x5)" by (metis map_of_SomeD map_of_eq_None_iff option.exhaust_sel)
    with that(1) fin(1) show ?thesis by (fastforce simp: round_ok_def base_ok_def)
  qed
  show ?thesis
    using run init out unfolding st_def x0_def fin(1) by (auto simp: round_ok_def)
qed

text \<open>A whole round.\<close>

lemma round_plan_named:
  assumes "range_order rng" "\<forall>r \<in> set remote. named (fe_Path r)"
    "\<forall>f \<in> set scanned. named (fe_Path f) \<and> named (fe_SHA256 f)"
  shows "plan_named (Diff rng (BuildLocal scanned base) remote)"
proof -
  let ?p = "Diff rng (BuildLocal scanned base) remote"
  let ?ri = "index_by fe_Path remote"
  have ri: "named k" if "?ri k = Some r" for k r
    using index_by_Some[OF that] assms(2) by auto
  have "named (fe_Path r)" if "r \<in> set (Download ?p)" for r
    using Diff_never_overwrites[OF assms(1), of "BuildLocal scanned base" remote] that ri by blast
  moreover have "named (cf_Path c)" if c: "c \<in> set (Conflicts ?p)" for c
  proof -
    from c obtain l where l: "c = conflict_of ?ri l" "act ?ri l = DoConflict" by (auto simp: Diff_lists)
    from act_has_remote[of l ?ri] l(2) obtain r where "?ri (le_Path l) = Some r" by auto
    with ri l(1) show ?thesis by (auto simp: conflict_of_def)
  qed
  moreover have "named (le_Path l) \<and> named (le_CurrentSHA256 l)" if l: "l \<in> set (Upload ?p)" for l
  proof -
    from l have "l \<in> set (BuildLocal scanned base)" "act ?ri l = DoUpload" by (auto simp: Diff_lists)
    moreover from this(2) have "le_State l = StateModified"
      by (cases "?ri (le_Path l)"; cases "le_State l") (auto simp: Let_def split: if_splits)
    ultimately obtain f where "f \<in> set scanned" "l = build_scanned (index_by le_Path base) f"
      by (auto simp: BuildLocal_eq build_deleted_def)
    with assms(3) show ?thesis by (auto simp: build_scanned_def split: option.split)
  qed
  ultimately show ?thesis unfolding plan_named_def by blast
qed

lemma clean_from_base:
  assumes "l \<in> set (BuildLocal scanned base)" "le_State l = StateClean"
  obtains b where "b \<in> set base" "le_Path b = le_Path l" "le_BaseRevision b = le_BaseRevision l"
    "le_BaseSHA256 b = le_BaseSHA256 l"
proof -
  from assms obtain f where f: "l = build_scanned (index_by le_Path base) f"
    by (auto simp: BuildLocal_eq build_deleted_def)
  then show thesis
    using assms(2) index_by_Some[of le_Path base "fe_Path f"] that
    by (auto simp: build_scanned_def split: option.splits)
qed

lemma SyncOnce_ok:
  fixes s :: "'t client_state"
  assumes "SyncOnce sha dec tr root dev clock rng s = (out, s')" "range_order rng"
    and scanned: "\<And>fs. ScanDir sha (cs_fs s) root = (None, fs) \<Longrightarrow> \<forall>f \<in> set fs. named (fe_Path f) \<and> named (fe_SHA256 f)"
    and base: "\<And>es. li_Load dec root (cs_fs s) = Inr es \<Longrightarrow>
        \<forall>e \<in> set es. honest (cs_t s) (le_Path e) (le_BaseRevision e) (le_BaseSHA256 e)"
  shows "later (cs_t s) (cs_t s') \<and> (ok (cs_t s) \<longrightarrow> fine (cs_t s') \<longrightarrow> ok (cs_t s') \<and>
      (\<forall>es. out = Inr es \<longrightarrow> (\<forall>e \<in> set es. le_State e = StateClean \<and>
         honest (cs_t s') (le_Path e) (le_BaseRevision e) (le_BaseSHA256 e))))"
proof -
  obtain rh t1 where h: "tr_Hello tr dev (cs_t s) = (rh, t1)" by fastforce
  obtain rm t2 where m: "tr_Manifest tr t1 = (rm, t2)" by fastforce
  note H = hello[OF h] and M = manifest[OF m]
  have l2: "later (cs_t s) t2" using H M later_trans by blast
  have ok2: "ok t2" if "ok (cs_t s)" "fine t2" using that H M fine_back[of t1 t2] by blast
  show ?thesis
  proof (cases "\<exists>mode remote fs es. rh = Inr mode \<and> rm = Inr remote \<and> ScanDir sha (cs_fs s) root = (None, fs) \<and>
      li_Load dec root (cs_fs s) = Inr es")
    case True
    then obtain mode remote fs es where R: "rh = Inr mode" "rm = Inr remote" "ScanDir sha (cs_fs s) root = (None, fs)"
      "li_Load dec root (cs_fs s) = Inr es" by blast
    let ?p = "Diff rng (BuildLocal fs es) remote" and ?s = "s\<lparr>cs_t := t2\<rparr>"
    obtain es' where x: "execute tr root clock rng ?p mode (BuildLocal fs es) ?s = (es', s')" "out = Inr es'"
      using assms(1) h m R by (auto simp: SyncOnce_def Let_def split: prod.splits)
    have pn: "plan_named ?p" if "ok (cs_t s)" "fine t2"
    proof -
      have "ok t1" using that H M fine_back[of t1 t2] by blast
      with that M R(2) have "\<forall>r \<in> set remote. named (fe_Path r)" by blast
      then show ?thesis by (rule round_plan_named[OF assms(2)]) (use scanned[OF R(3)] in auto)
    qed
    note X = execute_ok[OF x(1) assms(2)]
    have "honest t2 (le_Path l) (le_BaseRevision l) (le_BaseSHA256 l)"
      if "l \<in> set (BuildLocal fs es)" "le_State l = StateClean" "ok (cs_t s)" "fine t2" for l
    proof -
      from clean_from_base[OF that(1,2)] obtain b where "b \<in> set es" "le_Path b = le_Path l"
        "le_BaseRevision b = le_BaseRevision l" "le_BaseSHA256 b = le_BaseSHA256 l" .
      with base[OF R(4)] have "honest (cs_t s) (le_Path l) (le_BaseRevision l) (le_BaseSHA256 l)" by metis
      then show ?thesis using honest_later[OF that(3) l2 that(4)] by blast
    qed
    moreover have "fine t2" if "fine (cs_t s')"
      using fine_back[of t2 "cs_t s'"] X that by simp
    ultimately show ?thesis
      using X pn ok2 later_trans[OF l2] x(2) by simp
  next
    case False
    have "(cs_t s' = t1 \<or> cs_t s' = t2) \<and> (\<forall>es. out \<noteq> Inr es)"
      using assms(1) False h m by (auto simp: SyncOnce_def Let_def split: sum.splits prod.splits option.splits)
    with H l2 ok2 show ?thesis by auto
  qed
qed

end

section \<open>The plan of a round\<close>

lemma round_plan_clean:
  assumes ws: "workspace rc fs" and pl: "plain rc fs" and rng: "range_order rng"
    and rem: "\<forall>r \<in> set remote. clean_comps (segs (fe_Path r))"
  shows "plan_clean (Diff rng (BuildLocal (scan_spec sha rc fs) base) remote)"
proof -
  let ?p = "Diff rng (BuildLocal (scan_spec sha rc fs) base) remote"
  let ?ri = "index_by fe_Path remote"
  have ri: "clean_comps (segs (fe_Path r)) \<and> fe_Path r = k" if "?ri k = Some r" for k r
    using index_by_Some[OF that] rem by auto
  have "clean_comps (segs (fe_Path r))" if "r \<in> set (Download ?p) \<union> set (DeleteToLocal ?p)" for r
    using Diff_never_overwrites[OF rng, of "BuildLocal (scan_spec sha rc fs) base" remote] that ri by blast
  moreover have "clean_comps (segs (cf_Path c))" if c: "c \<in> set (Conflicts ?p)" for c
  proof -
    from c obtain l where l: "c = conflict_of ?ri l" "act ?ri l = DoConflict" by (auto simp: Diff_lists)
    from act_has_remote[of l ?ri] l(2) obtain r where "?ri (le_Path l) = Some r" by auto
    with ri l(1) show ?thesis by (fastforce simp: conflict_of_def)
  qed
  moreover have "clean_comps (segs (le_Path l))" if l: "l \<in> set (Upload ?p)" for l
  proof -
    from l have "l \<in> set (BuildLocal (scan_spec sha rc fs) base)" "act ?ri l = DoUpload"
      by (auto simp: Diff_lists)
    moreover from this(2) have "le_State l = StateModified"
      by (cases "?ri (le_Path l)"; cases "le_State l") (auto simp: Let_def split: if_splits)
    ultimately obtain f where "f \<in> set (scan_spec sha rc fs)" "fe_Path f = le_Path l"
      by (auto simp: BuildLocal_eq build_deleted_def)
    then have "le_Path l \<in> fe_Path ` set (scan_spec sha rc fs)" by force
    with scan_spec_paths[OF ws pl, of "le_Path l" sha] obtain b where "content rc fs (le_Path l) = Some b" by blast
    then have "leaf fs (rc @ segs (le_Path l)) = Some (File b)"
      by (auto simp: content_def split: option.splits node.splits)
    from ws_leaf_clean[OF ws this] show ?thesis by simp
  qed
  ultimately show ?thesis unfolding plan_clean_def by blast
qed

lemma changed_not_planned:
  assumes ws: "workspace rc fs" and pl: "plain rc fs" and rng: "range_order rng"
    and here: "content rc fs k = Some b" "visible (segs k)"
    and base: "\<forall>e \<in> set base. le_Path e = k \<longrightarrow> le_BaseSHA256 e \<noteq> sha b"
  shows "k \<notin> fe_Path ` (set (Download (Diff rng (BuildLocal (scan_spec sha rc fs) base) remote)) \<union>
    set (DeleteToLocal (Diff rng (BuildLocal (scan_spec sha rc fs) base) remote)))"
proof
  let ?local = "BuildLocal (scan_spec sha rc fs) base"
  assume "k \<in> fe_Path ` (set (Download (Diff rng ?local remote)) \<union> set (DeleteToLocal (Diff rng ?local remote)))"
  then obtain r where r: "r \<in> set (Download (Diff rng ?local remote)) \<union> set (DeleteToLocal (Diff rng ?local remote))"
    "fe_Path r = k" by blast
  have sc: "scanned_entry sha k b \<in> set (scan_spec sha rc fs)" using here scan_spec_set[OF ws pl] by blast
  then have "k \<in> le_Path ` set ?local" by (force simp: BuildLocal_eq scanned_entry_def)
  with Diff_never_overwrites[OF rng, of ?local remote] r obtain l
    where l: "l \<in> set ?local" "le_Path l = k" "le_State l = StateClean" by blast
  then obtain f where f: "f \<in> set (scan_spec sha rc fs)" "l = build_scanned (index_by le_Path base) f"
    by (auto simp: BuildLocal_eq build_deleted_def)
  with l(2) have "fe_Path f = k" by simp
  with f(1) here(1) have "fe_SHA256 f = sha b" unfolding scan_spec_set[OF ws pl]
    by (auto simp: scanned_entry_def)
  with f(2) l(3) \<open>fe_Path f = k\<close> base show False
    using index_by_Some[of le_Path base k]
    by (auto simp: build_scanned_def split: option.splits if_splits)
qed

text \<open>A round touches at most what its plan touches; a round that fails touches nothing.\<close>

lemma SyncOnce_kept:
  assumes h: "SyncOnce sha dec tr (abs_str rc) dev clock rng s = (out, s')"
    and ws: "workspace rc (cs_fs s)" and pl: "plain rc (cs_fs s)" and rng: "range_order rng"
    and server: "\<And>rs t'. tr_Manifest tr (snd (tr_Hello tr dev (cs_t s))) = (Inr rs, t') \<Longrightarrow>
        \<forall>r \<in> set rs. clean_comps (segs (fe_Path r))"
  obtains (failed) e where "out = Inl e" "cs_fs s' = cs_fs s"
  | (ran) es0 es rs where "out = Inr es" "li_Load dec (abs_str rc) (cs_fs s) = Inr es0"
      "files_kept rc (plan_touched rc clock (Diff rng (BuildLocal (scan_spec sha rc (cs_fs s)) es0) rs)) (cs_fs s) (cs_fs s')"
proof (cases "out")
  case (Inl e)
  then have "cs_fs s' = cs_fs s" using h by (auto simp: SyncOnce_def Let_def split: sum.splits prod.splits option.splits)
  with Inl failed show thesis by blast
next
  case (Inr es)
  obtain m t1 where m: "tr_Hello tr dev (cs_t s) = (m, t1)" by fastforce
  obtain rm t2 where rm: "tr_Manifest tr t1 = (rm, t2)" by fastforce
  note sc = ScanDir_spec[OF ws pl, of sha]
  obtain mode rs es0 where R: "m = Inr mode" "rm = Inr rs" "li_Load dec (abs_str rc) (cs_fs s) = Inr es0"
    using h Inr m rm sc by (auto simp: SyncOnce_def Let_def split: sum.splits)
  define p where "p = Diff rng (BuildLocal (scan_spec sha rc (cs_fs s)) es0) rs"
  have x: "execute tr (abs_str rc) clock rng p mode (BuildLocal (scan_spec sha rc (cs_fs s)) es0) (s\<lparr>cs_t := t2\<rparr>) = (es, s')"
    using h Inr m rm sc R by (simp add: SyncOnce_def Let_def p_def split: prod.splits)
  have "plan_clean p" unfolding p_def using server m rm R(2) by (intro round_plan_clean[OF ws pl rng]) simp
  from execute_kept[OF this, of rc clock "s\<lparr>cs_t := t2\<rparr>" tr rng mode "BuildLocal (scan_spec sha rc (cs_fs s)) es0"] x
  show thesis by (intro ran[OF Inr R(3), of rs]) (simp add: p_def)
qed

section \<open>Properties\<close>

text \<open>C3. A round never loses a local change: a file of the directory whose contents differ from the
  baseline has the same contents after the round, whatever the server answers and whether the
  round fails or not; only the names that the client itself makes up (conflict copies, partial
  downloads) are excepted. The paths the server lists must not climb out of the directory, which
  the client does not check.\<close>

theorem round_keeps_changes:
  assumes "workspace rc (cs_fs s)" "plain rc (cs_fs s)" "range_order rng"
    and server: "\<And>t rs t'. tr_Manifest tr t = (Inr rs, t') \<Longrightarrow> \<forall>r \<in> set rs. clean_comps (segs (fe_Path r))"
    and changed: "\<And>es. li_Load dec (abs_str rc) (cs_fs s) = Inr es \<Longrightarrow>
        \<forall>e \<in> set es. le_Path e = k \<longrightarrow> le_BaseSHA256 e \<noteq> sha b"
    and here: "content rc (cs_fs s) k = Some b" "visible (segs k)"
    and names: "\<And>j t. k \<noteq> ConflictName j ''remote'' t" "\<And>j. k \<noteq> j @ dl_suffix"
  shows "content rc (cs_fs (snd (SyncOnce sha dec tr (abs_str rc) dev clock rng s))) k = Some b"
proof -
  have ends: "rc @ segs k \<notin> touched rc j" if "k \<noteq> j" for j
  proof -
    have "rc @ segs k \<noteq> dl_loc rc j"
    proof
      assume "rc @ segs k = dl_loc rc j"
      then have "segs k = segs (j @ dl_suffix)"
        using segs_append_clean[of dl_suffix j] by (simp add: dl_loc_def dl_suffix_def)
      with names(2) show False by (simp add: segs_inj)
    qed
    with that show ?thesis by (simp add: touched_def segs_inj)
  qed
  obtain out s' where h: "SyncOnce sha dec tr (abs_str rc) dev clock rng s = (out, s')" by fastforce
  have "content rc (cs_fs s') k = Some b"
  proof (cases rule: SyncOnce_kept[OF h assms(1-3) server])
    case (3 es0 es rs)
    from changed_not_planned[where sha = sha and base = es0 and remote = rs, OF assms(1-3) here changed[OF 3(2)]]
    have "rc @ segs k \<notin> plan_touched rc clock (Diff rng (BuildLocal (scan_spec sha rc (cs_fs s)) es0) rs)"
      using ends names(1) unfolding plan_touched_def by (auto simp: segs_inj)
    with 3(3) assms(1,2) here(1) show ?thesis by (simp add: files_kept_def content_def)
  qed (use here in simp_all)
  with h show ?thesis by simp
qed

definition demo_transport :: "unit transport" where
  "demo_transport =
     \<lparr>tr_Hello = (\<lambda>_ t. (Inr ''rw'', t)),
      tr_Manifest = (\<lambda>t. (Inr [\<lparr>fe_Path = ''a'', fe_Size = 3, fe_SHA256 = ''hold'', fe_Revision = 1,
        fe_Deleted = False\<rparr>], t)),
      tr_Put = (\<lambda>_ _ t. (Inr (0, ''conflict''), t)),
      tr_Get = (\<lambda>p t. (Inr (\<lparr>fe_Path = p, fe_Size = 3, fe_SHA256 = '''', fe_Revision = 1, fe_Deleted = False\<rparr>,
        \<lparr>rd_data = ''old'', rd_fails = False\<rparr>), t)),
      tr_Delete = (\<lambda>_ t. (Inr (0, ''conflict''), t))\<rparr>"

definition demo_client :: "unit client_state" where
  "demo_client = \<lparr>cs_t = (), cs_fs = Dir [(''ws'', Dir [(''a'', File ''new'')])], cs_notes = []\<rparr>"

definition demo_clock :: "string \<Rightarrow> utc_time" where
  "demo_clock _ = \<lparr>t_year = 2026, t_month = 7, t_day = 19, t_hour = 1, t_minute = 2, t_second = 3\<rparr>"

theorem round_keeps_changes_witness:
  "content [''ws''] (cs_fs (snd (SyncOnce (\<lambda>b. ''h'' @ b) (\<lambda>_. Some []) demo_transport (abs_str [''ws''])
     ''d'' demo_clock (\<lambda>ks. ks) demo_client))) ''a'' = Some ''new''"
proof (rule round_keeps_changes)
  show "workspace [''ws''] (cs_fs demo_client)" "plain [''ws''] (cs_fs demo_client)"
    "content [''ws''] (cs_fs demo_client) ''a'' = Some ''new''" "visible (segs ''a'')"
    by code_simp+
  show "\<forall>r \<in> set rs. clean_comps (segs (fe_Path r))" if "tr_Manifest demo_transport t = (Inr rs, t')" for t rs t'
  proof -
    have "rs = [\<lparr>fe_Path = ''a'', fe_Size = 3, fe_SHA256 = ''hold'', fe_Revision = 1, fe_Deleted = False\<rparr>]"
      using that by (simp add: demo_transport_def)
    moreover have "clean_comps (segs ''a'')" by code_simp
    ultimately show ?thesis by simp
  qed
  show "\<forall>e \<in> set es. le_Path e = ''a'' \<longrightarrow> le_BaseSHA256 e \<noteq> ''h'' @ ''new''"
    if "li_Load (\<lambda>_. Some []) (abs_str [''ws'']) (cs_fs demo_client) = Inr es" for es
    using that by (auto simp: li_Load_def split: sum.splits if_splits)
  show "''a'' \<noteq> ConflictName j ''remote'' t" for j t
    by (cases j) (simp_all add: ConflictName_def)
  show "''a'' \<noteq> j @ dl_suffix" for j
    by (cases j) (simp_all add: dl_suffix_def)
qed (rule range_order_id)

text \<open>A downloaded file is uploaded again: a download leaves a baseline entry without a digest (the
  server sends none), so for as long as the server keeps the revision, the next round plans to
  upload the file as a local change, which gives it a new revision that every other client must
  download again.\<close>

theorem downloaded_copy_is_uploaded_again:
  assumes "distinct (map fe_Path scanned)" and "distinct (map le_Path base)" and "range_order rng"
    and "index_by le_Path base k = Some (clean k r '''')"
    and "index_by fe_Path scanned k = Some s" and "fe_SHA256 s \<noteq> ''''"
    and "index_by fe_Path remote k = Some e" and "fe_Revision e = r" and "\<not> fe_Deleted e"
  shows "planned (Diff rng (BuildLocal scanned base) remote) k = {DoUpload}"
  using assms(4-9) unfolding planned_round[OF assms(1-3)]
  by (simp add: round_action_def local_state_of_def build_scanned_def clean_def)

theorem downloaded_copy_is_uploaded_again_witness:
  "planned (Diff (\<lambda>ks. ks) (BuildLocal [\<lparr>fe_Path = ''a'', fe_Size = 2, fe_SHA256 = ''hxy'', fe_Revision = 0,
      fe_Deleted = False\<rparr>] [clean ''a'' 1 ''''])
    [\<lparr>fe_Path = ''a'', fe_Size = 2, fe_SHA256 = ''hxy'', fe_Revision = 1, fe_Deleted = False\<rparr>]) ''a'' = {DoUpload}"
  by (rule downloaded_copy_is_uploaded_again[OF _ _ range_order_id,
      where s = "\<lparr>fe_Path = ''a'', fe_Size = 2, fe_SHA256 = ''hxy'', fe_Revision = 0, fe_Deleted = False\<rparr>"
        and e = "\<lparr>fe_Path = ''a'', fe_Size = 2, fe_SHA256 = ''hxy'', fe_Revision = 1, fe_Deleted = False\<rparr>"
        and r = 1])
    (simp_all add: index_by_def clean_def)

text \<open>A deleted name does not come back: a file created where the server has a tombstone that the
  baseline does not know is planned as a conflict; as long as the copy cannot be fetched, which is
  so for a deleted file, the baseline stays without the path, and the next round is the same.\<close>

theorem deleted_name_conflicts:
  assumes "distinct (map fe_Path scanned)" and "distinct (map le_Path base)" and "range_order rng"
    and "index_by le_Path base k = None" and "index_by fe_Path scanned k = Some s" and "fe_SHA256 s \<noteq> ''''"
    and "index_by fe_Path remote k = Some e" and "fe_Deleted e" and "fe_SHA256 e = ''''"
    and "tr_Get tr k (cs_t c) = (Inl x, t)"
  shows "planned (Diff rng (BuildLocal scanned base) remote) k = {DoConflict} \<and>
    saveConflict tr root clock (c, b) k = (c\<lparr>cs_t := t\<rparr>, b)"
proof
  show "planned (Diff rng (BuildLocal scanned base) remote) k = {DoConflict}"
    using assms(4-9) unfolding planned_round[OF assms(1-3)]
    by (auto simp: round_action_def local_state_of_def build_scanned_def)
  show "saveConflict tr root clock (c, b) k = (c\<lparr>cs_t := t\<rparr>, b)"
    using assms(10) by (simp add: saveConflict_def)
qed

theorem deleted_name_conflicts_witness:
  "planned (Diff (\<lambda>ks. ks) (BuildLocal [\<lparr>fe_Path = ''a'', fe_Size = 2, fe_SHA256 = ''hxy'', fe_Revision = 0,
      fe_Deleted = False\<rparr>] [])
    [\<lparr>fe_Path = ''a'', fe_Size = 0, fe_SHA256 = '''', fe_Revision = 2, fe_Deleted = True\<rparr>]) ''a'' = {DoConflict}"
proof -
  have g: "tr_Get (demo_transport\<lparr>tr_Get := \<lambda>_ t. (Inl TransportError, t)\<rparr>) ''a'' (cs_t demo_client) = (Inl TransportError, ())"
    by simp
  show ?thesis
    by (rule conjunct1[OF deleted_name_conflicts[
        where s = "\<lparr>fe_Path = ''a'', fe_Size = 2, fe_SHA256 = ''hxy'', fe_Revision = 0, fe_Deleted = False\<rparr>"
          and e = "\<lparr>fe_Path = ''a'', fe_Size = 0, fe_SHA256 = '''', fe_Revision = 2, fe_Deleted = True\<rparr>",
        OF _ _ range_order_id _ _ _ _ _ _ g]])
      (simp_all add: index_by_def)
qed

end
