(* ===== verification/Token.thy ===== *)
theory Token
  imports Go_Encoding
begin

text \<open>
  \<^verbatim>\<open>internal/token/token.go\<close>: the signed tokens that the control API issues and the worker agent
  checks. HMAC-SHA256 is the parameter \<open>hm\<close>; the JSON form of the claims is the pair \<open>enc\<close>
  (\<open>None\<close> for a time outside the years JSON can write) and \<open>dec\<close>. A time is the number of
  nanoseconds since the epoch.
\<close>

section \<open>Tokens\<close>

definition AudSession :: string where "AudSession = ''session''"
definition AudTerminal :: string where "AudTerminal = ''terminal''"
definition AudSync :: string where "AudSync = ''sync''"

datatype token_error = ErrInvalid | ErrExpired | ErrAudience

datatype mint_error = ErrMarshal

record claims =
  cl_ProjectID :: string
  cl_Audience :: string
  cl_ExpiresAt :: int

type_synonym hmac = "bytes \<Rightarrow> bytes \<Rightarrow> bytes"

definition tok_sign :: "hmac \<Rightarrow> bytes \<Rightarrow> string \<Rightarrow> string" where
  "tok_sign hm key payload = b64_encode b64_url (hm key payload)"

definition Mint ::
    "hmac \<Rightarrow> (claims \<Rightarrow> bytes option) \<Rightarrow> bytes \<Rightarrow> string \<Rightarrow> string \<Rightarrow> int \<Rightarrow> int \<Rightarrow> mint_error + string" where
  "Mint hm enc key projectID audience ttl now =
     (case enc \<lparr>cl_ProjectID = projectID, cl_Audience = audience, cl_ExpiresAt = now + ttl\<rparr> of
        None \<Rightarrow> Inl ErrMarshal
      | Some body \<Rightarrow>
          let payload = b64_encode b64_url body
          in Inr (payload @ ''.'' @ tok_sign hm key payload))"

definition Verify ::
    "hmac \<Rightarrow> (bytes \<Rightarrow> claims option) \<Rightarrow> bytes \<Rightarrow> string \<Rightarrow> string \<Rightarrow> int \<Rightarrow> token_error + claims" where
  "Verify hm dec key tok audience now =
     (case split_ch (CHR ''.'') tok of
        [p0, p1] \<Rightarrow>
          if tok_sign hm key p0 \<noteq> p1 then Inl ErrInvalid
          else (case b64_decode b64_url p0 of
                  None \<Rightarrow> Inl ErrInvalid
                | Some raw \<Rightarrow>
                    (case dec raw of
                       None \<Rightarrow> Inl ErrInvalid
                     | Some c \<Rightarrow>
                         if cl_ExpiresAt c < now then Inl ErrExpired
                         else if cl_Audience c \<noteq> audience then Inl ErrAudience
                         else Inr c))
      | _ \<Rightarrow> Inl ErrInvalid)"

section \<open>The interface the services use\<close>

text \<open>\<open>signed tok c\<close>: the token carries the claims \<open>c\<close> under a valid signature. \<open>faithful c\<close>: the
  claims survive their serialisation.\<close>

locale token_scheme =
  fixes mint :: "string \<Rightarrow> string \<Rightarrow> int \<Rightarrow> int \<Rightarrow> mint_error + string"
    and verify :: "string \<Rightarrow> string \<Rightarrow> int \<Rightarrow> token_error + claims"
    and signed :: "string \<Rightarrow> claims \<Rightarrow> bool"
    and faithful :: "claims \<Rightarrow> bool"
  assumes signed_unique: "signed tok c \<Longrightarrow> signed tok c' \<Longrightarrow> c' = c"
    and unsigned: "(\<And>c. \<not> signed tok c) \<Longrightarrow> verify tok aud now = Inl ErrInvalid"
    and verify_signed: "signed tok c \<Longrightarrow> verify tok aud now =
          (if cl_ExpiresAt c < now then Inl ErrExpired
           else if cl_Audience c \<noteq> aud then Inl ErrAudience else Inr c)"
    and minted: "mint pid aud ttl now = Inr tok \<Longrightarrow>
          faithful \<lparr>cl_ProjectID = pid, cl_Audience = aud, cl_ExpiresAt = now + ttl\<rparr> \<Longrightarrow>
          signed tok \<lparr>cl_ProjectID = pid, cl_Audience = aud, cl_ExpiresAt = now + ttl\<rparr>"
begin

lemma verify_iff:
  "verify tok aud now = Inr c \<longleftrightarrow> signed tok c \<and> now \<le> cl_ExpiresAt c \<and> cl_Audience c = aud"
proof (cases "\<exists>c'. signed tok c'")
  case True
  then obtain c' where c': "signed tok c'" ..
  then have "signed tok c \<longleftrightarrow> c = c'" using signed_unique by blast
  then show ?thesis by (auto simp: verify_signed[OF c'])
next
  case False
  then show ?thesis by (simp add: unsigned)
qed

text \<open>A minted token opens its project for its audience until it expires, and nothing else.\<close>

lemma minted_window:
  assumes "mint pid aud ttl now = Inr tok"
    "faithful \<lparr>cl_ProjectID = pid, cl_Audience = aud, cl_ExpiresAt = now + ttl\<rparr>"
  shows "verify tok aud' now' = Inr c \<longleftrightarrow> now' \<le> now + ttl \<and> aud' = aud \<and>
    c = \<lparr>cl_ProjectID = pid, cl_Audience = aud, cl_ExpiresAt = now + ttl\<rparr>"
proof -
  have "signed tok c \<longleftrightarrow> c = \<lparr>cl_ProjectID = pid, cl_Audience = aud, cl_ExpiresAt = now + ttl\<rparr>"
    using minted[OF assms] signed_unique by blast
  then show ?thesis by (auto simp: verify_iff)
qed

end

definition signed_token :: "hmac \<Rightarrow> (bytes \<Rightarrow> claims option) \<Rightarrow> bytes \<Rightarrow> string \<Rightarrow> claims \<Rightarrow> bool" where
  "signed_token hm dec key tok c \<longleftrightarrow>
     (\<exists>payload raw. tok = payload @ ''.'' @ tok_sign hm key payload \<and> CHR ''.'' \<notin> set payload \<and>
        b64_decode b64_url payload = Some raw \<and> dec raw = Some c)"

definition faithful_claims :: "(claims \<Rightarrow> bytes option) \<Rightarrow> (bytes \<Rightarrow> claims option) \<Rightarrow> claims \<Rightarrow> bool" where
  "faithful_claims enc dec c \<longleftrightarrow> (case enc c of None \<Rightarrow> True | Some b \<Rightarrow> dec b = Some c)"

lemma split_two:
  "split_ch (CHR ''.'') tok = [a, b] \<longleftrightarrow> tok = a @ ''.'' @ b \<and> CHR ''.'' \<notin> set a \<and> CHR ''.'' \<notin> set b"
proof
  assume s: "split_ch (CHR ''.'') tok = [a, b]"
  then have "tok = a @ ''.'' @ b" using join_split[of "CHR ''.''" tok] by simp
  with s show "tok = a @ ''.'' @ b \<and> CHR ''.'' \<notin> set a \<and> CHR ''.'' \<notin> set b"
    using split_ch_no_sep[of _ "CHR ''.''" tok] by simp
qed (auto simp: split_ch_append_sep split_ch_single)

lemma tok_sign_clean: "CHR ''.'' \<notin> set (tok_sign hm key p)"
  by (simp add: tok_sign_def b64_encode_clean)

lemma signed_token_split:
  "signed_token hm dec key tok c \<longleftrightarrow>
     (\<exists>p raw. split_ch (CHR ''.'') tok = [p, tok_sign hm key p] \<and> b64_decode b64_url p = Some raw \<and> dec raw = Some c)"
  unfolding signed_token_def split_two using tok_sign_clean by fast

interpretation hs: token_scheme "Mint hm enc key" "Verify hm dec key" "signed_token hm dec key" "faithful_claims enc dec"
  for hm enc dec key
proof unfold_locales
  fix tok c c'
  assume "signed_token hm dec key tok c" "signed_token hm dec key tok c'"
  then show "c' = c" unfolding signed_token_split by auto
next
  fix tok aud now
  assume no: "\<And>c. \<not> signed_token hm dec key tok c"
  show "Verify hm dec key tok aud now = Inl ErrInvalid"
    using no unfolding signed_token_split Verify_def
    by (auto split: list.splits option.splits)
next
  fix tok c aud now
  assume "signed_token hm dec key tok c"
  then show "Verify hm dec key tok aud now = (if cl_ExpiresAt c < now then Inl ErrExpired
           else if cl_Audience c \<noteq> aud then Inl ErrAudience else Inr c)"
    unfolding signed_token_split Verify_def by auto
next
  fix pid aud ttl now tok
  let ?c = "\<lparr>cl_ProjectID = pid, cl_Audience = aud, cl_ExpiresAt = now + ttl\<rparr>"
  assume "Mint hm enc key pid aud ttl now = Inr tok" "faithful_claims enc dec ?c"
  then show "signed_token hm dec key tok ?c"
    unfolding signed_token_def
    by (auto simp: Mint_def Let_def faithful_claims_def b64_decode_encode b64_encode_clean split: option.splits)
qed

section \<open>Properties\<close>

text \<open>What \<open>Verify\<close> accepts: exactly a payload without a dot, followed by a dot and the payload's own
  signature under the key, whose decoded claims name the audience asked for and have not expired
  (the instant of expiry itself still counts).\<close>

theorem Verify_exact:
  "Verify hm dec key tok aud now = Inr c \<longleftrightarrow>
     (\<exists>payload raw. tok = payload @ ''.'' @ tok_sign hm key payload \<and> CHR ''.'' \<notin> set payload \<and>
        b64_decode b64_url payload = Some raw \<and> dec raw = Some c) \<and>
     now \<le> cl_ExpiresAt c \<and> cl_Audience c = aud"
  unfolding hs.verify_iff signed_token_def ..

text \<open>C19. The life of a token: a minted token is accepted for the audience it was minted for, up to and
  including its expiry, with exactly the claims it was minted with; for another audience or later
  it is refused with the error that says so.\<close>

theorem minted_token_window:
  assumes "Mint hm enc key pid aud ttl now = Inr tok"
    and "faithful_claims enc dec \<lparr>cl_ProjectID = pid, cl_Audience = aud, cl_ExpiresAt = now + ttl\<rparr>"
  shows "Verify hm dec key tok aud' now' =
    (if now + ttl < now' then Inl ErrExpired else if aud' \<noteq> aud then Inl ErrAudience
     else Inr \<lparr>cl_ProjectID = pid, cl_Audience = aud, cl_ExpiresAt = now + ttl\<rparr>)"
  using hs.verify_signed[OF hs.minted[OF assms], of aud' now'] by auto

definition demo_enc :: "claims \<Rightarrow> bytes option" where
  "demo_enc c = (if 0 \<le> cl_ExpiresAt c \<and> cl_ExpiresAt c < 256
     then Some (char_of (nat (cl_ExpiresAt c)) # cl_Audience c @ ''|'' @ cl_ProjectID c) else None)"

definition demo_dec :: "bytes \<Rightarrow> claims option" where
  "demo_dec b = (case b of [] \<Rightarrow> None | t # r \<Rightarrow>
     Some \<lparr>cl_ProjectID = tl (dropWhile (\<lambda>c. c \<noteq> CHR ''|'') r), cl_Audience = takeWhile (\<lambda>c. c \<noteq> CHR ''|'') r,
           cl_ExpiresAt = int (of_char t)\<rparr>)"

theorem minted_token_window_witness:
  "\<exists>tok. Mint (\<lambda>k m. rev (k @ m)) demo_enc ''key'' ''p1'' AudSync 120 10 = Inr tok \<and>
     Verify (\<lambda>k m. rev (k @ m)) demo_dec ''key'' tok AudSync 130 =
       Inr \<lparr>cl_ProjectID = ''p1'', cl_Audience = AudSync, cl_ExpiresAt = 130\<rparr> \<and>
     Verify (\<lambda>k m. rev (k @ m)) demo_dec ''key'' tok AudSync 131 = Inl ErrExpired \<and>
     Verify (\<lambda>k m. rev (k @ m)) demo_dec ''key'' tok AudTerminal 20 = Inl ErrAudience"
proof -
  obtain tok where t: "Mint (\<lambda>k m. rev (k @ m)) demo_enc ''key'' ''p1'' AudSync 120 10 = Inr tok"
    by (simp add: Mint_def demo_enc_def Let_def)
  have f: "faithful_claims demo_enc demo_dec \<lparr>cl_ProjectID = ''p1'', cl_Audience = AudSync, cl_ExpiresAt = 10 + 120\<rparr>"
    by (simp add: faithful_claims_def demo_enc_def demo_dec_def AudSync_def)
  have "AudTerminal \<noteq> AudSync" by (simp add: AudTerminal_def AudSync_def)
  with minted_token_window[OF t f] t show ?thesis by (intro exI[of _ tok]) simp
qed

end
