(* ===== verification/Sync_Wire.thy ===== *)
theory Sync_Wire
  imports Sync_Service Sync_Client Token
begin

text \<open>
  The sync protocol on a WebSocket: \<open>ServeSync\<close> of \<^verbatim>\<open>internal/sync/ws.go\<close> and \<open>wsTransport\<close> of
  \<^verbatim>\<open>internal/sync/syncclient_ws.go\<close>. A connection carries text frames (JSON, the codec is a
  parameter) and binary frames; a binary message may break off, which its reader reports. The
  server's loop is a function on the frames that arrive; it keeps the session, the index and
  workspace it works on, and the frames it wrote. \<open>cn_drawn\<close> records each temporary name drawn with
  the directory at that moment, so that its freshness can be stated. Deadlines are not modelled:
  a connection that times out is one whose frames end.
\<close>

section \<open>Messages\<close>

record ws_req =
  rq_Op :: string
  rq_Device :: string
  rq_Path :: string
  rq_Entry :: file_entry
  rq_BaseRevision :: int64

record ws_resp =
  rp_Op :: string
  rp_Mode :: string
  rp_Entries :: "file_entry list"
  rp_Entry :: "file_entry option"
  rp_Path :: string
  rp_Revision :: int64
  rp_Reason :: string

definition ws_req0 :: ws_req where
  "ws_req0 = \<lparr>rq_Op = '''', rq_Device = '''', rq_Path = '''', rq_Entry = zero_FileEntry, rq_BaseRevision = 0\<rparr>"

definition ws_resp0 :: ws_resp where
  "ws_resp0 = \<lparr>rp_Op = '''', rp_Mode = '''', rp_Entries = [], rp_Entry = None, rp_Path = '''',
     rp_Revision = 0, rp_Reason = ''''\<rparr>"

datatype ws_frame = TextFrame bytes | BinFrame reader

record json_codec =
  enc_req :: "ws_req \<Rightarrow> bytes"
  dec_req :: "bytes \<Rightarrow> ws_req option"
  enc_resp :: "ws_resp \<Rightarrow> bytes"
  dec_resp :: "bytes \<Rightarrow> ws_resp option"

section \<open>The server's side of a connection\<close>

record 's sync_server =
  sv_sha :: "bytes \<Rightarrow> string"
  sv_store :: "'s rev_store"
  sv_codec :: json_codec
  sv_maxMessage :: nat
  sv_rnd :: "nat \<Rightarrow> bytes option"

record 's conn =
  cn_sess :: sync_session
  cn_world :: "'s \<times> node"
  cn_drawn :: "(bytes option \<times> node) list"
  cn_out :: "ws_frame list"
  cn_open :: bool

definition putResp :: "string \<Rightarrow> put_result \<Rightarrow> ws_resp" where
  "putResp path r =
     (if pr_OK r then ws_resp0\<lparr>rp_Op := ''ack'', rp_Path := path, rp_Revision := pr_Revision r\<rparr>
      else ws_resp0\<lparr>rp_Op := ''reject'', rp_Path := path, rp_Reason := pr_Reason r\<rparr>)"

definition writeSyncJSON :: "'s sync_server \<Rightarrow> ws_resp \<Rightarrow> 's conn \<Rightarrow> 's conn" where
  "writeSyncJSON P v c = c\<lparr>cn_out := cn_out c @ [TextFrame (enc_resp (sv_codec P) v)]\<rparr>"

text \<open>A message longer than the read limit breaks off at the limit.\<close>

definition clip :: "nat \<Rightarrow> reader \<Rightarrow> reader" where
  "clip limit r = (if limit < length (rd_data r) then \<lparr>rd_data = take limit (rd_data r), rd_fails = True\<rparr> else r)"

definition serve_hello :: "ws_req \<Rightarrow> 's conn \<Rightarrow> 's conn" where
  "serve_hello q c = c\<lparr>cn_sess := (cn_sess c)\<lparr>ss_Device := rq_Device q\<rparr>\<rparr>"

definition serve_manifest :: "'s sync_server \<Rightarrow> 's conn \<Rightarrow> 's conn" where
  "serve_manifest P c =
     (case HandleManifest (sv_sha P) (sv_store P) (cn_sess c) (cn_world c) of
        (Inl _, w) \<Rightarrow> writeSyncJSON P (ws_resp0\<lparr>rp_Op := ''reject'', rp_Reason := ''internal''\<rparr>) (c\<lparr>cn_world := w\<rparr>)
      | (Inr es, w) \<Rightarrow> writeSyncJSON P (ws_resp0\<lparr>rp_Op := ''manifest'', rp_Entries := es\<rparr>) (c\<lparr>cn_world := w\<rparr>))"

definition serve_put :: "'s sync_server \<Rightarrow> ws_req \<Rightarrow> reader \<Rightarrow> 's conn \<Rightarrow> 's conn" where
  "serve_put P q r c =
     (let rnd = sv_rnd P (length (cn_drawn c)) in
      (case HandlePut (sv_sha P) (sv_store P) (cn_sess c) (fe_Path (rq_Entry q)) (rq_BaseRevision q)
              (fe_SHA256 (rq_Entry q)) r rnd (cn_world c) of
         (res, w) \<Rightarrow> writeSyncJSON P (putResp (fe_Path (rq_Entry q)) res)
            (c\<lparr>cn_world := w, cn_drawn := cn_drawn c @ [(rnd, snd (cn_world c))]\<rparr>)))"

definition serve_get :: "'s sync_server \<Rightarrow> ws_req \<Rightarrow> 's conn \<Rightarrow> 's conn" where
  "serve_get P q c =
     (case HandleGet (sv_store P) (cn_sess c) (rq_Path q) (cn_world c) of
        (Inl _, w) \<Rightarrow> writeSyncJSON P
          (ws_resp0\<lparr>rp_Op := ''reject'', rp_Path := rq_Path q, rp_Reason := ''not_found''\<rparr>) (c\<lparr>cn_world := w\<rparr>)
      | (Inr (entry, rc), w) \<Rightarrow>
          let c = writeSyncJSON P (ws_resp0\<lparr>rp_Op := ''file'', rp_Entry := Some entry, rp_Path := fe_Path entry\<rparr>)
                    (c\<lparr>cn_world := w\<rparr>)
          in c\<lparr>cn_out := cn_out c @ [BinFrame \<lparr>rd_data = rd_data rc, rd_fails = False\<rparr>]\<rparr>)"

definition serve_delete :: "'s sync_server \<Rightarrow> ws_req \<Rightarrow> 's conn \<Rightarrow> 's conn" where
  "serve_delete P q c =
     (case HandleDelete (sv_store P) (cn_sess c) (fe_Path (rq_Entry q)) (rq_BaseRevision q) (cn_world c) of
        (res, w) \<Rightarrow> writeSyncJSON P (putResp (fe_Path (rq_Entry q)) res) (c\<lparr>cn_world := w\<rparr>))"

text \<open>The loop. A frame that cannot be read to its end ends the connection; after a \<open>put\<close> the next
  message is its content.\<close>

definition closed :: "'s conn \<Rightarrow> 's conn" where
  "closed c = c\<lparr>cn_open := False\<rparr>"

fun serve_loop :: "'s sync_server \<Rightarrow> ws_frame list \<Rightarrow> 's conn \<Rightarrow> 's conn" where
  "serve_loop P [] c = c"
| "serve_loop P (BinFrame r # fr) c = (if rd_fails (clip (sv_maxMessage P) r) then closed c else serve_loop P fr c)"
| "serve_loop P (TextFrame b # fr) c =
     (if sv_maxMessage P < length b then closed c
      else case dec_req (sv_codec P) b of
        None \<Rightarrow> serve_loop P fr c
      | Some q \<Rightarrow>
          if rq_Op q = ''hello'' then serve_loop P fr (serve_hello q c)
          else if rq_Op q = ''manifest'' then serve_loop P fr (serve_manifest P c)
          else if rq_Op q = ''put'' then
            (case fr of
               [] \<Rightarrow> closed c
             | TextFrame b2 # fr' \<Rightarrow>
                 if sv_maxMessage P < length b2 then closed c
                 else serve_loop P fr' (writeSyncJSON P
                   (ws_resp0\<lparr>rp_Op := ''reject'', rp_Path := fe_Path (rq_Entry q), rp_Reason := ''internal''\<rparr>) c)
             | BinFrame r # fr' \<Rightarrow>
                 let r' = clip (sv_maxMessage P) r; c' = serve_put P q r' c
                 in if rd_fails r' then closed c' else serve_loop P fr' c')
          else if rq_Op q = ''get'' then serve_loop P fr (serve_get P q c)
          else if rq_Op q = ''delete'' then serve_loop P fr (serve_delete P q c)
          else serve_loop P fr c)"

text \<open>\<open>ServeSync\<close>: the token comes from the \<open>Authorization\<close> header; the mode and the session come from
  the worker. \<open>upgraded\<close> tells whether the HTTP upgrade succeeds.\<close>

datatype 's served = Unauthorized | NotUpgraded | Served "'s conn"

definition ServeSync ::
    "hmac \<Rightarrow> (bytes \<Rightarrow> claims option) \<Rightarrow> bytes \<Rightarrow> 's sync_server \<Rightarrow> (string \<Rightarrow> string) \<Rightarrow>
       (string \<Rightarrow> string \<Rightarrow> string \<Rightarrow> 's \<times> node \<Rightarrow> sync_session \<times> 's \<times> node) \<Rightarrow>
       int \<Rightarrow> bool \<Rightarrow> string \<Rightarrow> ws_frame list \<Rightarrow> 's \<times> node \<Rightarrow> 's served" where
  "ServeSync hm dec key P modeOf factory now upgraded header frames w =
     (case Verify hm dec key (trim_prefix header ''Bearer '') AudSync now of
        Inl _ \<Rightarrow> Unauthorized
      | Inr cl \<Rightarrow>
          if \<not> upgraded then NotUpgraded
          else let mode = modeOf (cl_ProjectID cl) in
            (case factory (cl_ProjectID cl) '''' mode w of
               (sess, w) \<Rightarrow> Served (serve_loop P frames (writeSyncJSON P
                 (ws_resp0\<lparr>rp_Op := ''auth_ok'', rp_Mode := mode\<rparr>)
                 \<lparr>cn_sess = sess, cn_world = w, cn_drawn = [], cn_out = [], cn_open = True\<rparr>))))"

section \<open>Serving a connection is a history of handler runs\<close>

text \<open>\<open>handler_step\<close> is a step of \<open>server_step\<close> that a handler makes, not a program in the container.\<close>

inductive handler_step ::
    "(bytes \<Rightarrow> string) \<Rightarrow> 's rev_store \<Rightarrow> string \<Rightarrow> string list \<Rightarrow> 's \<times> node \<Rightarrow> 's \<times> node \<Rightarrow> bool"
  for sha st pid rc where
  HPut: "ss_ProjectID s = pid \<Longrightarrow> ss_Root s = abs_str rc \<Longrightarrow> sane_max (ss_MaxBytes s) \<Longrightarrow>
        fresh_tmp rnd rc fs \<Longrightarrow>
        HandlePut sha st s path baseRev decl body rnd (db, fs) = (res, db', fs') \<Longrightarrow>
        handler_step sha st pid rc (db, fs) (db', fs')"
| HDelete: "ss_ProjectID s = pid \<Longrightarrow> ss_Root s = abs_str rc \<Longrightarrow>
        HandleDelete st s path baseRev (db, fs) = (res, db', fs') \<Longrightarrow>
        handler_step sha st pid rc (db, fs) (db', fs')"
| HListFiles: "ss_ProjectID s = pid \<Longrightarrow> ss_Root s = abs_str rc \<Longrightarrow>
        HandleManifest sha st s (db, fs) = (r, db', fs') \<Longrightarrow>
        handler_step sha st pid rc (db, fs) (db', fs')"
| HGet: "ss_ProjectID s = pid \<Longrightarrow> ss_Root s = abs_str rc \<Longrightarrow>
        HandleGet st s path (db, fs) = (g, db', fs') \<Longrightarrow>
        handler_step sha st pid rc (db, fs) (db', fs')"

inductive handler_run ::
    "(bytes \<Rightarrow> string) \<Rightarrow> 's rev_store \<Rightarrow> string \<Rightarrow> string list \<Rightarrow> nat \<Rightarrow> 's \<times> node \<Rightarrow> 's \<times> node \<Rightarrow> bool"
  for sha st pid rc where
  HStart: "handler_run sha st pid rc 0 x x"
| HMore: "handler_run sha st pid rc n x y \<Longrightarrow> handler_step sha st pid rc y z \<Longrightarrow>
        handler_run sha st pid rc (Suc n) x z"

lemma handler_run_one: "handler_step sha st pid rc x y \<Longrightarrow> handler_run sha st pid rc 1 x y"
  using handler_run.HMore[OF handler_run.HStart] by fastforce

lemma handler_run_append:
  assumes "handler_run sha st pid rc m y z" "handler_run sha st pid rc n x y"
  shows "handler_run sha st pid rc (n + m) x z"
  using assms by (induction rule: handler_run.induct) (auto intro: handler_run.HMore)

lemma handler_server_step: "handler_step sha st pid rc x y \<Longrightarrow> server_step sha st pid rc x y"
  by (induction rule: handler_step.induct)
    (blast intro: server_step.Put server_step.Delete server_step.ListFiles server_step.Get)+

lemma handler_server_run: "handler_run sha st pid rc n x y \<Longrightarrow> server_run sha st pid rc n x y"
  by (induction rule: handler_run.induct) (auto intro: server_run.Start server_run.More handler_server_step)

text \<open>What a handler of one project leaves alone: the other projects' indexes, and every file that is
  not below the project's directory.\<close>

context revision_store
begin

definition isolated :: "string \<Rightarrow> string list \<Rightarrow> 's \<times> node \<Rightarrow> 's \<times> node \<Rightarrow> bool" where
  "isolated pid rc x y \<longleftrightarrow> (\<forall>p. p \<noteq> pid \<longrightarrow> idx (fst y) p = idx (fst x) p) \<and>
     (\<forall>q. \<not> prefix rc q \<longrightarrow> leaf (snd y) q = leaf (snd x) q)"

lemma handler_step_isolated:
  assumes "handler_step sha st pid rc x y" "inv (fst x)" "ws_ok rc (snd x)"
  shows "isolated pid rc x y"
  using assms
proof (cases rule: handler_step.cases)
  case (HPut s rnd fs path baseRev decl body db res db' fs')
  with assms(2,3) have i: "inv db" "workspace rc fs" "plain rc fs" by (auto simp: ws_ok_def)
  show ?thesis
  proof (cases "pr_OK res")
    case True
    from HandlePut_accepted[OF i HPut(5,4,7) True] HPut show ?thesis by (auto simp: isolated_def)
  next
    case False
    from HandlePut_rejected[OF i HPut(5,6,4,7) False] HPut show ?thesis by (auto simp: isolated_def)
  qed
next
  case (HDelete s path baseRev db fs res db' fs')
  with assms(2,3) have i: "inv db" "workspace rc fs" "plain rc fs" by (auto simp: ws_ok_def)
  from HandleDelete_effect[OF i HDelete(4,5)] HDelete show ?thesis
    by (auto simp: isolated_def split: option.splits if_splits)
next
  case (HListFiles s db fs r db' fs')
  with assms(2,3) have i: "inv db" "workspace rc fs" "plain rc fs" by (auto simp: ws_ok_def)
  from HandleManifest_effect[OF i HListFiles(4,5)] obtain db1 where
    "reconcileCloud sha st s (db, fs) = (db1, fs)" "idx db' = idx db1" "fs' = fs" by metis
  with reconcileCloud_effect[OF i HListFiles(4)] HListFiles show ?thesis by (simp add: isolated_def)
next
  case (HGet s path db fs g db' fs')
  with assms(2,3) have i: "inv db" "workspace rc fs" "plain rc fs" by (auto simp: ws_ok_def)
  from HandleGet_effect[OF i HGet(4,5)] HGet show ?thesis by (simp add: isolated_def)
qed

lemma handler_run_isolated:
  assumes "handler_run sha st pid rc n x y" "inv (fst x)" "ws_ok rc (snd x)"
  shows "inv (fst y) \<and> ws_ok rc (snd y) \<and> isolated pid rc x y"
  using assms
proof (induction rule: handler_run.induct)
  case (HStart x)
  then show ?case by (simp add: isolated_def)
next
  case (HMore n x y z)
  then have y: "inv (fst y)" "ws_ok rc (snd y)" "isolated pid rc x y" by simp_all
  from server_step_effect[OF handler_server_step[OF HMore.hyps(2)] y(1,2)]
    handler_step_isolated[OF HMore.hyps(2) y(1,2)] y(3)
  show ?case by (simp add: isolated_def)
qed

end

definition conn_ok :: "string \<Rightarrow> string list \<Rightarrow> 's conn \<Rightarrow> bool" where
  "conn_ok pid rc c \<longleftrightarrow> ss_ProjectID (cn_sess c) = pid \<and> ss_Root (cn_sess c) = abs_str rc \<and>
     sane_max (ss_MaxBytes (cn_sess c))"

definition names_fresh :: "string list \<Rightarrow> 's conn \<Rightarrow> bool" where
  "names_fresh rc c \<longleftrightarrow> (\<forall>(r, fs) \<in> set (cn_drawn c). fresh_tmp r rc fs)"

text \<open>From one state of a connection to a later one: handler runs, at most one for each frame written,
  the session kept but for the device, what was drawn and written only added to.\<close>

definition conn_step :: "'s sync_server \<Rightarrow> string \<Rightarrow> string list \<Rightarrow> 's conn \<Rightarrow> 's conn \<Rightarrow> bool" where
  "conn_step P pid rc c c' \<longleftrightarrow>
     (\<exists>xs. cn_drawn c' = cn_drawn c @ xs) \<and> (\<exists>ys. cn_out c' = cn_out c @ ys) \<and>
     (conn_ok pid rc c \<longrightarrow> conn_ok pid rc c' \<and> (names_fresh rc c' \<longrightarrow>
        (\<exists>m. length (cn_out c) + m \<le> length (cn_out c') \<and>
             handler_run (sv_sha P) (sv_store P) pid rc m (cn_world c) (cn_world c'))))"

lemma conn_step_refl: "conn_step P pid rc c c"
  unfolding conn_step_def using handler_run.HStart by fastforce

lemma names_fresh_prefix: "names_fresh rc c' \<Longrightarrow> cn_drawn c' = cn_drawn c @ xs \<Longrightarrow> names_fresh rc c"
  by (auto simp: names_fresh_def)

lemma conn_step_trans:
  assumes "conn_step P pid rc a b" "conn_step P pid rc b c"
  shows "conn_step P pid rc a c"
proof -
  from assms obtain xs xs' ys ys' where D: "cn_drawn b = cn_drawn a @ xs"
    "cn_drawn c = cn_drawn b @ xs'" "cn_out b = cn_out a @ ys" "cn_out c = cn_out b @ ys'"
    unfolding conn_step_def by blast
  have "\<exists>m. length (cn_out a) + m \<le> length (cn_out c) \<and>
      handler_run (sv_sha P) (sv_store P) pid rc m (cn_world a) (cn_world c)"
    if f: "conn_ok pid rc a" "names_fresh rc c"
  proof -
    from assms f names_fresh_prefix[OF f(2) D(2)] obtain i j where
      "length (cn_out a) + i \<le> length (cn_out b)" "handler_run (sv_sha P) (sv_store P) pid rc i (cn_world a) (cn_world b)"
      "length (cn_out b) + j \<le> length (cn_out c)" "handler_run (sv_sha P) (sv_store P) pid rc j (cn_world b) (cn_world c)"
      unfolding conn_step_def by blast
    then have "length (cn_out a) + (i + j) \<le> length (cn_out c)"
      "handler_run (sv_sha P) (sv_store P) pid rc (i + j) (cn_world a) (cn_world c)"
      using handler_run_append by (simp, blast)
    then show ?thesis by blast
  qed
  moreover have "conn_ok pid rc a \<Longrightarrow> conn_ok pid rc c" using assms unfolding conn_step_def by blast
  moreover have "\<exists>xs. cn_drawn c = cn_drawn a @ xs" "\<exists>ys. cn_out c = cn_out a @ ys" using D by simp_all
  ultimately show ?thesis unfolding conn_step_def by blast
qed

lemma conn_step_same:
  assumes "conn_ok pid rc c \<Longrightarrow> conn_ok pid rc c'" "cn_world c' = cn_world c" "cn_drawn c' = cn_drawn c"
    "cn_out c' = cn_out c @ ys"
  shows "conn_step P pid rc c c'"
  unfolding conn_step_def
  using assms handler_run.HStart[of "sv_sha P" "sv_store P" pid rc "cn_world c"] by (auto intro!: exI[of _ 0])

lemma conn_step_quiet:
  "conn_step P pid rc c (writeSyncJSON P v c)" "conn_step P pid rc c (closed c)" "conn_step P pid rc c (serve_hello q c)"
  by (rule conn_step_same; simp add: writeSyncJSON_def closed_def serve_hello_def conn_ok_def)+

lemma conn_stepI:
  assumes "cn_sess c' = cn_sess c" "\<exists>xs. cn_drawn c' = cn_drawn c @ xs" "\<exists>y ys. cn_out c' = cn_out c @ y # ys"
    "conn_ok pid rc c \<Longrightarrow> names_fresh rc c' \<Longrightarrow>
       handler_step (sv_sha P) (sv_store P) pid rc (cn_world c) (cn_world c')"
  shows "conn_step P pid rc c c'"
proof -
  have "\<exists>m. length (cn_out c) + m \<le> length (cn_out c') \<and>
      handler_run (sv_sha P) (sv_store P) pid rc m (cn_world c) (cn_world c')"
    if "conn_ok pid rc c" "names_fresh rc c'"
    using handler_run_one[OF assms(4)[OF that]] assms(3) by (intro exI[of _ 1]) auto
  with assms(1-3) show ?thesis unfolding conn_step_def conn_ok_def by auto
qed

lemma serve_handler_steps:
  "conn_step P pid rc c (serve_manifest P c)" "conn_step P pid rc c (serve_put P q r c)"
  "conn_step P pid rc c (serve_get P q c)" "conn_step P pid rc c (serve_delete P q c)"
proof -
  obtain db fs where w: "cn_world c = (db, fs)" by fastforce
  show "conn_step P pid rc c (serve_manifest P c)"
  proof -
    obtain r db' fs' where h: "HandleManifest (sv_sha P) (sv_store P) (cn_sess c) (db, fs) = (r, db', fs')" by (metis prod_cases3)
    have "handler_step (sv_sha P) (sv_store P) pid rc (db, fs) (db', fs')" if "conn_ok pid rc c"
      using handler_step.HListFiles h that unfolding conn_ok_def by metis
    then show ?thesis
      using w h by (intro conn_stepI) (auto simp: serve_manifest_def writeSyncJSON_def split: sum.splits)
  qed
  show "conn_step P pid rc c (serve_put P q r c)"
  proof -
    let ?rnd = "sv_rnd P (length (cn_drawn c))"
    obtain res db' fs' where h: "HandlePut (sv_sha P) (sv_store P) (cn_sess c) (fe_Path (rq_Entry q)) (rq_BaseRevision q)
        (fe_SHA256 (rq_Entry q)) r ?rnd (db, fs) = (res, db', fs')" by (metis prod_cases3)
    have "handler_step (sv_sha P) (sv_store P) pid rc (db, fs) (db', fs')" if "conn_ok pid rc c" "fresh_tmp ?rnd rc fs"
      using handler_step.HPut[OF _ _ _ that(2) h] that(1) unfolding conn_ok_def by blast
    then show ?thesis
      using w h by (intro conn_stepI) (auto simp: serve_put_def writeSyncJSON_def Let_def names_fresh_def)
  qed
  show "conn_step P pid rc c (serve_get P q c)"
  proof -
    obtain r db' fs' where h: "HandleGet (sv_store P) (cn_sess c) (rq_Path q) (db, fs) = (r, db', fs')" by (metis prod_cases3)
    have "handler_step (sv_sha P) (sv_store P) pid rc (db, fs) (db', fs')" if "conn_ok pid rc c"
      using handler_step.HGet h that unfolding conn_ok_def by metis
    then show ?thesis
      using w h by (intro conn_stepI) (auto simp: serve_get_def writeSyncJSON_def Let_def split: sum.splits)
  qed
  show "conn_step P pid rc c (serve_delete P q c)"
  proof -
    obtain r db' fs' where h: "HandleDelete (sv_store P) (cn_sess c) (fe_Path (rq_Entry q)) (rq_BaseRevision q) (db, fs) = (r, db', fs')"
      by (metis prod_cases3)
    have "handler_step (sv_sha P) (sv_store P) pid rc (db, fs) (db', fs')" if "conn_ok pid rc c"
      using handler_step.HDelete h that unfolding conn_ok_def by metis
    then show ?thesis
      using w h by (intro conn_stepI) (auto simp: serve_delete_def writeSyncJSON_def)
  qed
qed

lemmas conn_steps = conn_step_refl conn_step_quiet serve_handler_steps

lemma serve_loop_step: "conn_step P pid rc c (serve_loop P frames c)"
proof (induction P frames c rule: serve_loop.induct)
  case (2 P r fr c)
  then show ?case using conn_step_quiet conn_step_refl by (simp add: conn_steps)
next
  case (3 P b fr c)
  show ?case
  proof (cases "sv_maxMessage P < length b \<or> dec_req (sv_codec P) b = None")
    case True
    then show ?thesis using 3(1) by (auto simp: conn_steps)
  next
    case False
    then obtain q where q: "\<not> sv_maxMessage P < length b" "dec_req (sv_codec P) b = Some q" by auto
    show ?thesis
    proof (cases "rq_Op q = ''put''")
      case no: False
      have t: "conn_step P pid rc c c1 \<Longrightarrow> conn_step P pid rc c1 (serve_loop P fr c1) \<Longrightarrow>
          conn_step P pid rc c (serve_loop P fr c1)" for c1 by (rule conn_step_trans)
      have "rq_Op q = ''hello'' \<Longrightarrow> conn_step P pid rc c (serve_loop P fr (serve_hello q c))"
        using t[OF conn_steps(4)] 3 q by simp
      moreover have "rq_Op q = ''manifest'' \<Longrightarrow> conn_step P pid rc c (serve_loop P fr (serve_manifest P c))"
        using t[OF conn_steps(5)] 3 q by simp
      moreover have "rq_Op q = ''get'' \<Longrightarrow> conn_step P pid rc c (serve_loop P fr (serve_get P q c))"
        using t[OF conn_steps(7)] 3 q by simp
      moreover have "rq_Op q = ''delete'' \<Longrightarrow> conn_step P pid rc c (serve_loop P fr (serve_delete P q c))"
        using t[OF conn_steps(8)] 3 q by simp
      moreover have "rq_Op q \<noteq> ''hello'' \<Longrightarrow> rq_Op q \<noteq> ''manifest'' \<Longrightarrow> rq_Op q \<noteq> ''get'' \<Longrightarrow>
          rq_Op q \<noteq> ''delete'' \<Longrightarrow> conn_step P pid rc c (serve_loop P fr c)"
        using 3 q no by simp
      ultimately show ?thesis using q no by simp
    next
      case put: True
      then have ops: "rq_Op q \<noteq> ''hello''" "rq_Op q \<noteq> ''manifest''" by simp_all
      show ?thesis
      proof (cases fr)
        case Nil
        with q put show ?thesis by (simp add: conn_steps)
      next
        case (Cons g fr')
        show ?thesis
        proof (cases g)
          case (TextFrame b2)
          with Cons q put ops conn_step_trans[OF conn_steps(2) 3(4)[OF q ops put Cons TextFrame]]
          show ?thesis by (simp add: conn_steps)
        next
          case (BinFrame r)
          have "conn_step P pid rc c (closed (serve_put P q x c))" for x
            by (rule conn_step_trans[OF conn_steps(6) conn_steps(3)])
          with BinFrame Cons q put ops conn_step_trans[OF conn_steps(6) 3(5)[OF q ops put Cons BinFrame refl refl]]
          show ?thesis by (simp add: Let_def conn_steps)
        qed
      qed
    qed
  qed
qed (simp add: conn_step_refl)

section \<open>Properties\<close>

text \<open>C17. Whatever a client sends, the connection does no more than the handlers: with a valid sync token,
  and temporary names that were fresh when drawn, any sequence of frames (malformed, out of order,
  broken off, too long) moves the token's project along a history of handler runs, at most one per
  answer, to which the properties of histories apply; it changes no other project's index and no
  file outside the project's directory.\<close>

theorem served_traffic_is_a_history:
  assumes "ServeSync hm dec key P modeFor (sessionFactory wr) now upgraded header frames w = Served c"
    and "Verify hm dec key (trim_prefix header ''Bearer '') AudSync now = Inr cl"
    and "sv_store P = pg_store"
    and "sessionFactory wr (cl_ProjectID cl) '''' ''rw'' w = (sess, db, fs)"
    and "ss_Root sess = abs_str rc" and "pg_inv db" and "ws_ok rc fs" and "names_fresh rc c"
  shows "\<exists>m < length (cn_out c).
      server_run (sv_sha P) pg_store (cl_ProjectID cl) rc m (db, fs) (cn_world c) \<and>
      pg_inv (fst (cn_world c)) \<and> ws_ok rc (snd (cn_world c)) \<and>
      (\<forall>p. p \<noteq> cl_ProjectID cl \<longrightarrow> pg_idx (fst (cn_world c)) p = pg_idx db p) \<and>
      (\<forall>q. \<not> prefix rc q \<longrightarrow> leaf (snd (cn_world c)) q = leaf fs q)"
proof -
  let ?pid = "cl_ProjectID cl"
  define c0 where "c0 = writeSyncJSON P (ws_resp0\<lparr>rp_Op := ''auth_ok'', rp_Mode := ''rw''\<rparr>)
      \<lparr>cn_sess = sess, cn_world = (db, fs), cn_drawn = [], cn_out = [], cn_open = True\<rparr>"
  have c: "c = serve_loop P frames c0"
    using assms(1,2,4) by (auto simp: ServeSync_def modeFor_def c0_def Let_def split: if_splits)
  have "ss_ProjectID sess = ?pid" "ss_MaxBytes sess = 2 ^ 30"
    using assms(4) by (auto simp: sessionFactory_def Let_def split: prod.splits)
  moreover have "sane_max (2 ^ 30)" by (rule demo_facts(9))
  ultimately have ok: "conn_ok ?pid rc c0"
    using assms(5) by (simp add: conn_ok_def c0_def writeSyncJSON_def)
  have "cn_world c0 = (db, fs)" "length (cn_out c0) = 1" by (simp_all add: c0_def writeSyncJSON_def)
  with serve_loop_step[of P ?pid rc c0 frames] ok assms(3,8) obtain m where
    m: "1 + m \<le> length (cn_out c)" "handler_run (sv_sha P) pg_store ?pid rc m (db, fs) (cn_world c)"
    unfolding conn_step_def c[symmetric] by auto
  from pgs.handler_run_isolated[OF m(2)] assms(6,7) handler_server_run[OF m(2)] m(1) show ?thesis
    by (intro exI[of _ m]) (auto simp: pgs.isolated_def)
qed

definition demo_codec :: json_codec where
  "demo_codec =
     \<lparr>enc_req = (\<lambda>q. rq_Op q @ ''|'' @ fe_Path (rq_Entry q) @ ''|'' @ fe_SHA256 (rq_Entry q)),
      dec_req = (\<lambda>b. case split_ch (CHR ''|'') b of
          [op, path, sha] \<Rightarrow> Some (ws_req0\<lparr>rq_Op := op, rq_Path := path,
             rq_Entry := zero_FileEntry\<lparr>fe_Path := path, fe_SHA256 := sha\<rparr>\<rparr>)
        | _ \<Rightarrow> None),
      enc_resp = (\<lambda>r. rp_Op r), dec_resp = (\<lambda>b. Some (ws_resp0\<lparr>rp_Op := b\<rparr>))\<rparr>"

definition demo_server :: "pg sync_server" where
  "demo_server = \<lparr>sv_sha = demo_sha, sv_store = pg_store, sv_codec = demo_codec, sv_maxMessage = 64,
     sv_rnd = (\<lambda>_. Some ''*'')\<rparr>"

definition demo_claims :: claims where
  "demo_claims = \<lparr>cl_ProjectID = ''p1'', cl_Audience = AudSync, cl_ExpiresAt = 200\<rparr>"

definition demo_hmac :: hmac where
  "demo_hmac k m = k"

definition demo_tok :: string where
  "demo_tok = b64_encode b64_url (the (demo_enc demo_claims)) @ ''.'' @ b64_encode b64_url ''key''"

definition demo_frames :: "ws_frame list" where
  "demo_frames = [TextFrame ''hello'', TextFrame ''put|../b|hxy'',
     BinFrame \<lparr>rd_data = ''xy'', rd_fails = False\<rparr>, TextFrame ''put|a|hz'']"

theorem served_traffic_is_a_history_witness:
  "\<exists>c. ServeSync demo_hmac demo_dec ''key'' demo_server modeFor (sessionFactory ''/'') 100 True
       (''Bearer '' @ demo_tok) demo_frames (demo_db, demo_fs) = Served c \<and>
     map (\<lambda>f. case f of TextFrame b \<Rightarrow> b | BinFrame r \<Rightarrow> rd_data r) (cn_out c) = [''auth_ok'', ''reject''] \<and>
     (\<exists>m < 2. server_run demo_sha pg_store ''p1'' [''ws''] m (demo_db, demo_fs) (cn_world c))"
proof -
  have v: "Verify demo_hmac demo_dec ''key'' (trim_prefix (''Bearer '' @ demo_tok) ''Bearer '') AudSync 100 = Inr demo_claims"
    by code_simp
  have f: "fst (sessionFactory ''/'' (cl_ProjectID demo_claims) '''' ''rw'' (demo_db, demo_fs)) =
      fst (sessionFactory ''/'' (cl_ProjectID demo_claims) '''' ''rw'' (demo_db, demo_fs))" ..
  obtain sess where s: "sessionFactory ''/'' (cl_ProjectID demo_claims) '''' ''rw'' (demo_db, demo_fs) = (sess, demo_db, demo_fs)"
  proof -
    have "snd (sessionFactory ''/'' (cl_ProjectID demo_claims) '''' ''rw'' (demo_db, demo_fs)) = (demo_db, demo_fs)"
      by code_simp
    then show thesis using that by (metis prod.collapse)
  qed
  have r: "ss_Root (fst (sessionFactory ''/'' (cl_ProjectID demo_claims) '''' ''rw'' (demo_db, demo_fs))) = abs_str [''ws'']"
    by code_simp
  have "case ServeSync demo_hmac demo_dec ''key'' demo_server modeFor (sessionFactory ''/'') 100 True
       (''Bearer '' @ demo_tok) demo_frames (demo_db, demo_fs) of
     Served c \<Rightarrow> map (\<lambda>f. case f of TextFrame b \<Rightarrow> b | BinFrame r \<Rightarrow> rd_data r) (cn_out c) = [''auth_ok'', ''reject''] \<and>
       cn_drawn c = [(Some ''*'', demo_fs)]
   | _ \<Rightarrow> False" by code_simp
  then obtain c where c: "ServeSync demo_hmac demo_dec ''key'' demo_server modeFor (sessionFactory ''/'') 100 True
       (''Bearer '' @ demo_tok) demo_frames (demo_db, demo_fs) = Served c"
    "map (\<lambda>f. case f of TextFrame b \<Rightarrow> b | BinFrame r \<Rightarrow> rd_data r) (cn_out c) = [''auth_ok'', ''reject'']"
    "cn_drawn c = [(Some ''*'', demo_fs)]" by (auto split: served.splits)
  have l: "leaf demo_fs ([''ws''] @ r) = None" for r
    by (cases r) (simp_all add: leaf_def demo_fs_def)
  have w: "ws_ok [''ws''] demo_fs" using demo_facts(2,3) l by (simp add: ws_ok_def small_files_def)
  have fr: "names_fresh [''ws''] c" using demo_facts(5) c(3) by (simp add: names_fresh_def)
  have p: "sv_store demo_server = pg_store" "sv_sha demo_server = demo_sha" "cl_ProjectID demo_claims = ''p1''"
    by (simp_all add: demo_server_def demo_claims_def)
  have "length (cn_out c) = 2" using arg_cong[OF c(2), of length] by simp
  with served_traffic_is_a_history[OF c(1) v p(1) s r[unfolded s fst_conv] demo_facts(1) w fr] p c
  show ?thesis by auto
qed

text \<open>C18. No token, no service: a request is served only if its header carries a token signed with the
  key for the sync service that has not expired; every other request is answered "unauthorized"
  and touches nothing.\<close>

theorem sync_needs_a_token:
  "(ServeSync hm dec key P modeOf factory now upgraded header frames w = Unauthorized \<longleftrightarrow>
     \<not> (\<exists>cl payload raw. trim_prefix header ''Bearer '' = payload @ ''.'' @ tok_sign hm key payload \<and>
        CHR ''.'' \<notin> set payload \<and> b64_decode b64_url payload = Some raw \<and> dec raw = Some cl \<and>
        now \<le> cl_ExpiresAt cl \<and> cl_Audience cl = AudSync))"
proof -
  have "ServeSync hm dec key P modeOf factory now upgraded header frames w = Unauthorized \<longleftrightarrow>
      \<not> (\<exists>cl. Verify hm dec key (trim_prefix header ''Bearer '') AudSync now = Inr cl)"
    by (auto simp: ServeSync_def Let_def split: sum.splits prod.splits)
  then show ?thesis unfolding hs.verify_iff signed_token_def by blast
qed

end
