(* ===== verification/Sync_Link.thy ===== *)
theory Sync_Link
  imports Sync_Wire
begin

text \<open>
  The client's end of a sync connection: \<open>wsTransport\<close> of \<^verbatim>\<open>internal/sync/syncclient_ws.go\<close>, on a
  network that may break at any frame. A link is the connection as both ends see it: the frames
  under way to the server, the server's state, how many of its frames the client has read, and how
  many more frames the network will carry. The server handles what has been sent when the client
  waits for an answer, or has nothing more to send. An upload whose local file cannot be read to
  the end still closes its message, and the client leaves the server's answer unread:
  \<open>lk_aborted\<close> records that this happened.
\<close>

section \<open>The network\<close>

record 's link =
  lk_server :: "'s sync_server"
  lk_conn :: "'s conn"
  lk_sent :: "ws_frame list"
  lk_read :: nat
  lk_mode :: string
  lk_left :: "nat option"
  lk_dead :: bool
  lk_aborted :: bool

definition flush :: "'s link \<Rightarrow> 's link" where
  "flush lk = lk\<lparr>lk_conn := (if cn_open (lk_conn lk) then serve_loop (lk_server lk) (lk_sent lk) (lk_conn lk)
     else lk_conn lk), lk_sent := []\<rparr>"

definition net_take :: "'s link \<Rightarrow> 's link option" where
  "net_take lk =
     (if lk_dead lk then None
      else case lk_left lk of None \<Rightarrow> Some lk | Some 0 \<Rightarrow> None | Some (Suc n) \<Rightarrow> Some (lk\<lparr>lk_left := Some n\<rparr>))"

definition send :: "ws_frame \<Rightarrow> 's link \<Rightarrow> bool \<times> 's link" where
  "send f lk =
     (case net_take lk of
        None \<Rightarrow> (False, (flush lk)\<lparr>lk_dead := True\<rparr>)
      | Some lk \<Rightarrow> (True, lk\<lparr>lk_sent := lk_sent lk @ [f]\<rparr>))"

definition recv :: "'s link \<Rightarrow> ws_frame option \<times> 's link" where
  "recv lk =
     (let lk = flush lk in
      case net_take lk of
        None \<Rightarrow> (None, lk\<lparr>lk_dead := True\<rparr>)
      | Some lk \<Rightarrow>
          if lk_read lk < length (cn_out (lk_conn lk))
          then (Some (cn_out (lk_conn lk) ! lk_read lk), lk\<lparr>lk_read := Suc (lk_read lk)\<rparr>)
          else (None, lk\<lparr>lk_dead := True\<rparr>))"

definition writeJSON :: "ws_req \<Rightarrow> 's link \<Rightarrow> bool \<times> 's link" where
  "writeJSON q lk = send (TextFrame (enc_req (sv_codec (lk_server lk)) q)) lk"

definition frame_bytes :: "ws_frame \<Rightarrow> bytes" where
  "frame_bytes f = (case f of TextFrame b \<Rightarrow> b | BinFrame r \<Rightarrow> rd_data r)"

text \<open>\<open>ReadJSON\<close> decodes the next message, whatever its type.\<close>

definition readJSON :: "'s link \<Rightarrow> ws_resp option \<times> 's link" where
  "readJSON lk =
     (case recv lk of
        (None, lk) \<Rightarrow> (None, lk)
      | (Some f, lk) \<Rightarrow> (dec_resp (sv_codec (lk_server lk)) (frame_bytes f), lk))"

section \<open>The transport\<close>

definition ws_Hello :: "string \<Rightarrow> 's link \<Rightarrow> (transport_error + string) \<times> 's link" where
  "ws_Hello device lk =
     (case writeJSON (ws_req0\<lparr>rq_Op := ''hello'', rq_Device := device\<rparr>) lk of
        (False, lk) \<Rightarrow> (Inl TransportError, lk)
      | (True, lk) \<Rightarrow> (Inr (lk_mode lk), flush lk))"

definition ws_Manifest :: "'s link \<Rightarrow> (transport_error + file_entry list) \<times> 's link" where
  "ws_Manifest lk =
     (case writeJSON (ws_req0\<lparr>rq_Op := ''manifest''\<rparr>) lk of
        (False, lk) \<Rightarrow> (Inl TransportError, lk)
      | (True, lk) \<Rightarrow>
     (case readJSON lk of
        (None, lk) \<Rightarrow> (Inl TransportError, lk)
      | (Some resp, lk) \<Rightarrow> (Inr (rp_Entries resp), lk)))"

definition ws_reply :: "ws_resp \<Rightarrow> int64 \<times> string" where
  "ws_reply resp = (if rp_Op resp = ''reject'' then (0, rp_Reason resp) else (rp_Revision resp, ''''))"

definition ws_Put :: "local_entry \<Rightarrow> reader \<Rightarrow> 's link \<Rightarrow> (transport_error + int64 \<times> string) \<times> 's link" where
  "ws_Put entry body lk =
     (case writeJSON (ws_req0\<lparr>rq_Op := ''put'',
             rq_Entry := \<lparr>fe_Path = le_Path entry, fe_Size = le_Size entry, fe_SHA256 = le_CurrentSHA256 entry,
                          fe_Revision = 0, fe_Deleted = False\<rparr>,
             rq_BaseRevision := le_BaseRevision entry\<rparr>) lk of
        (False, lk) \<Rightarrow> (Inl TransportError, lk)
      | (True, lk) \<Rightarrow>
     (case send (BinFrame \<lparr>rd_data = rd_data body, rd_fails = False\<rparr>) lk of
        (False, lk) \<Rightarrow> (Inl TransportError, lk)
      | (True, lk) \<Rightarrow>
     if rd_fails body then (Inl TransportError, (flush lk)\<lparr>lk_aborted := True\<rparr>)
     else
     (case readJSON lk of
        (None, lk) \<Rightarrow> (Inl TransportError, lk)
      | (Some resp, lk) \<Rightarrow> (Inr (ws_reply resp), lk))))"

definition ws_Get :: "string \<Rightarrow> 's link \<Rightarrow> (transport_error + file_entry \<times> reader) \<times> 's link" where
  "ws_Get path lk =
     (case writeJSON (ws_req0\<lparr>rq_Op := ''get'', rq_Path := path\<rparr>) lk of
        (False, lk) \<Rightarrow> (Inl TransportError, lk)
      | (True, lk) \<Rightarrow>
     (case readJSON lk of
        (None, lk) \<Rightarrow> (Inl TransportError, lk)
      | (Some resp, lk) \<Rightarrow>
     (case rp_Entry resp of
        None \<Rightarrow> (Inl TransportError, lk)
      | Some entry \<Rightarrow>
     if rp_Op resp \<noteq> ''file'' then (Inl TransportError, lk)
     else
     (case recv lk of
        (Some (BinFrame r), lk) \<Rightarrow> (Inr (entry, \<lparr>rd_data = rd_data r, rd_fails = False\<rparr>), lk)
      | (_, lk) \<Rightarrow> (Inl TransportError, lk)))))"

definition ws_Delete :: "local_entry \<Rightarrow> 's link \<Rightarrow> (transport_error + int64 \<times> string) \<times> 's link" where
  "ws_Delete entry lk =
     (case writeJSON (ws_req0\<lparr>rq_Op := ''delete'',
             rq_Entry := zero_FileEntry\<lparr>fe_Path := le_Path entry\<rparr>, rq_BaseRevision := le_BaseRevision entry\<rparr>) lk of
        (False, lk) \<Rightarrow> (Inl TransportError, lk)
      | (True, lk) \<Rightarrow>
     (case readJSON lk of
        (None, lk) \<Rightarrow> (Inl TransportError, lk)
      | (Some resp, lk) \<Rightarrow> (Inr (ws_reply resp), lk)))"

definition wsTransport :: "'s link transport" where
  "wsTransport = \<lparr>tr_Hello = ws_Hello, tr_Manifest = ws_Manifest, tr_Put = ws_Put, tr_Get = ws_Get,
     tr_Delete = ws_Delete\<rparr>"

text \<open>\<open>DialSync\<close>: connect with the token in the header, and read the first frame.\<close>

definition DialSync ::
    "hmac \<Rightarrow> (bytes \<Rightarrow> claims option) \<Rightarrow> bytes \<Rightarrow> 's sync_server \<Rightarrow> (string \<Rightarrow> string) \<Rightarrow>
       (string \<Rightarrow> string \<Rightarrow> string \<Rightarrow> 's \<times> node \<Rightarrow> sync_session \<times> 's \<times> node) \<Rightarrow>
       int \<Rightarrow> bool \<Rightarrow> nat option \<Rightarrow> string \<Rightarrow> 's \<times> node \<Rightarrow> (transport_error + 's link)" where
  "DialSync hm dec key P modeOf factory now upgraded left token w =
     (case ServeSync hm dec key P modeOf factory now upgraded (''Bearer '' @ token) [] w of
        Served c \<Rightarrow>
          (case readJSON \<lparr>lk_server = P, lk_conn = c, lk_sent = [], lk_read = 0, lk_mode = '''', lk_left = left,
                   lk_dead = False, lk_aborted = False\<rparr> of
             (Some resp, lk) \<Rightarrow>
               if rp_Op resp = ''auth_ok'' then Inr (lk\<lparr>lk_mode := rp_Mode resp\<rparr>) else Inl TransportError
           | (None, _) \<Rightarrow> Inl TransportError)
      | _ \<Rightarrow> Inl TransportError)"

section \<open>The states of a link\<close>

text \<open>A link only moves forward: the server's state along its connection, an abort is for ever.\<close>

definition link_later :: "string \<Rightarrow> string list \<Rightarrow> 's link \<Rightarrow> 's link \<Rightarrow> bool" where
  "link_later pid rc lk lk' \<longleftrightarrow>
     lk_server lk' = lk_server lk \<and> conn_step (lk_server lk) pid rc (lk_conn lk) (lk_conn lk') \<and>
     (lk_aborted lk \<longrightarrow> lk_aborted lk')"

lemma link_later_refl: "link_later pid rc lk lk"
  by (simp add: link_later_def conn_step_refl)

lemma link_later_trans: "link_later pid rc a b \<Longrightarrow> link_later pid rc b c \<Longrightarrow> link_later pid rc a c"
  unfolding link_later_def using conn_step_trans by metis

lemma link_later_flush: "link_later pid rc lk (flush lk)"
  by (simp add: link_later_def flush_def serve_loop_step conn_step_refl)

lemma link_later_same:
  "lk_server lk' = lk_server lk \<Longrightarrow> lk_conn lk' = lk_conn lk \<Longrightarrow> (lk_aborted lk \<Longrightarrow> lk_aborted lk') \<Longrightarrow>
     link_later pid rc lk lk'"
  by (simp add: link_later_def conn_step_refl)

lemma net_take_same:
  assumes "net_take lk = Some lk'"
  shows "lk_server lk' = lk_server lk \<and> lk_conn lk' = lk_conn lk \<and> lk_sent lk' = lk_sent lk \<and>
    lk_read lk' = lk_read lk \<and> lk_mode lk' = lk_mode lk \<and> lk_dead lk' = lk_dead lk \<and>
    lk_aborted lk' = lk_aborted lk \<and> \<not> lk_dead lk"
  using assms by (auto simp: net_take_def split: if_splits option.splits nat.splits)

lemma flush_simps [simp]:
  "lk_server (flush lk) = lk_server lk" "lk_sent (flush lk) = []" "lk_read (flush lk) = lk_read lk"
  "lk_mode (flush lk) = lk_mode lk" "lk_dead (flush lk) = lk_dead lk" "lk_aborted (flush lk) = lk_aborted lk"
  by (simp_all add: flush_def)

lemma send_later: "send f lk = (r, lk') \<Longrightarrow> link_later pid rc lk lk'"
  by (auto simp: send_def dest!: net_take_same split: option.splits
      intro: link_later_same link_later_trans[OF link_later_flush link_later_same])

lemma recv_later: "recv lk = (r, lk') \<Longrightarrow> link_later pid rc lk lk'"
  by (auto simp: recv_def Let_def dest!: net_take_same split: option.splits if_splits
      intro!: link_later_trans[OF link_later_flush link_later_same])

lemma writeJSON_later: "writeJSON q lk = (r, lk') \<Longrightarrow> link_later pid rc lk lk'"
  by (auto simp: writeJSON_def intro: send_later)

lemma readJSON_later: "readJSON lk = (r, lk') \<Longrightarrow> link_later pid rc lk lk'"
  by (auto simp: readJSON_def split: prod.splits option.splits intro: recv_later)

text \<open>Every call of the transport moves the link forward.\<close>

lemma ws_calls_later:
  "ws_Hello d lk = (rh, lk') \<Longrightarrow> link_later pid rc lk lk'"
  "ws_Manifest lk = (rm, lk') \<Longrightarrow> link_later pid rc lk lk'"
  "ws_Put l f lk = (rp, lk') \<Longrightarrow> link_later pid rc lk lk'"
  "ws_Get k lk = (rg, lk') \<Longrightarrow> link_later pid rc lk lk'"
  "ws_Delete l lk = (rd, lk') \<Longrightarrow> link_later pid rc lk lk'"
proof -
  note L = writeJSON_later readJSON_later send_later recv_later
  note T = link_later_trans
  show "ws_Hello d lk = (rh, lk') \<Longrightarrow> link_later pid rc lk lk'"
    by (auto simp: ws_Hello_def split: prod.splits bool.splits intro: T[OF L(1) link_later_flush] L)
  show "ws_Manifest lk = (rm, lk') \<Longrightarrow> link_later pid rc lk lk'"
    by (auto simp: ws_Manifest_def split: prod.splits bool.splits option.splits intro: T[OF L(1) L(2)] L)
  show "ws_Delete l lk = (rd, lk') \<Longrightarrow> link_later pid rc lk lk'"
    by (auto simp: ws_Delete_def split: prod.splits bool.splits option.splits intro: T[OF L(1) L(2)] L)
  show "link_later pid rc lk lk'" if g: "ws_Get k lk = (rg, lk')"
  proof -
    obtain ok lk1 where w: "writeJSON (ws_req0\<lparr>rq_Op := ''get'', rq_Path := k\<rparr>) lk = (ok, lk1)" by fastforce
    obtain r lk2 where j: "readJSON lk1 = (r, lk2)" by fastforce
    obtain x lk3 where x: "recv lk2 = (x, lk3)" by fastforce
    have "lk' \<in> {lk1, lk2, lk3}"
      using g w j x by (auto simp: ws_Get_def split: prod.splits bool.splits option.splits if_splits ws_frame.splits)
    moreover have "link_later pid rc lk lk2" by (rule T[OF L(1)[OF w] L(2)[OF j]])
    moreover have "link_later pid rc lk lk3" by (rule T[OF calculation(2) L(4)[OF x]])
    ultimately show ?thesis using L(1)[OF w] by auto
  qed
  show "link_later pid rc lk lk'" if p: "ws_Put l f lk = (rp, lk')"
  proof -
    define q where "q = ws_req0\<lparr>rq_Op := ''put'',
             rq_Entry := \<lparr>fe_Path = le_Path l, fe_Size = le_Size l, fe_SHA256 = le_CurrentSHA256 l,
                          fe_Revision = 0, fe_Deleted = False\<rparr>, rq_BaseRevision := le_BaseRevision l\<rparr>"
    obtain ok lk1 where w: "writeJSON q lk = (ok, lk1)" by fastforce
    obtain ok2 lk2 where s: "send (BinFrame \<lparr>rd_data = rd_data f, rd_fails = False\<rparr>) lk1 = (ok2, lk2)" by fastforce
    obtain r lk3 where j: "readJSON lk2 = (r, lk3)" by fastforce
    have "lk' \<in> {lk1, lk2, lk3, (flush lk2)\<lparr>lk_aborted := True\<rparr>}"
      using p w s j unfolding ws_Put_def q_def[symmetric]
      by (auto split: prod.splits bool.splits option.splits if_splits)
    moreover have "link_later pid rc lk2 ((flush lk2)\<lparr>lk_aborted := True\<rparr>)"
      by (rule T[OF link_later_flush link_later_same]) simp_all
    moreover have l2: "link_later pid rc lk lk2" by (rule T[OF L(1)[OF w] L(3)[OF s]])
    moreover have "link_later pid rc lk lk3" by (rule T[OF l2 L(2)[OF j]])
    moreover note T[OF l2 calculation(2)]
    ultimately show ?thesis using L(1)[OF w] by auto
  qed
qed

section \<open>What the codec must keep\<close>

text \<open>JSON keeps everything but strings that are not valid UTF-8, in which it replaces bytes; \<open>named\<close>
  holds of the strings it keeps.\<close>

definition json_ok :: "(string \<Rightarrow> bool) \<Rightarrow> json_codec \<Rightarrow> bool" where
  "json_ok named cod \<longleftrightarrow>
     (\<forall>q. rq_Op q \<in> {''hello'', ''manifest'', ''put'', ''get'', ''delete''} \<longrightarrow>
        (\<exists>q'. dec_req cod (enc_req cod q) = Some q' \<and> rq_Op q' = rq_Op q \<and> rq_BaseRevision q' = rq_BaseRevision q \<and>
           (named (rq_Path q) \<longrightarrow> rq_Path q' = rq_Path q) \<and>
           (named (fe_Path (rq_Entry q)) \<longrightarrow> fe_Path (rq_Entry q') = fe_Path (rq_Entry q)) \<and>
           (named (fe_SHA256 (rq_Entry q)) \<longrightarrow> fe_SHA256 (rq_Entry q') = fe_SHA256 (rq_Entry q)))) \<and>
     (\<forall>v. rp_Op v \<in> {''auth_ok'', ''manifest'', ''ack'', ''reject'', ''file''} \<longrightarrow>
        (\<exists>v'. dec_resp cod (enc_resp cod v) = Some v' \<and> rp_Op v' = rp_Op v \<and> rp_Revision v' = rp_Revision v \<and>
           (rp_Reason v \<noteq> '''' \<longrightarrow> rp_Reason v' \<noteq> '''') \<and>
           (case rp_Entry v of None \<Rightarrow> rp_Entry v' = None
            | Some e \<Rightarrow> (\<exists>e'. rp_Entry v' = Some e' \<and> fe_Revision e' = fe_Revision e \<and>
                (fe_SHA256 e = '''' \<longrightarrow> fe_SHA256 e' = ''''))))) \<and>
     (\<forall>b v. dec_resp cod b = Some v \<longrightarrow> (\<forall>e \<in> set (rp_Entries v). named (fe_Path e)))"

section \<open>Requests and answers keep in step\<close>

lemma send_cases:
  assumes "send f lk = (r, lk')"
  shows "(\<not> r \<and> lk_dead lk') \<or>
    (r \<and> \<not> lk_dead lk \<and> \<not> lk_dead lk' \<and> lk_server lk' = lk_server lk \<and> lk_conn lk' = lk_conn lk \<and>
     lk_sent lk' = lk_sent lk @ [f] \<and> lk_read lk' = lk_read lk \<and> lk_aborted lk' = lk_aborted lk)"
  using assms by (auto simp: send_def dest!: net_take_same split: option.splits)

lemma recv_cases:
  assumes "recv lk = (x, lk')"
  shows "(x = None \<and> lk_dead lk') \<or>
    (x = Some (cn_out (lk_conn (flush lk)) ! lk_read lk) \<and> lk_read lk < length (cn_out (lk_conn (flush lk))) \<and>
     \<not> lk_dead lk' \<and> lk_server lk' = lk_server lk \<and> lk_conn lk' = lk_conn (flush lk) \<and> lk_sent lk' = [] \<and>
     lk_read lk' = Suc (lk_read lk) \<and> lk_aborted lk' = lk_aborted lk)"
  using assms by (auto simp: recv_def Let_def dest!: net_take_same split: option.splits if_splits)

definition in_step :: "'s link \<Rightarrow> bool" where
  "in_step lk \<longleftrightarrow> (\<not> lk_dead lk \<longrightarrow> lk_sent lk = [] \<and> lk_read lk = length (cn_out (lk_conn lk)))"

text \<open>After a request of which the server makes the connection \<open>c'\<close>, the client reads the first frame
  that was added, if there is one.\<close>

lemma answer:
  assumes "readJSON lk = (r, lk')" "lk_read lk = length (cn_out c)" "\<not> lk_dead lk"
    "lk_conn (flush lk) = c'" "cn_out c' = cn_out c @ fs"
  shows "(r = None \<and> lk_dead lk') \<or>
    (\<exists>f gs. fs = f # gs \<and> r = dec_resp (sv_codec (lk_server lk)) (frame_bytes f) \<and> \<not> lk_dead lk' \<and>
       lk_server lk' = lk_server lk \<and> lk_conn lk' = c' \<and> lk_sent lk' = [] \<and>
       lk_read lk' = Suc (length (cn_out c)))"
proof -
  obtain x lk1 where x: "recv lk = (x, lk1)" by fastforce
  from recv_cases[OF x] show ?thesis
  proof (elim disjE conjE)
    assume "x = None" "lk_dead lk1"
    with assms(1) x show ?thesis by (simp add: readJSON_def)
  next
    assume a: "x = Some (cn_out (lk_conn (flush lk)) ! lk_read lk)"
      "lk_read lk < length (cn_out (lk_conn (flush lk)))" "\<not> lk_dead lk1" "lk_server lk1 = lk_server lk"
      "lk_conn lk1 = lk_conn (flush lk)" "lk_sent lk1 = []" "lk_read lk1 = Suc (lk_read lk)"
      "lk_aborted lk1 = lk_aborted lk"
    then obtain f gs where f: "fs = f # gs" using assms(2,4,5) by (cases fs) auto
    then have "x = Some f" using a(1) assms(2,4,5) by simp
    with a f assms(1,2,4) x show ?thesis by (auto simp: readJSON_def)
  qed
qed

text \<open>What the server makes of one request of the client.\<close>

definition serve_one :: "'s sync_server \<Rightarrow> ws_req \<Rightarrow> 's conn \<Rightarrow> 's conn" where
  "serve_one P q c =
     (if rq_Op q = ''manifest'' then serve_manifest P c
      else if rq_Op q = ''get'' then serve_get P q c
      else if rq_Op q = ''delete'' then serve_delete P q c
      else serve_hello q c)"

lemma flush_one:
  assumes "lk_sent lk = [TextFrame (enc_req (sv_codec (lk_server lk)) q)]"
    "dec_req (sv_codec (lk_server lk)) (enc_req (sv_codec (lk_server lk)) q) = Some q'" "rq_Op q' = rq_Op q"
    "rq_Op q \<in> {''hello'', ''manifest'', ''get'', ''delete''}"
  shows "lk_conn (flush lk) = lk_conn lk \<or> lk_conn (flush lk) = closed (lk_conn lk) \<or>
    lk_conn (flush lk) = serve_one (lk_server lk) q' (lk_conn lk)"
  using assms by (auto simp: flush_def serve_one_def)

lemma flush_put:
  assumes "lk_sent lk = [TextFrame (enc_req (sv_codec (lk_server lk)) q), BinFrame r]"
    "dec_req (sv_codec (lk_server lk)) (enc_req (sv_codec (lk_server lk)) q) = Some q'" "rq_Op q' = ''put''"
  shows "lk_conn (flush lk) = lk_conn lk \<or> lk_conn (flush lk) = closed (lk_conn lk) \<or>
    (\<exists>r'. lk_conn (flush lk) = serve_put (lk_server lk) q' r' (lk_conn lk) \<or>
       lk_conn (flush lk) = closed (serve_put (lk_server lk) q' r' (lk_conn lk)))"
  using assms by (auto simp: flush_def Let_def)

lemma closed_simps [simp]:
  "cn_out (closed c) = cn_out c" "cn_world (closed c) = cn_world c" "cn_drawn (closed c) = cn_drawn c"
  by (simp_all add: closed_def)

lemma out_put:
  "\<exists>res w. HandlePut (sv_sha P) (sv_store P) (cn_sess c) (fe_Path (rq_Entry q)) (rq_BaseRevision q)
       (fe_SHA256 (rq_Entry q)) r (sv_rnd P (length (cn_drawn c))) (cn_world c) = (res, w) \<and>
     cn_world (serve_put P q r c) = w \<and>
     cn_out (serve_put P q r c) = cn_out c @ [TextFrame (enc_resp (sv_codec P) (putResp (fe_Path (rq_Entry q)) res))]"
  by (auto simp: serve_put_def writeSyncJSON_def Let_def split: prod.split)

lemma putResp_op: "rp_Op (putResp p r) \<in> {''ack'', ''reject''}"
  by (simp add: putResp_def)

lemma HandlePut_reason: "HandlePut sha st s p b d r rnd x = (res, w) \<Longrightarrow> \<not> pr_OK res \<Longrightarrow> pr_Reason res \<noteq> ''''"
  by (cases x) (auto simp: HandlePut_def rejected_def accepted_def Let_def
      split: sum.splits prod.splits if_splits ds_error.splits option.splits)

text \<open>The four calls that get an answer leave the link in step.\<close>

lemma put_in_step:
  assumes p: "ws_Put l f lk = (rp, lk')" and st: "in_step lk" and J: "json_ok named (sv_codec (lk_server lk))"
    and na: "\<not> lk_aborted lk'"
  shows "in_step lk' \<and> (\<forall>r. rp = Inr (r, '''') \<longrightarrow> (\<exists>(q' :: ws_req) r' res.
     rq_BaseRevision q' = le_BaseRevision l \<and>
     (named (le_Path l) \<longrightarrow> fe_Path (rq_Entry q') = le_Path l) \<and>
     (named (le_CurrentSHA256 l) \<longrightarrow> fe_SHA256 (rq_Entry q') = le_CurrentSHA256 l) \<and>
     HandlePut (sv_sha (lk_server lk)) (sv_store (lk_server lk)) (cn_sess (lk_conn lk)) (fe_Path (rq_Entry q'))
       (le_BaseRevision l) (fe_SHA256 (rq_Entry q')) r' (sv_rnd (lk_server lk) (length (cn_drawn (lk_conn lk))))
       (cn_world (lk_conn lk)) = (res, cn_world (lk_conn lk')) \<and> pr_OK res \<and> r = pr_Revision res))"
proof -
  define q where "q = ws_req0\<lparr>rq_Op := ''put'',
             rq_Entry := \<lparr>fe_Path = le_Path l, fe_Size = le_Size l, fe_SHA256 = le_CurrentSHA256 l,
                          fe_Revision = 0, fe_Deleted = False\<rparr>, rq_BaseRevision := le_BaseRevision l\<rparr>"
  let ?P = "lk_server lk" and ?c = "lk_conn lk"
  have "rq_Op q = ''put''" "rq_BaseRevision q = le_BaseRevision l" "fe_Path (rq_Entry q) = le_Path l"
    "fe_SHA256 (rq_Entry q) = le_CurrentSHA256 l" by (simp_all add: q_def)
  with J[unfolded json_ok_def, THEN conjunct1, rule_format, of q] obtain q' where q': "dec_req (sv_codec ?P) (enc_req (sv_codec ?P) q) = Some q'" "rq_Op q' = ''put''"
    "rq_BaseRevision q' = le_BaseRevision l" "named (le_Path l) \<longrightarrow> fe_Path (rq_Entry q') = le_Path l"
    "named (le_CurrentSHA256 l) \<longrightarrow> fe_SHA256 (rq_Entry q') = le_CurrentSHA256 l"
    by auto
  let ?b = "BinFrame \<lparr>rd_data = rd_data f, rd_fails = False\<rparr>"
  obtain ok lk1 where w: "writeJSON q lk = (ok, lk1)" by fastforce
  obtain ok2 lk2 where s: "send ?b lk1 = (ok2, lk2)" by fastforce
  obtain r lk3 where j: "readJSON lk2 = (r, lk3)" by fastforce
  note W = send_cases[OF w[unfolded writeJSON_def]] and S = send_cases[OF s]
  note P = p[unfolded ws_Put_def q_def[symmetric]]
  show ?thesis
  proof (cases "ok \<and> ok2")
    case False
    with P w s W S show ?thesis
      by (auto simp: in_step_def split: prod.splits bool.splits)
  next
    case True
    with W S st have lk2: "lk_sent lk2 = [TextFrame (enc_req (sv_codec ?P) q), ?b]" "lk_server lk2 = ?P" "lk_conn lk2 = ?c"
      "lk_read lk2 = length (cn_out ?c)" "\<not> lk_dead lk2" by (auto simp: in_step_def)
    have good: "\<not> rd_fails f" using P w s True na by (auto split: if_splits)
    then have fin: "lk' = lk3" "rp = (case r of None \<Rightarrow> Inl TransportError | Some resp \<Rightarrow> Inr (ws_reply resp))"
      using P w s j True by (auto split: option.splits)
    from flush_put[of lk2 q _ q'] lk2 q'(1,2) consider
      (none) "cn_out (lk_conn (flush lk2)) = cn_out ?c"
      | (put) r' where "cn_out (lk_conn (flush lk2)) = cn_out (serve_put ?P q' r' ?c)"
        "cn_world (lk_conn (flush lk2)) = cn_world (serve_put ?P q' r' ?c)" by auto
    then show ?thesis
    proof cases
      case none
      with answer[OF j lk2(4,5) refl, of "[]"] fin show ?thesis by (auto simp: in_step_def)
    next
      case (put r')
      from out_put[of ?P ?c q' r'] obtain res where R: "HandlePut (sv_sha ?P) (sv_store ?P) (cn_sess ?c) (fe_Path (rq_Entry q'))
          (rq_BaseRevision q') (fe_SHA256 (rq_Entry q')) r' (sv_rnd ?P (length (cn_drawn ?c))) (cn_world ?c) =
          (res, cn_world (serve_put ?P q' r' ?c))"
        "cn_out (serve_put ?P q' r' ?c) = cn_out ?c @ [TextFrame (enc_resp (sv_codec ?P) (putResp (fe_Path (rq_Entry q')) res))]"
        by blast
      let ?v = "putResp (fe_Path (rq_Entry q')) res"
      obtain v' where v': "dec_resp (sv_codec ?P) (enc_resp (sv_codec ?P) ?v) = Some v'" "rp_Op v' = rp_Op ?v"
        "rp_Revision v' = rp_Revision ?v" "rp_Reason ?v \<noteq> '''' \<longrightarrow> rp_Reason v' \<noteq> ''''"
        using J putResp_op[of "fe_Path (rq_Entry q')" res] unfolding json_ok_def by blast
      from answer[OF j lk2(4,5) refl put(1)[unfolded R(2)]] show ?thesis
      proof (elim disjE exE conjE)
        assume "r = None" "lk_dead lk3"
        with fin show ?thesis by (simp add: in_step_def)
      next
        fix fr gs
        assume a: "[TextFrame (enc_resp (sv_codec ?P) ?v)] = fr # gs" "r = dec_resp (sv_codec (lk_server lk2)) (frame_bytes fr)"
          "\<not> lk_dead lk3" "lk_conn lk3 = lk_conn (flush lk2)" "lk_sent lk3 = []" "lk_read lk3 = Suc (length (cn_out ?c))"
        then have r: "r = Some v'" using v'(1) lk2(2) by (auto simp: frame_bytes_def)
        have step: "in_step lk'" using a put(1) R(2) fin(1) by (simp add: in_step_def)
        have "pr_OK res \<and> x = pr_Revision res" if x: "rp = Inr (x, '''')" for x
        proof (cases "pr_OK res")
          case True
          with v' x fin(2) r show ?thesis by (simp add: ws_reply_def putResp_def)
        next
          case False
          with HandlePut_reason[OF R(1)] v' x fin(2) r show ?thesis by (simp add: ws_reply_def putResp_def)
        qed
        note ok = this
        have "cn_world (serve_put ?P q' r' ?c) = cn_world (lk_conn lk')" using a(4) put(2) fin(1) by simp
        note H = R(1)[unfolded this q'(3)]
        show ?thesis
        proof (intro conjI[OF step] allI impI)
          fix y assume y: "rp = Inr (y, '''')"
          show "\<exists>(q' :: ws_req) r' res. rq_BaseRevision q' = le_BaseRevision l \<and>
             (named (le_Path l) \<longrightarrow> fe_Path (rq_Entry q') = le_Path l) \<and>
             (named (le_CurrentSHA256 l) \<longrightarrow> fe_SHA256 (rq_Entry q') = le_CurrentSHA256 l) \<and>
             HandlePut (sv_sha ?P) (sv_store ?P) (cn_sess ?c) (fe_Path (rq_Entry q')) (le_BaseRevision l)
               (fe_SHA256 (rq_Entry q')) r' (sv_rnd ?P (length (cn_drawn ?c))) (cn_world ?c) =
               (res, cn_world (lk_conn lk')) \<and> pr_OK res \<and> y = pr_Revision res"
            by (rule exI[where x = q'], rule exI[where x = r'], rule exI[where x = res])
              (use H ok[OF y] q'(3-5) in simp)
        qed
      qed
    qed
  qed
qed

lemma out_one:
  "rq_Op q \<in> {''manifest'', ''delete''} \<Longrightarrow>
     \<exists>v. cn_out (serve_one P q c) = cn_out c @ [TextFrame (enc_resp (sv_codec P) v)]"
  "rq_Op q = ''hello'' \<Longrightarrow> cn_out (serve_one P q c) = cn_out c"
  by (auto simp: serve_one_def serve_manifest_def serve_delete_def serve_hello_def writeSyncJSON_def
      split: prod.splits sum.splits)

lemma request_cases:
  assumes w: "writeJSON q lk = (ok, lk1)" and st: "in_step lk" and J: "json_ok named (sv_codec (lk_server lk))"
    and op: "rq_Op q \<in> {''hello'', ''manifest'', ''get'', ''delete''}"
  shows "(\<not> ok \<and> lk_dead lk1) \<or> (\<exists>q'. ok \<and> \<not> lk_dead lk1 \<and> lk_read lk1 = length (cn_out (lk_conn lk)) \<and>
     lk_server lk1 = lk_server lk \<and> lk_conn lk1 = lk_conn lk \<and>
     dec_req (sv_codec (lk_server lk)) (enc_req (sv_codec (lk_server lk)) q) = Some q' \<and> rq_Op q' = rq_Op q \<and>
     (named (rq_Path q) \<longrightarrow> rq_Path q' = rq_Path q) \<and>
     (lk_conn (flush lk1) = lk_conn lk \<or> lk_conn (flush lk1) = closed (lk_conn lk) \<or>
      lk_conn (flush lk1) = serve_one (lk_server lk) q' (lk_conn lk)))"
proof -
  from J[unfolded json_ok_def, THEN conjunct1, rule_format, of q] op obtain q' where q':
    "dec_req (sv_codec (lk_server lk)) (enc_req (sv_codec (lk_server lk)) q) = Some q'" "rq_Op q' = rq_Op q"
    "named (rq_Path q) \<longrightarrow> rq_Path q' = rq_Path q" by auto
  from send_cases[OF w[unfolded writeJSON_def]] show ?thesis
  proof (elim disjE conjE)
    assume a: "ok" "\<not> lk_dead lk" "\<not> lk_dead lk1" "lk_server lk1 = lk_server lk" "lk_conn lk1 = lk_conn lk"
      "lk_sent lk1 = lk_sent lk @ [TextFrame (enc_req (sv_codec (lk_server lk)) q)]" "lk_read lk1 = lk_read lk"
    with st have "lk_sent lk1 = [TextFrame (enc_req (sv_codec (lk_server lk1)) q)]" "lk_read lk1 = length (cn_out (lk_conn lk))"
      by (auto simp: in_step_def)
    with flush_one[OF this(1), of q'] q' op a show ?thesis by auto
  qed simp
qed

lemma hello_in_step:
  assumes h: "ws_Hello d lk = (rh, lk')" and st: "in_step lk" and J: "json_ok named (sv_codec (lk_server lk))"
  shows "in_step lk'"
proof -
  obtain ok lk1 where w: "writeJSON (ws_req0\<lparr>rq_Op := ''hello'', rq_Device := d\<rparr>) lk = (ok, lk1)" by fastforce
  have "rq_Op (ws_req0\<lparr>rq_Op := ''hello'', rq_Device := d\<rparr>) = ''hello''" by simp
  with request_cases[OF w st J] h w out_one(2)[of _ "lk_server lk" "lk_conn lk"] show ?thesis
    by (auto simp: ws_Hello_def in_step_def)
qed

text \<open>A request with one text frame as its answer.\<close>

lemma one_answer:
  assumes w: "writeJSON q lk = (True, lk1)" and j: "readJSON lk1 = (r, lk')" and st: "in_step lk"
    and J: "json_ok named (sv_codec (lk_server lk))" and op: "rq_Op q \<in> {''manifest'', ''delete''}"
  shows "in_step lk'"
proof -
  from request_cases[OF w st J] op obtain q' where R: "\<not> lk_dead lk1" "lk_read lk1 = length (cn_out (lk_conn lk))"
    "rq_Op q' = rq_Op q"
    "lk_conn (flush lk1) = lk_conn lk \<or> lk_conn (flush lk1) = closed (lk_conn lk) \<or>
      lk_conn (flush lk1) = serve_one (lk_server lk) q' (lk_conn lk)" by auto
  from R(3,4) op out_one(1)[of q' "lk_server lk" "lk_conn lk"] obtain fs where
    fs: "cn_out (lk_conn (flush lk1)) = cn_out (lk_conn lk) @ fs" "length fs \<le> 1" by auto
  from answer[OF j R(2,1) refl fs(1)] fs show ?thesis by (auto simp: in_step_def)
qed

lemma manifest_in_step:
  assumes m: "ws_Manifest lk = (rm, lk')" and st: "in_step lk" and J: "json_ok named (sv_codec (lk_server lk))"
  shows "in_step lk'"
proof -
  obtain ok lk1 where w: "writeJSON (ws_req0\<lparr>rq_Op := ''manifest''\<rparr>) lk = (ok, lk1)" by fastforce
  obtain r lk2 where j: "readJSON lk1 = (r, lk2)" by fastforce
  show ?thesis
  proof (cases ok)
    case True
    with m w j have "lk' = lk2" by (auto simp: ws_Manifest_def split: option.splits)
    with one_answer[OF w[unfolded True[THEN eqTrueI]] j st J] show ?thesis by simp
  next
    case False
    with m w send_cases[OF w[unfolded writeJSON_def]] show ?thesis by (auto simp: ws_Manifest_def in_step_def)
  qed
qed

lemma delete_in_step:
  assumes m: "ws_Delete l lk = (rd, lk')" and st: "in_step lk" and J: "json_ok named (sv_codec (lk_server lk))"
  shows "in_step lk'"
proof -
  let ?q = "ws_req0\<lparr>rq_Op := ''delete'',
             rq_Entry := zero_FileEntry\<lparr>fe_Path := le_Path l\<rparr>, rq_BaseRevision := le_BaseRevision l\<rparr>"
  obtain ok lk1 where w: "writeJSON ?q lk = (ok, lk1)" by fastforce
  obtain r lk2 where j: "readJSON lk1 = (r, lk2)" by fastforce
  show ?thesis
  proof (cases ok)
    case True
    with m w j have "lk' = lk2" by (auto simp: ws_Delete_def split: option.splits)
    with one_answer[OF w[unfolded True[THEN eqTrueI]] j st J] show ?thesis by simp
  next
    case False
    with m w send_cases[OF w[unfolded writeJSON_def]] show ?thesis by (auto simp: ws_Delete_def in_step_def)
  qed
qed

lemma manifest_named:
  assumes "ws_Manifest lk = (Inr rs, lk')" "json_ok named (sv_codec (lk_server lk))"
  shows "\<forall>r \<in> set rs. named (fe_Path r)"
proof -
  obtain ok lk1 where w: "writeJSON (ws_req0\<lparr>rq_Op := ''manifest''\<rparr>) lk = (ok, lk1)" by fastforce
  with assms(1) obtain resp lk2 where r: "readJSON lk1 = (Some resp, lk2)" "rs = rp_Entries resp"
    by (auto simp: ws_Manifest_def split: bool.splits prod.splits option.splits)
  have s: "lk_server lk1 = lk_server lk" using writeJSON_later[OF w] by (simp add: link_later_def)
  obtain x lk3 where x: "recv lk1 = (x, lk3)" by fastforce
  then have "lk_server lk3 = lk_server lk" using recv_later[OF x] s by (simp add: link_later_def)
  with r x obtain f where "dec_resp (sv_codec (lk_server lk)) (frame_bytes f) = Some resp"
    by (auto simp: readJSON_def split: option.splits)
  with assms(2) r(2) show ?thesis unfolding json_ok_def by blast
qed

lemma get_in_step:
  assumes g: "ws_Get k lk = (rg, lk')" and st: "in_step lk" and J: "json_ok named (sv_codec (lk_server lk))"
  shows "in_step lk' \<and> (\<forall>e rc. rg = Inr (e, rc) \<longrightarrow> (\<exists>q' e0 rd. (named k \<longrightarrow> q' = k) \<and>
     HandleGet (sv_store (lk_server lk)) (cn_sess (lk_conn lk)) q' (cn_world (lk_conn lk)) =
       (Inr (e0, rd), cn_world (lk_conn lk')) \<and>
     fe_Revision e = fe_Revision e0 \<and> (fe_SHA256 e0 = '''' \<longrightarrow> fe_SHA256 e = '''') \<and>
     rc = \<lparr>rd_data = rd_data rd, rd_fails = False\<rparr>))"
proof -
  let ?q = "ws_req0\<lparr>rq_Op := ''get'', rq_Path := k\<rparr>" and ?P = "lk_server lk" and ?c = "lk_conn lk"
  obtain ok lk1 where w: "writeJSON ?q lk = (ok, lk1)" by fastforce
  obtain r lk2 where j: "readJSON lk1 = (r, lk2)" by fastforce
  obtain x lk3 where x: "recv lk2 = (x, lk3)" by fastforce
  have op: "rq_Op ?q \<in> {''hello'', ''manifest'', ''get'', ''delete''}" by simp
  note RC = request_cases[OF w st J op]
  show ?thesis
  proof (cases ok)
    case False
    with RC g w show ?thesis by (auto simp: ws_Get_def in_step_def)
  next
    case True
    with RC obtain q' where R: "ok" "\<not> lk_dead lk1" "lk_read lk1 = length (cn_out ?c)" "lk_server lk1 = ?P"
      "rq_Op q' = rq_Op ?q" "named (rq_Path ?q) \<longrightarrow> rq_Path q' = rq_Path ?q"
      "lk_conn (flush lk1) = ?c \<or> lk_conn (flush lk1) = closed ?c \<or> lk_conn (flush lk1) = serve_one ?P q' ?c"
      by auto
    have G: "case r of None \<Rightarrow> lk' = lk2 \<and> (\<forall>z. rg \<noteq> Inr z) | Some resp \<Rightarrow>
        (case rp_Entry resp of None \<Rightarrow> lk' = lk2 \<and> (\<forall>z. rg \<noteq> Inr z)
         | Some e \<Rightarrow> if rp_Op resp \<noteq> ''file'' then lk' = lk2 \<and> (\<forall>z. rg \<noteq> Inr z)
             else lk' = lk3 \<and> (case x of Some (BinFrame b) \<Rightarrow> rg = Inr (e, \<lparr>rd_data = rd_data b, rd_fails = False\<rparr>)
                               | _ \<Rightarrow> (\<forall>z. rg \<noteq> Inr z)))"
      using g w j x R(1) by (auto simp: ws_Get_def split: option.splits ws_frame.splits if_splits)
    consider (quiet) "cn_out (lk_conn (flush lk1)) = cn_out ?c"
      | (one) "lk_conn (flush lk1) = serve_get ?P q' ?c"
      using R(5,7) by (auto simp: serve_one_def)
    then show ?thesis
    proof cases
      case quiet
      with answer[OF j R(3,2) refl, of "[]"] G show ?thesis by (auto simp: in_step_def)
    next
      case one
      obtain h wd where h: "HandleGet (sv_store ?P) (cn_sess ?c) (rq_Path q') (cn_world ?c) = (h, wd)"
        by (cases "HandleGet (sv_store ?P) (cn_sess ?c) (rq_Path q') (cn_world ?c)")
      show ?thesis
      proof (cases h)
        case (Inl e)
        let ?v = "ws_resp0\<lparr>rp_Op := ''reject'', rp_Path := rq_Path q', rp_Reason := ''not_found''\<rparr>"
        have o: "cn_out (lk_conn (flush lk1)) = cn_out ?c @ [TextFrame (enc_resp (sv_codec ?P) ?v)]"
          using one h Inl by (simp add: serve_get_def writeSyncJSON_def)
        have "rp_Op ?v = ''reject''" by simp
        then obtain v' where v': "dec_resp (sv_codec ?P) (enc_resp (sv_codec ?P) ?v) = Some v'" "rp_Op v' = ''reject''"
          using J[unfolded json_ok_def, THEN conjunct2, THEN conjunct1, rule_format, of ?v] by auto
        from answer[OF j R(3,2) refl o] show ?thesis
        proof (elim disjE exE conjE)
          assume "r = None" "lk_dead lk2"
          with G show ?thesis by (simp add: in_step_def)
        next
          fix f gs
          assume a: "[TextFrame (enc_resp (sv_codec ?P) ?v)] = f # gs" "r = dec_resp (sv_codec (lk_server lk1)) (frame_bytes f)"
            "\<not> lk_dead lk2" "lk_conn lk2 = lk_conn (flush lk1)" "lk_sent lk2 = []" "lk_read lk2 = Suc (length (cn_out ?c))"
          then have "r = Some v'" using v' R(4) by (auto simp: frame_bytes_def)
          with G v'(2) have "lk' = lk2 \<and> (\<forall>z. rg \<noteq> Inr z)" by (auto split: option.splits)
          with a o show ?thesis by (auto simp: in_step_def)
        qed
      next
        case (Inr er)
        obtain e0 rd where er: "er = (e0, rd)" by fastforce
        let ?v = "ws_resp0\<lparr>rp_Op := ''file'', rp_Entry := Some e0, rp_Path := fe_Path e0\<rparr>"
        let ?b = "BinFrame \<lparr>rd_data = rd_data rd, rd_fails = False\<rparr>"
        have o: "cn_out (lk_conn (flush lk1)) = cn_out ?c @ [TextFrame (enc_resp (sv_codec ?P) ?v), ?b]"
          "cn_world (lk_conn (flush lk1)) = wd"
          using one h Inr er by (simp_all add: serve_get_def writeSyncJSON_def Let_def)
        have "rp_Op ?v = ''file''" "rp_Entry ?v = Some e0" by simp_all
        then obtain v' e' where v': "dec_resp (sv_codec ?P) (enc_resp (sv_codec ?P) ?v) = Some v'" "rp_Op v' = ''file''"
          "rp_Entry v' = Some e'" "fe_Revision e' = fe_Revision e0" "fe_SHA256 e0 = '''' \<longrightarrow> fe_SHA256 e' = ''''"
          using J[unfolded json_ok_def, THEN conjunct2, THEN conjunct1, rule_format, of ?v] by auto
        from answer[OF j R(3,2) refl o(1)] show ?thesis
        proof (elim disjE exE conjE)
          assume "r = None" "lk_dead lk2"
          with G show ?thesis by (simp add: in_step_def)
        next
          fix f gs
          assume a: "[TextFrame (enc_resp (sv_codec ?P) ?v), ?b] = f # gs" "r = dec_resp (sv_codec (lk_server lk1)) (frame_bytes f)"
            "\<not> lk_dead lk2" "lk_conn lk2 = lk_conn (flush lk1)" "lk_sent lk2 = []" "lk_read lk2 = Suc (length (cn_out ?c))"
          then have r: "r = Some v'" using v' R(4) by (auto simp: frame_bytes_def)
          have fl: "lk_conn (flush lk2) = lk_conn (flush lk1)" using a(4,5) by (simp add: flush_def)
          from recv_cases[OF x] show ?thesis
          proof (elim disjE conjE)
            assume "x = None" "lk_dead lk3"
            with G r v' show ?thesis by (simp add: in_step_def)
          next
            assume b: "x = Some (cn_out (lk_conn (flush lk2)) ! lk_read lk2)" "lk_conn lk3 = lk_conn (flush lk2)"
              "lk_sent lk3 = []" "lk_read lk3 = Suc (lk_read lk2)"
            then have "x = Some ?b" using fl o a(6) by (simp add: nth_append)
            with G r v' have R3: "lk' = lk3" "rg = Inr (e', \<lparr>rd_data = rd_data rd, rd_fails = False\<rparr>)" by simp_all
            have "in_step lk'" using b fl o a(6) R3(1) by (simp add: in_step_def)
            moreover have "HandleGet (sv_store ?P) (cn_sess ?c) (rq_Path q') (cn_world ?c) = (Inr (e0, rd), cn_world (lk_conn lk'))"
              using h Inr er o(2) b(2) fl R3(1) by simp
            ultimately show ?thesis using R3(2) v'(4,5) R(6) by auto
          qed
        qed
      qed
    qed
  qed
qed

section \<open>An honest connection\<close>

text \<open>\<open>link_honest\<close>: what the client believes of a path does not run ahead of the server, and at the
  revision it has recorded, the digest it has recorded is the server's.\<close>

definition link_honest :: "string \<Rightarrow> pg link \<Rightarrow> string \<Rightarrow> int64 \<Rightarrow> string \<Rightarrow> bool" where
  "link_honest pid lk k r h \<longleftrightarrow> (\<exists>rel e. SafeRelPath k = Inr rel \<and>
     pg_idx (fst (cn_world (lk_conn lk))) pid rel = Some e \<and> sint r \<le> sint (fe_Revision e) \<and>
     (fe_Revision e = r \<longrightarrow> h \<noteq> '''' \<longrightarrow> fe_SHA256 e = h \<and> \<not> fe_Deleted e))"

definition link_ok :: "(string \<Rightarrow> bool) \<Rightarrow> nat \<Rightarrow> string \<Rightarrow> string list \<Rightarrow> pg link \<Rightarrow> bool" where
  "link_ok named N pid rc lk \<longleftrightarrow>
     sv_store (lk_server lk) = pg_store \<and> json_ok named (sv_codec (lk_server lk)) \<and> conn_ok pid rc (lk_conn lk) \<and>
     pgs.server_ok (int (N + length (cn_out (lk_conn lk)))) pid rc (cn_world (lk_conn lk)) \<and> in_step lk"

definition link_fine :: "nat \<Rightarrow> string list \<Rightarrow> pg link \<Rightarrow> bool" where
  "link_fine N rc lk \<longleftrightarrow> names_fresh rc (lk_conn lk) \<and> \<not> lk_aborted lk \<and>
     int (N + length (cn_out (lk_conn lk))) < 2 ^ 63"

lemma link_fine_back: "link_later pid rc lk lk' \<Longrightarrow> link_fine N rc lk' \<Longrightarrow> link_fine N rc lk"
  unfolding link_later_def conn_step_def link_fine_def using names_fresh_prefix by fastforce

lemma server_ok_mono:
  assumes "pgs.server_ok m pid rc x" "m \<le> n"
  shows "pgs.server_ok n pid rc x"
proof -
  have "entry_ok m k e \<Longrightarrow> entry_ok n k e" for k e using assms(2) by (auto simp: entry_ok_def)
  with assms(1) show ?thesis by (auto simp: pgs.server_ok_def index_ok_def)
qed

lemma link_world:
  assumes "link_ok named N pid rc lk" "link_later pid rc lk lk'" "link_fine N rc lk'"
  shows "index_later (pg_idx (fst (cn_world (lk_conn lk))) pid) (pg_idx (fst (cn_world (lk_conn lk'))) pid) \<and>
    (in_step lk' \<longrightarrow> link_ok named N pid rc lk')"
proof -
  let ?P = "lk_server lk" and ?c = "lk_conn lk" and ?c' = "lk_conn lk'"
  have O: "sv_store ?P = pg_store" "json_ok named (sv_codec ?P)" "conn_ok pid rc ?c"
    "pgs.server_ok (int (N + length (cn_out ?c))) pid rc (cn_world ?c)" using assms(1) by (auto simp: link_ok_def)
  have F: "names_fresh rc ?c'" "int (N + length (cn_out ?c')) < 2 ^ 63" using assms(3) by (auto simp: link_fine_def)
  have L: "lk_server lk' = ?P" "conn_step ?P pid rc ?c ?c'" using assms(2) by (auto simp: link_later_def)
  from L(2) O(3) F(1) obtain m where m: "length (cn_out ?c) + m \<le> length (cn_out ?c')"
    "handler_run (sv_sha ?P) pg_store pid rc m (cn_world ?c) (cn_world ?c')" "conn_ok pid rc ?c'"
    unfolding conn_step_def O(1) by blast
  have b: "int (N + length (cn_out ?c)) + int m < 2 ^ 63" using m(1) F(2) by linarith
  from pgs.server_run_effect[OF handler_server_run[OF m(2)] O(4) _ b]
  have R: "pgs.server_ok (int (N + length (cn_out ?c)) + int m) pid rc (cn_world ?c')"
    "index_later (pg_idx (fst (cn_world ?c)) pid) (pg_idx (fst (cn_world ?c')) pid)" by simp_all
  have "pgs.server_ok (int (N + length (cn_out ?c'))) pid rc (cn_world ?c')"
    by (rule server_ok_mono[OF R(1)]) (use m(1) in simp)
  with R(2) O L(1) m(3) show ?thesis by (simp add: link_ok_def)
qed

lemma link_honest_later:
  assumes "index_later (pg_idx (fst (cn_world (lk_conn lk))) pid) (pg_idx (fst (cn_world (lk_conn lk'))) pid)"
    "link_honest pid lk k r h"
  shows "link_honest pid lk' k r h"
proof -
  from assms(2) obtain rel e where e: "SafeRelPath k = Inr rel" "pg_idx (fst (cn_world (lk_conn lk))) pid rel = Some e"
    "sint r \<le> sint (fe_Revision e)" "fe_Revision e = r \<longrightarrow> h \<noteq> '''' \<longrightarrow> fe_SHA256 e = h \<and> \<not> fe_Deleted e"
    by (auto simp: link_honest_def)
  with assms(1) obtain e' where e': "pg_idx (fst (cn_world (lk_conn lk'))) pid rel = Some e'"
    "sint (fe_Revision e) \<le> sint (fe_Revision e')" "fe_Revision e = fe_Revision e' \<longrightarrow> e = e'"
    unfolding index_later_def by blast
  have "e = e'" if q: "fe_Revision e' = r"
  proof -
    have "sint (fe_Revision e) = sint (fe_Revision e')" using q e(3) e'(2) by simp
    then show ?thesis using e'(3) signed_word_eqI by blast
  qed
  with e e' show ?thesis unfolding link_honest_def by fastforce
qed

lemma link_put:
  assumes p: "ws_Put l f lk = (rp, lk')" and o: "link_ok named N pid rc lk" and fi: "link_fine N rc lk'"
    and r: "rp = Inr (r, '''')" and na: "named (le_Path l)" "named (le_CurrentSHA256 l)"
  shows "link_honest pid lk' (le_Path l) r (le_CurrentSHA256 l)"
proof -
  let ?P = "lk_server lk" and ?c = "lk_conn lk"
  have O: "sv_store ?P = pg_store" "json_ok named (sv_codec ?P)" "conn_ok pid rc ?c" "in_step lk"
    "pgs.server_ok (int (N + length (cn_out ?c))) pid rc (cn_world ?c)" using o by (auto simp: link_ok_def)
  obtain db fs where w: "cn_world ?c = (db, fs)" by fastforce
  obtain db' fs' where w': "cn_world (lk_conn lk') = (db', fs')" by fastforce
  have "\<not> lk_aborted lk'" using fi by (simp add: link_fine_def)
  from put_in_step[OF p O(4,2) this] r na obtain q' :: ws_req and r' res where
    "fe_Path (rq_Entry q') = le_Path l" "fe_SHA256 (rq_Entry q') = le_CurrentSHA256 l"
    "HandlePut (sv_sha ?P) pg_store (cn_sess ?c) (fe_Path (rq_Entry q')) (le_BaseRevision l) (fe_SHA256 (rq_Entry q')) r'
      (sv_rnd ?P (length (cn_drawn ?c))) (db, fs) = (res, db', fs')" "pr_OK res" "r = pr_Revision res"
    unfolding O(1) w w' by blast
  then have h: "HandlePut (sv_sha ?P) pg_store (cn_sess ?c) (le_Path l) (le_BaseRevision l) (le_CurrentSHA256 l) r'
      (sv_rnd ?P (length (cn_drawn ?c))) (db, fs) = (res, db', fs')" "pr_OK res" "r = pr_Revision res" by simp_all
  have i: "pg_inv db" "workspace rc fs" "plain rc fs" using O(5) w by (auto simp: pgs.server_ok_def ws_ok_def)
  have s: "sane_max (ss_MaxBytes (cn_sess ?c))" "ss_Root (cn_sess ?c) = abs_str rc" "ss_ProjectID (cn_sess ?c) = pid"
    using O(3) by (auto simp: conn_ok_def)
  from pgs.HandlePut_accepted[OF i s(1,2) h(1,2), unfolded s(3)] h(3) w'
  show ?thesis unfolding link_honest_def by fastforce
qed

lemma link_get:
  assumes g: "ws_Get k lk = (rg, lk')" and o: "link_ok named N pid rc lk" and r: "rg = Inr (e, rd)" and na: "named k"
  shows "link_honest pid lk' k (fe_Revision e) (fe_SHA256 e)"
proof -
  let ?P = "lk_server lk" and ?c = "lk_conn lk"
  have O: "sv_store ?P = pg_store" "json_ok named (sv_codec ?P)" "conn_ok pid rc ?c" "in_step lk"
    "pgs.server_ok (int (N + length (cn_out ?c))) pid rc (cn_world ?c)" using o by (auto simp: link_ok_def)
  obtain db fs where w: "cn_world ?c = (db, fs)" by fastforce
  obtain db' fs' where w': "cn_world (lk_conn lk') = (db', fs')" by fastforce
  from get_in_step[OF g O(4,2)] r na obtain e0 rd0 where
    h: "HandleGet pg_store (cn_sess ?c) k (db, fs) = (Inr (e0, rd0), db', fs')"
      "fe_Revision e = fe_Revision e0" "fe_SHA256 e0 = '''' \<longrightarrow> fe_SHA256 e = ''''"
    unfolding O(1) w w' by blast
  have i: "pg_inv db" "workspace rc fs" "plain rc fs" using O(5) w by (auto simp: pgs.server_ok_def ws_ok_def)
  have s: "ss_Root (cn_sess ?c) = abs_str rc" "ss_ProjectID (cn_sess ?c) = pid" using O(3) by (auto simp: conn_ok_def)
  from pgs.HandleGet_effect[OF i s(1) h(1), unfolded s(2)] h(2,3) w' show ?thesis unfolding link_honest_def by auto
qed

interpretation wl: sync_transport wsTransport "link_later pid rc" "link_ok named N pid rc" "link_fine N rc" named
    "link_honest pid"
  for named :: "string \<Rightarrow> bool" and N :: nat and pid :: string and rc :: "string list"
proof
  fix t u v :: "pg link"
  show "link_later pid rc t t" by (rule link_later_refl)
  show "link_later pid rc t u \<Longrightarrow> link_later pid rc u v \<Longrightarrow> link_later pid rc t v" by (rule link_later_trans)
  show "link_later pid rc t u \<Longrightarrow> link_fine N rc u \<Longrightarrow> link_fine N rc t" by (rule link_fine_back)
  show "link_ok named N pid rc t \<Longrightarrow> link_later pid rc t u \<Longrightarrow> link_fine N rc u \<Longrightarrow> link_honest pid t k r h \<Longrightarrow>
      link_honest pid u k r h" for k r h
    using link_world[of named N pid rc t u] link_honest_later by blast
next
  fix t t' :: "pg link" and d rh assume h: "tr_Hello wsTransport d t = (rh, t')"
  then have h': "ws_Hello d t = (rh, t')" by (simp add: wsTransport_def)
  have l: "link_later pid rc t t'" by (rule ws_calls_later(1)[OF h'])
  have "link_ok named N pid rc t'" if "link_ok named N pid rc t" "link_fine N rc t'"
    using link_world[OF that(1) l that(2)] hello_in_step[OF h'] that(1) by (auto simp: link_ok_def)
  with l show "link_later pid rc t t' \<and> (link_ok named N pid rc t \<longrightarrow> link_fine N rc t' \<longrightarrow> link_ok named N pid rc t')"
    by blast
next
  fix t t' :: "pg link" and rm assume h: "tr_Manifest wsTransport t = (rm, t')"
  then have h': "ws_Manifest t = (rm, t')" by (simp add: wsTransport_def)
  have l: "link_later pid rc t t'" by (rule ws_calls_later(2)[OF h'])
  have "link_ok named N pid rc t'" "\<forall>rs. rm = Inr rs \<longrightarrow> (\<forall>r \<in> set rs. named (fe_Path r))"
    if "link_ok named N pid rc t" "link_fine N rc t'"
    using link_world[OF that(1) l that(2)] manifest_in_step[OF h'] manifest_named[of t] h' that(1) by (auto simp: link_ok_def)
  with l show "link_later pid rc t t' \<and> (link_ok named N pid rc t \<longrightarrow> link_fine N rc t' \<longrightarrow> link_ok named N pid rc t' \<and>
      (\<forall>rs. rm = Inr rs \<longrightarrow> (\<forall>r \<in> set rs. named (fe_Path r))))" by blast
next
  fix t t' :: "pg link" and l f rp assume h: "tr_Put wsTransport l f t = (rp, t')"
  then have h': "ws_Put l f t = (rp, t')" by (simp add: wsTransport_def)
  have L: "link_later pid rc t t'" by (rule ws_calls_later(3)[OF h'])
  have "link_ok named N pid rc t'" if "link_ok named N pid rc t" "link_fine N rc t'"
    using link_world[OF that(1) L that(2)] put_in_step[OF h'] that by (auto simp: link_ok_def link_fine_def)
  with L link_put[OF h'] show "link_later pid rc t t' \<and> (link_ok named N pid rc t \<longrightarrow> link_fine N rc t' \<longrightarrow>
      link_ok named N pid rc t' \<and> (\<forall>r. rp = Inr (r, '''') \<longrightarrow> named (le_Path l) \<longrightarrow> named (le_CurrentSHA256 l) \<longrightarrow>
         link_honest pid t' (le_Path l) r (le_CurrentSHA256 l)))" by blast
next
  fix t t' :: "pg link" and k rg assume h: "tr_Get wsTransport k t = (rg, t')"
  then have h': "ws_Get k t = (rg, t')" by (simp add: wsTransport_def)
  have l: "link_later pid rc t t'" by (rule ws_calls_later(4)[OF h'])
  have "link_ok named N pid rc t'" if "link_ok named N pid rc t" "link_fine N rc t'"
    using link_world[OF that(1) l that(2)] get_in_step[OF h'] that(1) by (auto simp: link_ok_def)
  with l link_get[OF h'] show "link_later pid rc t t' \<and> (link_ok named N pid rc t \<longrightarrow> link_fine N rc t' \<longrightarrow>
      link_ok named N pid rc t' \<and> (\<forall>e b. rg = Inr (e, b) \<longrightarrow> named k \<longrightarrow>
         link_honest pid t' k (fe_Revision e) (fe_SHA256 e)))" by blast
next
  fix t t' :: "pg link" and l rd assume h: "tr_Delete wsTransport l t = (rd, t')"
  then have h': "ws_Delete l t = (rd, t')" by (simp add: wsTransport_def)
  have L: "link_later pid rc t t'" by (rule ws_calls_later(5)[OF h'])
  have "link_ok named N pid rc t'" if "link_ok named N pid rc t" "link_fine N rc t'"
    using link_world[OF that(1) L that(2)] delete_in_step[OF h'] that(1) by (auto simp: link_ok_def)
  with L show "link_later pid rc t t' \<and> (link_ok named N pid rc t \<longrightarrow> link_fine N rc t' \<longrightarrow> link_ok named N pid rc t')"
    by blast
qed

text \<open>A fresh connection is in step, on the world the session factory left.\<close>

lemma DialSync_link:
  assumes "DialSync hm dec key P modeOf factory now upgraded left token w = Inr lk"
    and "Verify hm dec key token AudSync now = Inr cl"
    and "factory (cl_ProjectID cl) '''' (modeOf (cl_ProjectID cl)) w = (sess, db, fs)"
  shows "lk_server lk = P \<and> cn_sess (lk_conn lk) = sess \<and> cn_world (lk_conn lk) = (db, fs) \<and>
    cn_drawn (lk_conn lk) = [] \<and> length (cn_out (lk_conn lk)) = 1 \<and> in_step lk \<and> \<not> lk_aborted lk"
proof -
  define c where "c = writeSyncJSON P (ws_resp0\<lparr>rp_Op := ''auth_ok'', rp_Mode := modeOf (cl_ProjectID cl)\<rparr>)
      \<lparr>cn_sess = sess, cn_world = (db, fs), cn_drawn = [], cn_out = [], cn_open = True\<rparr>"
  define lk0 where "lk0 = \<lparr>lk_server = P, lk_conn = c, lk_sent = [], lk_read = 0, lk_mode = '''', lk_left = left,
      lk_dead = False, lk_aborted = False\<rparr>"
  have s: "ServeSync hm dec key P modeOf factory now upgraded (''Bearer '' @ token) [] w =
      (if upgraded then Served c else NotUpgraded)"
    using assms(2,3) unfolding ServeSync_def trim_prefix_append c_def by (simp add: Let_def)
  obtain r lk1 where j: "readJSON lk0 = (r, lk1)" by fastforce
  from assms(1) s obtain resp where "upgraded" "readJSON lk0 = (Some resp, lk1)" "lk = lk1\<lparr>lk_mode := rp_Mode resp\<rparr>"
    using j by (auto simp: DialSync_def lk0_def[symmetric] split: if_splits option.splits)
  moreover have "lk_conn (flush lk0) = c" by (simp add: flush_def lk0_def)
  moreover obtain x lk2 where x: "recv lk0 = (x, lk2)" by fastforce
  moreover note recv_cases[OF x]
  ultimately have "lk_conn lk = c" "lk_server lk = P" "lk_sent lk = []" "lk_read lk = 1" "\<not> lk_aborted lk"
    by (auto simp: readJSON_def lk0_def split: option.splits)
  then show ?thesis by (simp add: c_def writeSyncJSON_def in_step_def)
qed

section \<open>A concrete codec\<close>

text \<open>A codec of this kind: fields joined by a bar, bars in a string replaced, numbers in unary.\<close>

definition pipe_san :: "string \<Rightarrow> string" where
  "pipe_san = replace_ch (CHR ''|'') (CHR ''?'')"

definition pipe_named :: "string \<Rightarrow> bool" where
  "pipe_named s \<longleftrightarrow> CHR ''|'' \<notin> set s"

definition pipe_num :: "int64 \<Rightarrow> string" where
  "pipe_num r = replicate (unat r) (CHR ''1'')"

definition pipe_ent :: "file_entry \<Rightarrow> string list" where
  "pipe_ent e = [pipe_san (fe_Path e), pipe_num (fe_Size e), pipe_san (fe_SHA256 e), pipe_num (fe_Revision e),
     if fe_Deleted e then ''d'' else '''']"

fun pipe_ents :: "string list \<Rightarrow> file_entry list" where
  "pipe_ents (p # n # h # r # d # xs) =
     \<lparr>fe_Path = p, fe_Size = of_nat (length n), fe_SHA256 = h, fe_Revision = of_nat (length r),
      fe_Deleted = (d \<noteq> '''')\<rparr> # pipe_ents xs"
| "pipe_ents _ = []"

definition pipe_codec :: json_codec where
  "pipe_codec =
     \<lparr>enc_req = (\<lambda>q. join_ch (CHR ''|'') ([pipe_san (rq_Op q), pipe_san (rq_Device q), pipe_san (rq_Path q),
         pipe_num (rq_BaseRevision q)] @ pipe_ent (rq_Entry q))),
      dec_req = (\<lambda>b. case split_ch (CHR ''|'') b of
          op # dev # p # r # xs \<Rightarrow> (case pipe_ents xs of [] \<Rightarrow> None
            | e # _ \<Rightarrow> Some \<lparr>rq_Op = op, rq_Device = dev, rq_Path = p, rq_Entry = e, rq_BaseRevision = of_nat (length r)\<rparr>)
        | _ \<Rightarrow> None),
      enc_resp = (\<lambda>v. join_ch (CHR ''|'') ([pipe_san (rp_Op v), pipe_san (rp_Mode v), pipe_san (rp_Path v),
         pipe_num (rp_Revision v), pipe_san (rp_Reason v), (case rp_Entry v of None \<Rightarrow> '''' | Some _ \<Rightarrow> ''e'')] @
         concat (map pipe_ent ((case rp_Entry v of None \<Rightarrow> [] | Some e \<Rightarrow> [e]) @ rp_Entries v)))),
      dec_resp = (\<lambda>b. case split_ch (CHR ''|'') b of
          op # m # p # r # rs # f # xs \<Rightarrow> (let es = pipe_ents xs in
            if f = '''' then Some \<lparr>rp_Op = op, rp_Mode = m, rp_Entries = es, rp_Entry = None, rp_Path = p,
              rp_Revision = of_nat (length r), rp_Reason = rs\<rparr>
            else (case es of [] \<Rightarrow> None | e # es \<Rightarrow> Some \<lparr>rp_Op = op, rp_Mode = m, rp_Entries = es,
              rp_Entry = Some e, rp_Path = p, rp_Revision = of_nat (length r), rp_Reason = rs\<rparr>))
        | _ \<Rightarrow> None)\<rparr>"

lemma pipe_san_facts [simp]:
  "CHR ''|'' \<notin> set (pipe_san s)" "pipe_named s \<Longrightarrow> pipe_san s = s" "(pipe_san s = []) = (s = [])"
  "length (pipe_num r) = unat r" "CHR ''|'' \<notin> set (pipe_num r)"
  by (auto simp: pipe_san_def pipe_named_def pipe_num_def set_replace_ch) (simp_all add: replace_ch_def)

lemma pipe_ent_clean: "x \<in> set (pipe_ent e) \<Longrightarrow> CHR ''|'' \<notin> set x"
  by (auto simp: pipe_ent_def split: if_splits)

lemma pipe_ents_ent: "pipe_ents (pipe_ent e @ xs) =
    e\<lparr>fe_Path := pipe_san (fe_Path e), fe_SHA256 := pipe_san (fe_SHA256 e)\<rparr> # pipe_ents xs"
  by (simp add: pipe_ent_def)

lemma pipe_ents_named: "e \<in> set (pipe_ents xs) \<Longrightarrow> fe_Path e \<in> set xs"
  by (induction xs rule: pipe_ents.induct) auto

lemma pipe_codec_ok: "json_ok pipe_named pipe_codec"
proof -
  have split: "split_ch (CHR ''|'') (join_ch (CHR ''|'') xs) = xs" if "xs \<noteq> []" "\<And>x. x \<in> set xs \<Longrightarrow> CHR ''|'' \<notin> set x" for xs
    using that by (simp add: split_join)
  have ops: "pipe_named op" if "op \<in> {''hello'', ''manifest'', ''put'', ''get'', ''delete'', ''auth_ok'', ''ack'', ''reject'', ''file''}" for op
    using that by (auto simp: pipe_named_def)
  have q: "dec_req pipe_codec (enc_req pipe_codec q) = Some \<lparr>rq_Op = pipe_san (rq_Op q), rq_Device = pipe_san (rq_Device q),
      rq_Path = pipe_san (rq_Path q), rq_Entry = (rq_Entry q)\<lparr>fe_Path := pipe_san (fe_Path (rq_Entry q)),
        fe_SHA256 := pipe_san (fe_SHA256 (rq_Entry q))\<rparr>, rq_BaseRevision = rq_BaseRevision q\<rparr>" for q
  proof -
    have "split_ch (CHR ''|'') (enc_req pipe_codec q) = [pipe_san (rq_Op q), pipe_san (rq_Device q), pipe_san (rq_Path q),
        pipe_num (rq_BaseRevision q)] @ pipe_ent (rq_Entry q) @ []"
      unfolding pipe_codec_def json_codec.simps append_Nil2 by (rule split) (auto dest: pipe_ent_clean)
    then show ?thesis
      unfolding pipe_codec_def json_codec.simps by (simp add: pipe_ents_ent[of _ "[]", simplified])
  qed
  have v: "\<exists>v'. dec_resp pipe_codec (enc_resp pipe_codec v) = Some v' \<and> rp_Op v' = pipe_san (rp_Op v) \<and>
      rp_Revision v' = rp_Revision v \<and> rp_Reason v' = pipe_san (rp_Reason v) \<and>
      rp_Entry v' = map_option (\<lambda>e. e\<lparr>fe_Path := pipe_san (fe_Path e), fe_SHA256 := pipe_san (fe_SHA256 e)\<rparr>) (rp_Entry v)" for v
  proof -
    have "split_ch (CHR ''|'') (enc_resp pipe_codec v) = [pipe_san (rp_Op v), pipe_san (rp_Mode v), pipe_san (rp_Path v),
         pipe_num (rp_Revision v), pipe_san (rp_Reason v), (case rp_Entry v of None \<Rightarrow> '''' | Some _ \<Rightarrow> ''e'')] @
         concat (map pipe_ent ((case rp_Entry v of None \<Rightarrow> [] | Some e \<Rightarrow> [e]) @ rp_Entries v))"
      unfolding pipe_codec_def json_codec.simps by (rule split) (auto dest: pipe_ent_clean split: option.splits)
    then show ?thesis
      unfolding pipe_codec_def json_codec.simps by (cases "rp_Entry v") (simp_all add: pipe_ents_ent)
  qed
  have n: "pipe_named (fe_Path e)" if d: "dec_resp pipe_codec b = Some v" "e \<in> set (rp_Entries v)" for b v e
  proof -
    from d obtain xs where "set xs \<subseteq> set (split_ch (CHR ''|'') b)" "e \<in> set (pipe_ents xs)"
      unfolding pipe_codec_def json_codec.simps
      by (auto simp: Let_def split: list.splits if_splits) (metis insert_iff list.set(2) subset_insertI subset_trans)+
    with pipe_ents_named split_ch_no_sep show ?thesis unfolding pipe_named_def by blast
  qed
  show ?thesis
    unfolding json_ok_def
  proof (intro conjI allI impI ballI)
    fix q :: ws_req assume "rq_Op q \<in> {''hello'', ''manifest'', ''put'', ''get'', ''delete''}"
    then have "pipe_named (rq_Op q)" using ops by blast
    with q[of q] show "\<exists>q'. dec_req pipe_codec (enc_req pipe_codec q) = Some q' \<and> rq_Op q' = rq_Op q \<and>
       rq_BaseRevision q' = rq_BaseRevision q \<and> (pipe_named (rq_Path q) \<longrightarrow> rq_Path q' = rq_Path q) \<and>
       (pipe_named (fe_Path (rq_Entry q)) \<longrightarrow> fe_Path (rq_Entry q') = fe_Path (rq_Entry q)) \<and>
       (pipe_named (fe_SHA256 (rq_Entry q)) \<longrightarrow> fe_SHA256 (rq_Entry q') = fe_SHA256 (rq_Entry q))" by simp
  next
    fix v :: ws_resp assume "rp_Op v \<in> {''auth_ok'', ''manifest'', ''ack'', ''reject'', ''file''}"
    then have "pipe_named (rp_Op v)" using ops by blast
    then have o: "pipe_san (rp_Op v) = rp_Op v" by simp
    from v[of v] obtain v' where "dec_resp pipe_codec (enc_resp pipe_codec v) = Some v'" "rp_Op v' = rp_Op v"
      "rp_Revision v' = rp_Revision v" "rp_Reason v' = pipe_san (rp_Reason v)"
      "rp_Entry v' = map_option (\<lambda>e. e\<lparr>fe_Path := pipe_san (fe_Path e), fe_SHA256 := pipe_san (fe_SHA256 e)\<rparr>) (rp_Entry v)"
      unfolding o by blast
    then show "\<exists>v'. dec_resp pipe_codec (enc_resp pipe_codec v) = Some v' \<and> rp_Op v' = rp_Op v \<and>
       rp_Revision v' = rp_Revision v \<and> (rp_Reason v \<noteq> '''' \<longrightarrow> rp_Reason v' \<noteq> '''') \<and>
       (case rp_Entry v of None \<Rightarrow> rp_Entry v' = None
        | Some e \<Rightarrow> \<exists>e'. rp_Entry v' = Some e' \<and> fe_Revision e' = fe_Revision e \<and> (fe_SHA256 e = '''' \<longrightarrow> fe_SHA256 e' = ''''))"
      by (intro exI[of _ v']) (auto split: option.split)
  next
    fix b v e assume "dec_resp pipe_codec b = Some v" "e \<in> set (rp_Entries v)"
    then show "pipe_named (fe_Path e)" by (rule n)
  qed
qed

section \<open>Properties\<close>

text \<open>C2. What a client records is true: a client that connects with a valid token and whose recorded
  baseline is honest gets an honest baseline from the round, whatever the store refuses and
  wherever the network breaks: each recorded path is in the server's index, at the recorded
  revision or a later one, and where it is at that revision, a recorded digest is the digest of the
  server's live file. Hence a file the client takes for unchanged is never taken for the server's
  when it is not. (Temporary names are fresh when drawn, no upload broke off on a read error of the
  local file, fewer than 2^63 answers are sent.)\<close>

theorem synced_baseline_is_honest:
  assumes "DialSync hm cdec key P modeOf factory now upgraded left token w = Inr (cs_t s)"
    and "Verify hm cdec key token AudSync now = Inr cl" and "pid = cl_ProjectID cl"
    and "sv_store P = pg_store" and "json_ok named (sv_codec P)"
    and "factory pid '''' (modeOf pid) w = (sess, db, fs)"
    and "ss_ProjectID sess = pid" and "ss_Root sess = abs_str rc" and "sane_max (ss_MaxBytes sess)"
    and "pg_inv db" and "ws_ok rc fs" and "index_ok (int N) (pg_idx db pid)"
    and "SyncOnce sha dec wsTransport root dev clock rng s = (Inr es, s')" and "range_order rng"
    and "link_fine N rc (cs_t s')"
    and "\<And>fs. ScanDir sha (cs_fs s) root = (None, fs) \<Longrightarrow> \<forall>f \<in> set fs. named (fe_Path f) \<and> named (fe_SHA256 f)"
    and "\<And>es. li_Load dec root (cs_fs s) = Inr es \<Longrightarrow>
       \<forall>e \<in> set es. link_honest pid (cs_t s) (le_Path e) (le_BaseRevision e) (le_BaseSHA256 e)"
    and "b \<in> set es"
  shows "le_State b = StateClean \<and> (\<exists>rel e. SafeRelPath (le_Path b) = Inr rel \<and>
    pg_idx (fst (cn_world (lk_conn (cs_t s')))) pid rel = Some e \<and>
    sint (le_BaseRevision b) \<le> sint (fe_Revision e) \<and>
    (fe_Revision e = le_BaseRevision b \<longrightarrow> le_BaseSHA256 b \<noteq> '''' \<longrightarrow>
       fe_SHA256 e = le_BaseSHA256 b \<and> \<not> fe_Deleted e))"
proof -
  note D = DialSync_link[OF assms(1,2) assms(6)[unfolded assms(3)]]
  have "pgs.server_ok (int (N + 1)) pid rc (db, fs)"
    by (rule server_ok_mono[of "int N"]) (use assms(10-12) in \<open>simp_all add: pgs.server_ok_def\<close>)
  with D assms(4,5,7-9) have "link_ok named N pid rc (cs_t s)" by (simp add: link_ok_def conn_ok_def)
  with wl.SyncOnce_ok[of sha dec root dev clock rng s "Inr es" s' named pid rc N, OF assms(13,14,16,17)] assms(15,18)
  show ?thesis by (auto simp: link_honest_def)
qed

definition demo_pipe_server :: "pg sync_server" where
  "demo_pipe_server = \<lparr>sv_sha = demo_sha, sv_store = pg_store, sv_codec = pipe_codec, sv_maxMessage = 64,
     sv_rnd = (\<lambda>_. Some ''*'')\<rparr>"

definition demo_factory :: "string \<Rightarrow> string \<Rightarrow> string \<Rightarrow> pg \<times> node \<Rightarrow> sync_session \<times> pg \<times> node" where
  "demo_factory pid device mode w = (demo_session, w)"

text \<open>A round with one upload and one download.\<close>

definition demo_dial :: "transport_error + pg link" where
  "demo_dial = DialSync demo_hmac demo_dec ''key'' demo_pipe_server modeFor demo_factory 100 True None demo_tok
     (demo_db1, demo_fs1)"

definition demo_syncer :: "pg link client_state" where
  "demo_syncer = \<lparr>cs_t = (case demo_dial of Inr lk \<Rightarrow> lk | Inl _ \<Rightarrow> undefined),
     cs_fs = Dir [(''home'', Dir [(''b'', File ''new'')])], cs_notes = []\<rparr>"

definition demo_local :: "local_entry list" where
  "demo_local = [\<lparr>le_Path = ''b'', le_Size = 3, le_BaseRevision = 0, le_BaseSHA256 = '''', le_CurrentSHA256 = ''hnew'',
     le_State = StateModified\<rparr>]"

definition demo_plan :: plan where
  "demo_plan = \<lparr>Upload = demo_local, Download = [\<lparr>fe_Path = ''a'', fe_Size = 2, fe_SHA256 = ''hxy'', fe_Revision = 1,
     fe_Deleted = False\<rparr>], Conflicts = [], DeleteToRemote = [], DeleteToLocal = []\<rparr>"

definition demo_listed :: "pg link" where
  "demo_listed = snd (ws_Manifest (snd (ws_Hello ''d'' (cs_t demo_syncer))))"

lemma demo_round:
  "SyncOnce demo_sha (\<lambda>_. Some []) wsTransport ''/home'' ''d'' demo_clock (\<lambda>ks. ks) demo_syncer =
     (case execute wsTransport ''/home'' demo_clock (\<lambda>ks. ks) demo_plan ''rw'' demo_local (demo_syncer\<lparr>cs_t := demo_listed\<rparr>)
      of (es, s) \<Rightarrow> (Inr es, s))"
proof -
  let ?r = "\<lparr>fe_Path = ''a'', fe_Size = 2, fe_SHA256 = ''hxy'', fe_Revision = 1, fe_Deleted = False\<rparr>"
  let ?f = "\<lparr>fe_Path = ''b'', fe_Size = 3, fe_SHA256 = ''hnew'', fe_Revision = 0, fe_Deleted = False\<rparr>"
  have "fst (ws_Hello ''d'' (cs_t demo_syncer)) = Inr ''rw''" by code_simp
  then obtain t1 where h: "ws_Hello ''d'' (cs_t demo_syncer) = (Inr ''rw'', t1)" by (metis prod.collapse)
  have "fst (ws_Manifest (snd (ws_Hello ''d'' (cs_t demo_syncer)))) = Inr [?r]" by code_simp
  then have m: "ws_Manifest t1 = (Inr [?r], demo_listed)"
    unfolding demo_listed_def h by (metis prod.collapse snd_conv)
  have s: "ScanDir demo_sha (cs_fs demo_syncer) ''/home'' = (None, [?f])"
    unfolding demo_syncer_def client_state.simps by code_simp
  have l: "li_Load (\<lambda>_. Some []) ''/home'' (cs_fs demo_syncer) = Inr []"
    unfolding demo_syncer_def client_state.simps by code_simp
  have d: "BuildLocal [?f] [] = demo_local" "Diff (\<lambda>ks. ks) demo_local [?r] = demo_plan" by code_simp+
  have t: "tr_Hello wsTransport = ws_Hello" "tr_Manifest wsTransport = ws_Manifest" by (simp_all add: wsTransport_def)
  show ?thesis by (simp add: SyncOnce_def t h m s l d)
qed

theorem synced_baseline_is_honest_witness:
  "\<exists>es s'. SyncOnce demo_sha (\<lambda>_. Some []) wsTransport ''/home'' ''d'' demo_clock (\<lambda>ks. ks) demo_syncer = (Inr es, s') \<and>
     map (\<lambda>b. (le_Path b, le_BaseRevision b, le_BaseSHA256 b)) es = [(''b'', 1, ''hnew''), (''a'', 1, '''')] \<and>
     (\<exists>e. pg_idx (fst (cn_world (lk_conn (cs_t s')))) ''p1'' ''b'' = Some e \<and>
        (fe_Revision e = 1 \<longrightarrow> fe_SHA256 e = ''hnew''))"
proof -
  have v: "Verify demo_hmac demo_dec ''key'' demo_tok AudSync 100 = Inr demo_claims" by code_simp
  have "case demo_dial of Inr lk \<Rightarrow> True | Inl _ \<Rightarrow> False" by code_simp
  then have d: "DialSync demo_hmac demo_dec ''key'' demo_pipe_server modeFor demo_factory 100 True None demo_tok
      (demo_db1, demo_fs1) = Inr (cs_t demo_syncer)"
    by (auto simp: demo_syncer_def demo_dial_def split: sum.splits)
  obtain es s' where x: "execute wsTransport ''/home'' demo_clock (\<lambda>ks. ks) demo_plan ''rw'' demo_local
      (demo_syncer\<lparr>cs_t := demo_listed\<rparr>) = (es, s')" by fastforce
  have "case execute wsTransport ''/home'' demo_clock (\<lambda>ks. ks) demo_plan ''rw'' demo_local
      (demo_syncer\<lparr>cs_t := demo_listed\<rparr>) of (es, s') \<Rightarrow>
        map (\<lambda>b. (le_Path b, le_BaseRevision b, le_BaseSHA256 b)) es = [(''b'', 1, ''hnew''), (''a'', 1, '''')] \<and>
        cn_drawn (lk_conn (cs_t s')) = [(Some ''*'', demo_fs1)] \<and> length (cn_out (lk_conn (cs_t s'))) = 5 \<and>
        \<not> lk_aborted (cs_t s')" by code_simp
  with x demo_round have s: "SyncOnce demo_sha (\<lambda>_. Some []) wsTransport ''/home'' ''d'' demo_clock (\<lambda>ks. ks) demo_syncer = (Inr es, s')"
    "map (\<lambda>b. (le_Path b, le_BaseRevision b, le_BaseSHA256 b)) es = [(''b'', 1, ''hnew''), (''a'', 1, '''')]"
    "cn_drawn (lk_conn (cs_t s')) = [(Some ''*'', demo_fs1)]" "length (cn_out (lk_conn (cs_t s'))) = 5"
    "\<not> lk_aborted (cs_t s')" by simp_all
  have c: "sv_store demo_pipe_server = pg_store" "json_ok pipe_named (sv_codec demo_pipe_server)"
    using pipe_codec_ok by (simp_all add: demo_pipe_server_def)
  have f: "demo_factory ''p1'' '''' (modeFor ''p1'') (demo_db1, demo_fs1) = (demo_session, demo_db1, demo_fs1)"
    "ss_ProjectID demo_session = ''p1''" "''p1'' = cl_ProjectID demo_claims"
    by (simp_all add: demo_factory_def demo_session_def demo_claims_def)
  have "leaf demo_fs1 ([''ws''] @ r) = (if r = [''a''] then Some (File ''xy'') else None)" for r
    by (cases r; cases "tl r") (auto simp: leaf_def demo_fs1_def)
  then have w: "ws_ok [''ws''] demo_fs1" using demo_facts(7,8) by (simp add: ws_ok_def small_files_def)
  have i: "index_ok (int 1) (pg_idx demo_db1 ''p1'')"
    by (auto simp: index_ok_def entry_ok_def pg_idx_def demo_db1_def index_by_def row_key_def split: if_splits)
  have "fresh_tmp (Some ''*'') [''ws''] demo_fs1" by code_simp
  then have l: "link_fine 1 [''ws''] (cs_t s')" using s(3-5) by (simp add: link_fine_def names_fresh_def)
  have n: "\<forall>f \<in> set fs. pipe_named (fe_Path f) \<and> pipe_named (fe_SHA256 f)"
    if "ScanDir demo_sha (cs_fs demo_syncer) ''/home'' = (None, fs)" for fs
  proof -
    have "ScanDir demo_sha (cs_fs demo_syncer) ''/home'' = (None, [\<lparr>fe_Path = ''b'', fe_Size = 3, fe_SHA256 = ''hnew'',
        fe_Revision = 0, fe_Deleted = False\<rparr>])" unfolding demo_syncer_def client_state.simps by code_simp
    with that show ?thesis by (auto simp: pipe_named_def)
  qed
  have b: "\<forall>e \<in> set es. link_honest ''p1'' (cs_t demo_syncer) (le_Path e) (le_BaseRevision e) (le_BaseSHA256 e)"
    if "li_Load (\<lambda>_. Some []) ''/home'' (cs_fs demo_syncer) = Inr es" for es
    using that by (auto simp: li_Load_def split: sum.splits if_splits)
  from s(2) obtain y where y: "y \<in> set es" "le_Path y = ''b''" "le_BaseRevision y = 1" "le_BaseSHA256 y = ''hnew''"
    by (cases es) auto
  have r: "SafeRelPath ''b'' = Inr ''b''" by code_simp
  from synced_baseline_is_honest[OF d v f(3) c f(1,2) demo_root demo_facts(4,6) w i s(1) range_order_id l n b y(1)]
    y r s(1,2)
  show ?thesis by auto
qed

text \<open>An upload that breaks off leaves the connection out of step: when the local file cannot be read
  to its end, \<open>Put\<close> closes the message all the same and does not read the server's answer; the next
  call takes that answer for its own. Here the manifest of a server with one file is read as the
  empty manifest of a rejection.\<close>

theorem broken_upload_shifts_answers:
  "fst (ws_Manifest (cs_t demo_syncer)) =
     Inr [\<lparr>fe_Path = ''a'', fe_Size = 2, fe_SHA256 = ''hxy'', fe_Revision = 1, fe_Deleted = False\<rparr>] \<and>
   fst (ws_Put (hd demo_local) \<lparr>rd_data = ''ne'', rd_fails = True\<rparr> (cs_t demo_syncer)) = Inl TransportError \<and>
   fst (ws_Manifest (snd (ws_Put (hd demo_local) \<lparr>rd_data = ''ne'', rd_fails = True\<rparr> (cs_t demo_syncer)))) = Inr []"
  by (intro conjI) code_simp+

end
