(* ===== verification/Quota.thy ===== *)
theory Quota
  imports Pg_Store
begin

text \<open>
  \<^verbatim>\<open>internal/quota/service.go\<close>: the decision whether a project has used up its windows or its
  account's pool. The usage reader is an interface; the locale \<open>usage_source\<close> states what the service
  relies on (a read that succeeds is the exact sum and changes no usage), and the PostgreSQL store is
  interpreted as one. Times are nanoseconds; the arithmetic is that of \<open>int64\<close>.
\<close>

section \<open>Data\<close>

record 's usage_reader =
  ur_WindowUsed :: "string \<Rightarrow> int \<Rightarrow> 's \<Rightarrow> (db_error + int64) \<times> 's"
  ur_PoolUsed :: "string \<Rightarrow> int \<Rightarrow> 's \<Rightarrow> (db_error + int64) \<times> 's"

record limits =
  lm_FiveHour :: int64
  lm_SevenDay :: int64
  lm_PoolFiveHour :: int64
  lm_PoolSevenDay :: int64
  lm_Reserve :: int64
  lm_SafetyMargin :: int64

record decision =
  dn_Over :: bool
  dn_Reason :: string
  dn_FiveHourUsed :: int64
  dn_SevenDayUsed :: int64

definition hour :: int where
  "hour = 3600 * 1000000000"

definition undecided :: "int64 \<Rightarrow> int64 \<Rightarrow> decision" where
  "undecided five seven = \<lparr>dn_Over = False, dn_Reason = '''', dn_FiveHourUsed = five, dn_SevenDayUsed = seven\<rparr>"

definition over :: "string \<Rightarrow> decision \<Rightarrow> decision" where
  "over reason d = d\<lparr>dn_Over := True, dn_Reason := reason\<rparr>"

text \<open>\<open>Service.Check\<close>; like the code it returns a decision next to the error.\<close>

definition Check ::
    "'s usage_reader \<Rightarrow> string \<Rightarrow> string \<Rightarrow> limits \<Rightarrow> int \<Rightarrow> 's \<Rightarrow> (decision \<times> db_error option) \<times> 's" where
  "Check rd projectID accountID l now s =
     (case ur_WindowUsed rd projectID (now - 5 * hour) s of
        (Inl e, s) \<Rightarrow> ((undecided 0 0, Some e), s)
      | (Inr five, s) \<Rightarrow>
     (case ur_WindowUsed rd projectID (now - 7 * 24 * hour) s of
        (Inl e, s) \<Rightarrow> ((undecided five 0, Some e), s)
      | (Inr seven, s) \<Rightarrow>
     let d = undecided five seven in
     if sint (lm_FiveHour l) \<le> sint five then ((over ''five_hour_limit'' d, None), s)
     else if sint (lm_SevenDay l) \<le> sint seven then ((over ''seven_day_limit'' d, None), s)
     else
     (case ur_PoolUsed rd accountID (now - 5 * hour) s of
        (Inl e, s) \<Rightarrow> ((d, Some e), s)
      | (Inr pool5h, s) \<Rightarrow>
     (case ur_PoolUsed rd accountID (now - 7 * 24 * hour) s of
        (Inl e, s) \<Rightarrow> ((d, Some e), s)
      | (Inr pool7d, s) \<Rightarrow>
     if sint (lm_PoolFiveHour l - pool5h) \<le> sint (lm_Reserve l + lm_SafetyMargin l) \<or>
        sint (lm_PoolSevenDay l - pool7d) \<le> sint (lm_Reserve l + lm_SafetyMargin l)
     then ((over ''pool_exhausted'' d, None), s)
     else ((d, None), s)))))"

section \<open>The interface\<close>

text \<open>The limits for which the pool arithmetic does not wrap: limits up to 2^62 and a pool used up to
  2^62, as the services set them.\<close>

definition sane_limits :: "limits \<Rightarrow> bool" where
  "sane_limits l \<longleftrightarrow> 0 \<le> sint (lm_PoolFiveHour l) \<and> 0 \<le> sint (lm_PoolSevenDay l) \<and>
     0 \<le> sint (lm_Reserve l) \<and> 0 \<le> sint (lm_SafetyMargin l) \<and>
     sint (lm_Reserve l) + sint (lm_SafetyMargin l) < 2 ^ 63"

text \<open>What the decision should be, on the exact numbers.\<close>

definition over_quota :: "limits \<Rightarrow> int \<Rightarrow> int \<Rightarrow> int \<Rightarrow> int \<Rightarrow> bool" where
  "over_quota l five seven pool5 pool7 \<longleftrightarrow>
     sint (lm_FiveHour l) \<le> five \<or> sint (lm_SevenDay l) \<le> seven \<or>
     sint (lm_PoolFiveHour l) \<le> pool5 + sint (lm_Reserve l) + sint (lm_SafetyMargin l) \<or>
     sint (lm_PoolSevenDay l) \<le> pool7 + sint (lm_Reserve l) + sint (lm_SafetyMargin l)"

locale usage_source =
  fixes rd :: "'s usage_reader"
    and win :: "'s \<Rightarrow> string \<Rightarrow> int \<Rightarrow> int"
    and pool :: "'s \<Rightarrow> string \<Rightarrow> int \<Rightarrow> int"
    and up :: "'s \<Rightarrow> bool"
  assumes window: "ur_WindowUsed rd pid since s = (r, s') \<Longrightarrow>
          win s' = win s \<and> pool s' = pool s \<and> (\<forall>n. r = Inr n \<longrightarrow> sint n = win s pid since)"
    and window_up: "up s \<Longrightarrow> fits64 (win s pid since) \<Longrightarrow> ur_WindowUsed rd pid since s = (r, s') \<Longrightarrow>
          (\<exists>n. r = Inr n) \<and> up s'"
    and pool: "ur_PoolUsed rd acc since s = (r, s') \<Longrightarrow>
          win s' = win s \<and> pool s' = pool s \<and> (\<forall>n. r = Inr n \<longrightarrow> sint n = pool s acc since)"
    and pool_up: "up s \<Longrightarrow> fits64 (pool s acc since) \<Longrightarrow> ur_PoolUsed rd acc since s = (r, s') \<Longrightarrow>
          (\<exists>n. r = Inr n) \<and> up s'"
begin

lemma pool_short:
  assumes "sane_limits l" "sint n = u" "0 \<le> u"
  shows "sint (lm_PoolFiveHour l - n) \<le> sint (lm_Reserve l + lm_SafetyMargin l) \<longleftrightarrow>
      sint (lm_PoolFiveHour l) \<le> u + sint (lm_Reserve l) + sint (lm_SafetyMargin l)"
    "sint (lm_PoolSevenDay l - n) \<le> sint (lm_Reserve l + lm_SafetyMargin l) \<longleftrightarrow>
      sint (lm_PoolSevenDay l) \<le> u + sint (lm_Reserve l) + sint (lm_SafetyMargin l)"
proof -
  have b: "sint x < 2 ^ 63" for x :: int64 using sint_lt[of x] by simp
  have s: "sint (lm_Reserve l + lm_SafetyMargin l) = sint (lm_Reserve l) + sint (lm_SafetyMargin l)"
    using assms(1) by (intro sint_add64) (simp add: sane_limits_def fits64_def)
  have d: "sint (lm_PoolFiveHour l - n) = sint (lm_PoolFiveHour l) - u"
      "sint (lm_PoolSevenDay l - n) = sint (lm_PoolSevenDay l) - u"
    using assms b[of n] b[of "lm_PoolFiveHour l"] b[of "lm_PoolSevenDay l"]
    by (simp_all add: sint_sub64 sane_limits_def fits64_def)
  show "sint (lm_PoolFiveHour l - n) \<le> sint (lm_Reserve l + lm_SafetyMargin l) \<longleftrightarrow>
      sint (lm_PoolFiveHour l) \<le> u + sint (lm_Reserve l) + sint (lm_SafetyMargin l)"
    "sint (lm_PoolSevenDay l - n) \<le> sint (lm_Reserve l + lm_SafetyMargin l) \<longleftrightarrow>
      sint (lm_PoolSevenDay l) \<le> u + sint (lm_Reserve l) + sint (lm_SafetyMargin l)"
    unfolding s d by linarith+
qed

text \<open>A decision without an error is the exact one, and a check changes no usage.\<close>

lemma Check_effect:
  assumes "Check rd pid acc l now s = ((d, e), s')" "sane_limits l"
    and pos: "0 \<le> pool s acc (now - 5 * hour)" "0 \<le> pool s acc (now - 7 * 24 * hour)"
  shows "win s' = win s \<and> pool s' = pool s \<and> (e = None \<longrightarrow>
      sint (dn_FiveHourUsed d) = win s pid (now - 5 * hour) \<and>
      sint (dn_SevenDayUsed d) = win s pid (now - 7 * 24 * hour) \<and>
      dn_Over d = over_quota l (win s pid (now - 5 * hour)) (win s pid (now - 7 * 24 * hour))
        (pool s acc (now - 5 * hour)) (pool s acc (now - 7 * 24 * hour)) \<and>
      (dn_Over d \<longleftrightarrow> dn_Reason d \<noteq> '''')) \<and> (e \<noteq> None \<longrightarrow> \<not> dn_Over d)"
proof -
  obtain r1 s1 where w1: "ur_WindowUsed rd pid (now - 5 * hour) s = (r1, s1)" by fastforce
  obtain r2 s2 where w2: "ur_WindowUsed rd pid (now - 7 * 24 * hour) s1 = (r2, s2)" by fastforce
  obtain r3 s3 where w3: "ur_PoolUsed rd acc (now - 5 * hour) s2 = (r3, s3)" by fastforce
  obtain r4 s4 where w4: "ur_PoolUsed rd acc (now - 7 * 24 * hour) s3 = (r4, s4)" by fastforce
  note laws = window[OF w1] window[OF w2] pool[OF w3] pool[OF w4]
  then have eqs: "win s1 = win s" "pool s1 = pool s" "win s2 = win s" "pool s2 = pool s"
    "win s3 = win s" "pool s3 = pool s" "win s4 = win s" "pool s4 = pool s" by simp_all
  show ?thesis
  proof (cases r1)
    case (Inl x)
    with assms(1) w1 eqs show ?thesis by (auto simp: Check_def undecided_def)
  next
    case five: (Inr five)
    show ?thesis
    proof (cases r2)
      case (Inl x)
      with five assms(1) w1 w2 eqs show ?thesis by (auto simp: Check_def undecided_def)
    next
      case seven: (Inr seven)
      have u: "sint five = win s pid (now - 5 * hour)" "sint seven = win s pid (now - 7 * 24 * hour)"
        using laws five seven eqs by simp_all
      show ?thesis
      proof (cases "sint (lm_FiveHour l) \<le> sint five \<or> sint (lm_SevenDay l) \<le> sint seven")
        case True
        with five seven assms(1) w1 w2 eqs u show ?thesis
          by (auto simp: Check_def Let_def undecided_def over_def over_quota_def split: if_splits)
      next
        case no: False
        show ?thesis
        proof (cases "r3")
          case (Inl x)
          with no five seven assms(1) w1 w2 w3 eqs show ?thesis by (auto simp: Check_def undecided_def Let_def)
        next
          case p5: (Inr p5)
          show ?thesis
          proof (cases r4)
            case (Inl x)
            with p5 no five seven assms(1) w1 w2 w3 w4 eqs show ?thesis by (auto simp: Check_def undecided_def Let_def)
          next
            case p7: (Inr p7)
            have q: "sint p5 = pool s acc (now - 5 * hour)" "sint p7 = pool s acc (now - 7 * 24 * hour)"
              using laws p5 p7 eqs by simp_all
            have res: "s' = s4" "e = None"
              "d = (if over_quota l (sint five) (sint seven) (sint p5) (sint p7)
                    then over ''pool_exhausted'' (undecided five seven) else undecided five seven)"
              using assms(1) no five seven p5 p7 w1 w2 w3 w4 pool_short[OF assms(2) q(1) pos(1)]
                pool_short[OF assms(2) q(2) pos(2)]
              by (auto simp: Check_def Let_def over_quota_def q split: if_splits)
            show ?thesis
              using u q unfolding res by (simp add: eqs over_def undecided_def)
          qed
        qed
      qed
    qed
  qed
qed

end

section \<open>The database as a usage reader\<close>

definition pg_usage_reader :: "pg usage_reader" where
  "pg_usage_reader = \<lparr>ur_WindowUsed = pg_WindowUsed, ur_PoolUsed = pg_PoolUsed\<rparr>"

definition pg_win :: "pg \<Rightarrow> string \<Rightarrow> int \<Rightarrow> int" where
  "pg_win s pid since = sum_list (map (\<lambda>u. sint (ue_weighted_units u))
     (filter (\<lambda>u. ue_project_id u = pid \<and> since < ue_occurred_at u) (pg_usage s)))"

definition pg_pool :: "pg \<Rightarrow> string \<Rightarrow> int \<Rightarrow> int" where
  "pg_pool s account since =
     sum_list (map (\<lambda>p. pg_win s (p_ID p) since) (filter (\<lambda>p. p_AccountID p = account) (pg_projects s)))"

lemma pg_usage_next [simp]:
  "pg_win (snd (next_fault s)) = pg_win s" "pg_pool (snd (next_fault s)) = pg_pool s"
  by (simp_all add: fun_eq_iff pg_win_def pg_pool_def)

lemma pg_pool_product:
  "sum_list (map (\<lambda>(u, p). sint (ue_weighted_units u))
        (filter (\<lambda>(u, p). p_ID p = ue_project_id u \<and> p_AccountID p = acc \<and> since < ue_occurred_at u)
           (List.product (pg_usage s) (pg_projects s)))) = pg_pool s acc since"
  unfolding pg_pool_def pg_win_def by (rule pool_is_sum_of_windows)

lemma pg_sum_query:
  assumes "pg_query (\<lambda>s. sum_column (f s)) s = (r, s')" "\<And>s. sum_list (f s) = g s" "g (snd (next_fault s)) = g s"
  shows "s' = snd (next_fault s)" "r = Inr n \<Longrightarrow> sint n = g s"
    "pg_faults s = [] \<Longrightarrow> fits64 (g s) \<Longrightarrow> \<exists>n. r = Inr n"
proof -
  show st: "s' = snd (next_fault s)" using pg_query_state[OF assms(1)] .
  show "sint n = g s" if "r = Inr n"
  proof -
    have "sum_column (f s') = Inr n"
      using assms(1) that st by (auto simp: pg_query_def split: prod.splits fault.splits)
    from sum_column_Inr[OF this] show ?thesis using assms(2)[of s'] assms(3) st by simp
  qed
  show "\<exists>n. r = Inr n" if "pg_faults s = []" "fits64 (g s)"
    using assms(1) that assms(2)[of s] by (auto simp: pg_query_healthy sum_column_def Let_def)
qed

interpretation pgq: usage_source pg_usage_reader pg_win pg_pool "\<lambda>s. pg_faults s = []"
proof unfold_locales
  fix pid since s r s'
  assume "ur_WindowUsed pg_usage_reader pid since s = (r, s')"
  then have "pg_WindowUsed pid since s = (r, s')" by (simp add: pg_usage_reader_def)
  note q = pg_sum_query[OF this[unfolded pg_WindowUsed_def], of "\<lambda>s. pg_win s pid since", OF pg_win_def[symmetric]]
  show "pg_win s' = pg_win s \<and> pg_pool s' = pg_pool s \<and> (\<forall>n. r = Inr n \<longrightarrow> sint n = pg_win s pid since)"
    using q(1,2) by simp
  show "(\<exists>n. r = Inr n) \<and> pg_faults s' = []" if "pg_faults s = []" "fits64 (pg_win s pid since)"
    using q(1,3) that by (simp add: no_faults)
next
  fix acc since s r s'
  assume "ur_PoolUsed pg_usage_reader acc since s = (r, s')"
  then have "pg_PoolUsed acc since s = (r, s')" by (simp add: pg_usage_reader_def)
  note q = pg_sum_query[OF this[unfolded pg_PoolUsed_def], of "\<lambda>s. pg_pool s acc since", OF pg_pool_product]
  show "pg_win s' = pg_win s \<and> pg_pool s' = pg_pool s \<and> (\<forall>n. r = Inr n \<longrightarrow> sint n = pg_pool s acc since)"
    using q(1,2) by simp
  show "(\<exists>n. r = Inr n) \<and> pg_faults s' = []" if "pg_faults s = []" "fits64 (pg_pool s acc since)"
    using q(1,3) that by (simp add: no_faults)
qed

section \<open>Properties\<close>

text \<open>C20. The quota decision is exact: with recorded units that are not negative and limits that do not
  overflow, a check that reports no error reports the project's two windows and says "over"
  if and only if a window has reached its limit or what is left of the account's pool, in either
  window, is no more than the reserve and the margin; a check that reports an error never says
  "over", and no check changes the recorded usage.\<close>

theorem quota_decision_exact:
  assumes "Check pg_usage_reader pid acc l now s = ((d, e), s')" and "sane_limits l"
    and "\<forall>u \<in> set (pg_usage s). 0 \<le> sint (ue_weighted_units u)"
  shows "pg_win s' = pg_win s \<and> (e = None \<longrightarrow>
      sint (dn_FiveHourUsed d) = pg_win s pid (now - 5 * hour) \<and>
      sint (dn_SevenDayUsed d) = pg_win s pid (now - 7 * 24 * hour) \<and>
      (dn_Over d \<longleftrightarrow> over_quota l (pg_win s pid (now - 5 * hour)) (pg_win s pid (now - 7 * 24 * hour))
        (pg_pool s acc (now - 5 * hour)) (pg_pool s acc (now - 7 * 24 * hour)))) \<and>
      (e \<noteq> None \<longrightarrow> \<not> dn_Over d)"
proof -
  have "0 \<le> pg_win s p since" for p since
    using assms(3) by (auto simp: pg_win_def intro!: sum_list_nonneg)
  then have "0 \<le> pg_pool s acc since" for since
    by (auto simp: pg_pool_def intro!: sum_list_nonneg)
  with pgq.Check_effect[OF assms(1,2)] show ?thesis by blast
qed

theorem quota_decision_exact_witness:
  "\<exists>d. Check pg_usage_reader ''p1'' ''a1''
      \<lparr>lm_FiveHour = 10, lm_SevenDay = 20, lm_PoolFiveHour = 100, lm_PoolSevenDay = 100, lm_Reserve = 0, lm_SafetyMargin = 0\<rparr>
      (200 * hour)
      \<lparr>pg_accounts = [], pg_projects = [], pg_cdks = [], pg_usage =
         [\<lparr>ue_project_id = ''p1'', ue_occurred_at = 199 * hour, ue_weighted_units = 4, ue_source_event_id = ''r1''\<rparr>,
          \<lparr>ue_project_id = ''p1'', ue_occurred_at = 100 * hour, ue_weighted_units = 17, ue_source_event_id = ''r2''\<rparr>],
       pg_files = [], pg_faults = []\<rparr> =
    ((d, None), \<lparr>pg_accounts = [], pg_projects = [], pg_cdks = [], pg_usage =
         [\<lparr>ue_project_id = ''p1'', ue_occurred_at = 199 * hour, ue_weighted_units = 4, ue_source_event_id = ''r1''\<rparr>,
          \<lparr>ue_project_id = ''p1'', ue_occurred_at = 100 * hour, ue_weighted_units = 17, ue_source_event_id = ''r2''\<rparr>],
       pg_files = [], pg_faults = []\<rparr>) \<and> dn_Over d \<and> sint (dn_SevenDayUsed d) = 21"
proof -
  define us :: "usage_row list" where "us =
    [\<lparr>ue_project_id = ''p1'', ue_occurred_at = 199 * hour, ue_weighted_units = 4, ue_source_event_id = ''r1''\<rparr>,
     \<lparr>ue_project_id = ''p1'', ue_occurred_at = 100 * hour, ue_weighted_units = 17, ue_source_event_id = ''r2''\<rparr>]"
  define s :: pg where "s = \<lparr>pg_accounts = [], pg_projects = [], pg_cdks = [], pg_usage = us, pg_files = [], pg_faults = []\<rparr>"
  define l :: limits where "l = \<lparr>lm_FiveHour = 10, lm_SevenDay = 20, lm_PoolFiveHour = 100,
     lm_PoolSevenDay = 100, lm_Reserve = 0, lm_SafetyMargin = 0\<rparr>"
  have w: "pg_win s ''p1'' (200 * hour - 7 * 24 * hour) = 21" "pg_win s ''p1'' (200 * hour - 5 * hour) = 4"
    by (simp_all add: pg_win_def s_def us_def hour_def)
  obtain d e where c: "Check pg_usage_reader ''p1'' ''a1'' l (200 * hour) s = ((d, e), s)" "e = None"
    by (simp add: Check_def pg_usage_reader_def pg_WindowUsed_def pg_query_healthy s_def sum_column_def
        Let_def us_def hour_def fits64_def l_def)
  have "sane_limits l" by (simp add: l_def sane_limits_def)
  moreover have "\<forall>u \<in> set (pg_usage s). 0 \<le> sint (ue_weighted_units u)" by (simp add: s_def us_def)
  ultimately have "dn_Over d \<and> sint (dn_SevenDayUsed d) = 21"
    using quota_decision_exact[OF c(1)] c(2) w by (simp add: over_quota_def l_def)
  with c show ?thesis unfolding s_def us_def l_def by blast
qed

end
