(* ===== verification/Control_Api.thy ===== *)
theory Control_Api
  imports Sync_Wire Quota
begin

text \<open>
  \<^verbatim>\<open>internal/control/http.go\<close>: the HTTP interface of the control API. A request to exchange a key is
  first counted against its client's rate limit, then resolved to a project and answered with a
  session token; a request for a connection checks the session token, the quota and the disk and
  answers with the tokens for the worker. The database, the token library and the JSON form of a
  body are fields of the server; a time is a number of nanoseconds, and every reading of the clock
  is an argument. A write to the response is taken to succeed.
\<close>

section \<open>Requests and answers\<close>

record http_request =
  hq_Method :: string
  hq_Path :: string
  hq_RemoteAddr :: string
  hq_Authorization :: string
  hq_Body :: bytes

record connection_response =
  cr_ProjectID :: string
  cr_ProjectSlug :: string
  cr_TerminalURL :: string
  cr_SyncURL :: string
  cr_TerminalToken :: string
  cr_SyncToken :: string
  cr_SyncMode :: string
  cr_DiskUsed :: int64
  cr_DiskLimit :: int64
  cr_FiveHourUsed :: int64
  cr_FiveHourLimit :: int64
  cr_SevenDayUsed :: int64
  cr_SevenDayLimit :: int64
  cr_Over :: bool
  cr_OverReason :: string

record session_body =
  sb_SessionToken :: string
  sb_ProjectID :: string
  sb_ProjectSlug :: string

text \<open>What a handler writes. \<open>Aborted\<close>: the handler panics and \<open>net/http\<close> drops the connection.\<close>

datatype answer =
    HttpErr nat string
  | SessionAnswer session_body
  | ConnAnswer connection_response
  | UsagePage project decision int64
  | NotFound
  | MethodNotAllowed
  | Aborted

section \<open>The server\<close>

definition second :: int where "second = 1000000000"
definition minute :: int where "minute = 60 * second"

definition connTokenTTL :: int where "connTokenTTL = 2 * minute"

text \<open>The first four fields are the library functions the handlers use: HMAC, the JSON form of the
  claims and of the request's body.\<close>

record 's control =
  ca_hmac :: hmac
  ca_enc :: "claims \<Rightarrow> bytes option"
  ca_dec :: "bytes \<Rightarrow> claims option"
  ca_body :: "bytes \<Rightarrow> string option"
  ca_ResolveCDK :: "int \<Rightarrow> string \<Rightarrow> 's \<Rightarrow> (project_error + project) go_run \<times> 's"
  ca_GetProject :: "string \<Rightarrow> 's \<Rightarrow> (db_error + project) \<times> 's"
  ca_Key :: bytes
  ca_Quota :: "'s usage_reader"
  ca_DiskUsed :: "string \<Rightarrow> 's \<Rightarrow> (db_error + int64) \<times> 's"
  ca_LimitsFor :: "project \<Rightarrow> limits"
  ca_AgentBase :: string
  ca_MaxAuthAttempts :: int

type_synonym attempts = "string \<rightharpoonup> int list"

section \<open>The rate limit\<close>

definition attempts_of :: "attempts \<Rightarrow> string \<Rightarrow> int list" where
  "attempts_of m key = (case m key of None \<Rightarrow> [] | Some ts \<Rightarrow> ts)"

definition auth_max :: "'s control \<Rightarrow> int" where
  "auth_max S = (if ca_MaxAuthAttempts S \<le> 0 then 20 else ca_MaxAuthAttempts S)"

text \<open>\<open>t1\<close> and \<open>t2\<close> are the two readings of the clock, for the cutoff and for the stamp.\<close>

definition allowAuth :: "'s control \<Rightarrow> string \<Rightarrow> int \<Rightarrow> int \<Rightarrow> attempts \<Rightarrow> bool \<times> attempts" where
  "allowAuth S key t1 t2 m =
     (let cutoff = t1 - minute; kept = filter (\<lambda>t. cutoff < t) (attempts_of m key) in
      if auth_max S \<le> int (length kept) then (False, m(key \<mapsto> kept))
      else (True, m(key \<mapsto> kept @ [t2])))"

text \<open>\<open>net.SplitHostPort\<close> of the standard library, without its error texts.\<close>

definition SplitHostPort :: "string \<Rightarrow> (string \<times> string) option" where
  "SplitHostPort hp =
     (if CHR '':'' \<notin> set hp then None
      else let port = rev (takeWhile (\<lambda>c. c \<noteq> CHR '':'') (rev hp)); i = length hp - length port - 1 in
        if hd hp = CHR ''['' then
          (if CHR '']'' \<notin> set hp then None
           else let close = length (takeWhile (\<lambda>c. c \<noteq> CHR '']'') hp) in
             if close + 1 \<noteq> i then None
             else if CHR ''['' \<in> set (drop 1 hp) \<or> CHR '']'' \<in> set (drop (close + 1) hp) then None
             else Some (take (close - 1) (drop 1 hp), port))
        else if CHR '':'' \<in> set (take i hp) \<or> CHR ''['' \<in> set hp \<or> CHR '']'' \<in> set hp then None
        else Some (take i hp, port))"

definition clientIP :: "http_request \<Rightarrow> string" where
  "clientIP r = (case SplitHostPort (hq_RemoteAddr r) of None \<Rightarrow> hq_RemoteAddr r | Some (host, _) \<Rightarrow> host)"

section \<open>The handlers\<close>

text \<open>The readings of the clock of one exchange, in the order they are taken: two by the rate limit, the
  database's own for the expiry of the key, and the one the token is minted at.\<close>

record exchange_clock =
  xc_cutoff :: int
  xc_stamp :: int
  xc_query :: int
  xc_mint :: int

definition exchange ::
    "'s control \<Rightarrow> exchange_clock \<Rightarrow> http_request \<Rightarrow> 's \<times> attempts \<Rightarrow> answer \<times> 's \<times> attempts" where
  "exchange S clk r st =
     (case st of (s, m) \<Rightarrow>
      (case allowAuth S (clientIP r) (xc_cutoff clk) (xc_stamp clk) m of
         (False, m) \<Rightarrow> (HttpErr 429 ''rate_limited'', s, m)
       | (True, m) \<Rightarrow>
      (case ca_body S (hq_Body r) of
         None \<Rightarrow> (HttpErr 401 ''invalid_cdk'', s, m)
       | Some cdk \<Rightarrow>
      (case ca_ResolveCDK S (xc_query clk) cdk s of
         (Panics, s) \<Rightarrow> (Aborted, s, m)
       | (Returns (Inl _), s) \<Rightarrow> (HttpErr 401 ''invalid_cdk'', s, m)
       | (Returns (Inr p), s) \<Rightarrow>
      (case Mint (ca_hmac S) (ca_enc S) (ca_Key S) (p_ID p) AudSession (15 * minute) (xc_mint clk) of
         Inl _ \<Rightarrow> (HttpErr 500 ''internal'', s, m)
       | Inr tok \<Rightarrow> (SessionAnswer \<lparr>sb_SessionToken = tok, sb_ProjectID = p_ID p, sb_ProjectSlug = p_Slug p\<rparr>, s, m))))))"

definition authed :: "'s control \<Rightarrow> int \<Rightarrow> http_request \<Rightarrow> 's \<Rightarrow> project option \<times> 's" where
  "authed S now r s =
     (case Verify (ca_hmac S) (ca_dec S) (ca_Key S) (trim_prefix (hq_Authorization r) ''Bearer '') AudSession now of
        Inl _ \<Rightarrow> (None, s)
      | Inr c \<Rightarrow>
          (case ca_GetProject S (cl_ProjectID c) s of
             (Inl _, s) \<Rightarrow> (None, s)
           | (Inr p, s) \<Rightarrow> (Some p, s)))"

definition minted :: "'s control \<Rightarrow> string \<Rightarrow> string \<Rightarrow> int \<Rightarrow> string" where
  "minted S pid aud now =
     (case Mint (ca_hmac S) (ca_enc S) (ca_Key S) pid aud connTokenTTL now of Inl _ \<Rightarrow> '''' | Inr tok \<Rightarrow> tok)"

definition connection_answer :: "'s control \<Rightarrow> int \<Rightarrow> project \<Rightarrow> decision \<Rightarrow> int64 \<Rightarrow> connection_response" where
  "connection_answer S now p d disk =
     (let full = sint (p_DiskLimit p) \<le> sint disk \<and> \<not> dn_Over d;
          over = dn_Over d \<or> full
      in \<lparr>cr_ProjectID = p_ID p, cr_ProjectSlug = p_Slug p,
          cr_TerminalURL = ca_AgentBase S @ ''/terminal'', cr_SyncURL = ca_AgentBase S @ ''/sync'',
          cr_TerminalToken = (if over then '''' else minted S (p_ID p) AudTerminal now),
          cr_SyncToken = minted S (p_ID p) AudSync now,
          cr_SyncMode = (if over then ''cleanup'' else ''rw''),
          cr_DiskUsed = disk, cr_DiskLimit = p_DiskLimit p,
          cr_FiveHourUsed = dn_FiveHourUsed d, cr_FiveHourLimit = p_FiveHourLimit p,
          cr_SevenDayUsed = dn_SevenDayUsed d, cr_SevenDayLimit = p_SevenDayLimit p,
          cr_Over = over, cr_OverReason = (if full then ''disk_limit'' else dn_Reason d)\<rparr>)"

text \<open>\<open>disk, _ := s.Index.DiskUsed(..)\<close>: the index returns 0 next to an error.\<close>

definition disk_or_zero :: "db_error + int64 \<Rightarrow> int64" where
  "disk_or_zero r = (case r of Inl _ \<Rightarrow> 0 | Inr n \<Rightarrow> n)"

definition connection :: "'s control \<Rightarrow> int \<Rightarrow> int \<Rightarrow> http_request \<Rightarrow> 's \<Rightarrow> answer \<times> 's" where
  "connection S t_auth now r s =
     (case authed S t_auth r s of
        (None, s) \<Rightarrow> (HttpErr 401 ''unauthorized'', s)
      | (Some p, s) \<Rightarrow>
     (case Check (ca_Quota S) (p_ID p) (p_AccountID p) (ca_LimitsFor S p) now s of
        ((_, Some _), s) \<Rightarrow> (HttpErr 500 ''internal'', s)
      | ((d, None), s) \<Rightarrow>
     (case ca_DiskUsed S (p_ID p) s of
        (disk, s) \<Rightarrow> (ConnAnswer (connection_answer S now p d (disk_or_zero disk)), s))))"

definition usagePage :: "'s control \<Rightarrow> int \<Rightarrow> int \<Rightarrow> http_request \<Rightarrow> 's \<Rightarrow> answer \<times> 's" where
  "usagePage S t_auth now r s =
     (case authed S t_auth r s of
        (None, s) \<Rightarrow> (HttpErr 401 ''unauthorized'', s)
      | (Some p, s) \<Rightarrow>
     (case Check (ca_Quota S) (p_ID p) (p_AccountID p) (ca_LimitsFor S p) now s of
        ((d, _), s) \<Rightarrow>
     (case ca_DiskUsed S (p_ID p) s of
        (disk, s) \<Rightarrow> (UsagePage p d (disk_or_zero disk), s))))"

text \<open>The routes. A \<open>GET\<close> pattern matches \<open>HEAD\<close> too; a path of a route asked for with another method is
  answered 405.\<close>

definition Handler ::
    "'s control \<Rightarrow> exchange_clock \<Rightarrow> http_request \<Rightarrow> 's \<times> attempts \<Rightarrow> answer \<times> 's \<times> attempts" where
  "Handler S clk r st =
     (let gets = hq_Method r = ''GET'' \<or> hq_Method r = ''HEAD'' in
      if hq_Path r = ''/v1/auth/exchange'' then
        (if hq_Method r = ''POST'' then exchange S clk r st else (MethodNotAllowed, st))
      else if hq_Path r = ''/v1/connection'' then
        (if gets then (case connection S (xc_query clk) (xc_mint clk) r (fst st) of (a, s) \<Rightarrow> (a, s, snd st))
         else (MethodNotAllowed, st))
      else if hq_Path r = ''/usage'' then
        (if gets then (case usagePage S (xc_query clk) (xc_mint clk) r (fst st) of (a, s) \<Rightarrow> (a, s, snd st))
         else (MethodNotAllowed, st))
      else (NotFound, st))"

text \<open>The server as \<^verbatim>\<open>cmd/control-api\<close> builds it: on the database, with the default rate limit.\<close>

definition New ::
    "(int \<Rightarrow> string \<Rightarrow> 's \<Rightarrow> (project_error + project) go_run \<times> 's) \<Rightarrow>
     (string \<Rightarrow> 's \<Rightarrow> (db_error + project) \<times> 's) \<Rightarrow> bytes \<Rightarrow> 's usage_reader \<Rightarrow>
     (string \<Rightarrow> 's \<Rightarrow> (db_error + int64) \<times> 's) \<Rightarrow> (project \<Rightarrow> limits) \<Rightarrow> string \<Rightarrow>
     hmac \<Rightarrow> (claims \<Rightarrow> bytes option) \<Rightarrow> (bytes \<Rightarrow> claims option) \<Rightarrow> (bytes \<Rightarrow> string option) \<Rightarrow>
     's control \<times> attempts" where
  "New r getProject key q idx limitsFor agentBase hm enc dec body =
     (\<lparr>ca_hmac = hm, ca_enc = enc, ca_dec = dec, ca_body = body,
       ca_ResolveCDK = r, ca_GetProject = getProject, ca_Key = key, ca_Quota = q, ca_DiskUsed = idx,
       ca_LimitsFor = limitsFor, ca_AgentBase = agentBase, ca_MaxAuthAttempts = 0\<rparr>, Map.empty)"

text \<open>The production wiring of \<^verbatim>\<open>cmd/control-api/main.go\<close>: everything is read from the database.\<close>

definition pg_control ::
    "argon2_idkey \<Rightarrow> hmac \<Rightarrow> (claims \<Rightarrow> bytes option) \<Rightarrow> (bytes \<Rightarrow> claims option) \<Rightarrow> (bytes \<Rightarrow> string option) \<Rightarrow>
       bytes \<Rightarrow> (project \<Rightarrow> limits) \<Rightarrow> string \<Rightarrow> pg control \<times> attempts" where
  "pg_control idkey hm enc dec body key limitsFor agentBase =
     New (pg_ResolveCDK idkey) pg_GetProjectByID key pg_usage_reader PGIndex_DiskUsed limitsFor agentBase
       hm enc dec body"

section \<open>The rate limit counts attempts\<close>

text \<open>A run of exchanges, in the order the limiter's lock serialises them: for each, the client, the
  stamp and the answer.\<close>

fun exchange_run ::
    "'s control \<Rightarrow> (exchange_clock \<times> http_request) list \<Rightarrow> 's \<times> attempts \<Rightarrow>
       (string \<times> int \<times> answer) list \<times> 's \<times> attempts" where
  "exchange_run S [] st = ([], st)"
| "exchange_run S ((clk, r) # calls) st =
     (case exchange S clk r st of
        (a, st) \<Rightarrow> (case exchange_run S calls st of (as, st) \<Rightarrow> ((clientIP r, xc_stamp clk, a) # as, st)))"

definition let_through :: "string \<Rightarrow> (string \<times> int \<times> answer) list \<Rightarrow> int list" where
  "let_through key as = map (\<lambda>(k, t, a). t) (filter (\<lambda>(k, t, a). k = key \<and> a \<noteq> HttpErr 429 ''rate_limited'') as)"

text \<open>The attempts of the minute before \<open>u\<close>.\<close>

definition within :: "int \<Rightarrow> int list \<Rightarrow> int list" where
  "within u ts = filter (\<lambda>t. u - minute < t \<and> t \<le> u) ts"

definition clock_of :: "(exchange_clock \<times> http_request) list \<Rightarrow> int list" where
  "clock_of calls = concat (map (\<lambda>(clk, r). [xc_cutoff clk, xc_stamp clk]) calls)"

lemma let_through_simps [simp]:
  "let_through key [] = []"
  "let_through key (xs @ ys) = let_through key xs @ let_through key ys"
  "let_through key [(k, t, a)] = (if k = key \<and> a \<noteq> HttpErr 429 ''rate_limited'' then [t] else [])"
  by (simp_all add: let_through_def)

lemma within_simps [simp]:
  "within u [] = []" "within u (xs @ ys) = within u xs @ within u ys"
  "within u [t] = (if u - minute < t \<and> t \<le> u then [t] else [])"
  by (simp_all add: within_def)

lemma attempts_of_upd [simp]:
  "attempts_of Map.empty key = []"
  "attempts_of (m(k \<mapsto> ts)) key = (if key = k then ts else attempts_of m key)"
  by (simp_all add: attempts_of_def)

lemma exchange_run_snoc:
  "exchange_run S (calls @ [(clk, r)]) st =
     (case exchange_run S calls st of (as, st') \<Rightarrow>
        (case exchange S clk r st' of (a, st'') \<Rightarrow> (as @ [(clientIP r, xc_stamp clk, a)], st'')))"
  by (induction S calls st rule: exchange_run.induct) (simp_all split: prod.splits)

text \<open>An exchange is refused for its rate if and only if the limiter refuses it, and leaves the
  attempts the limiter left.\<close>

lemma exchange_limit:
  assumes "exchange S clk r (s, m) = (a, s', m')"
  shows "allowAuth S (clientIP r) (xc_cutoff clk) (xc_stamp clk) m = (a \<noteq> HttpErr 429 ''rate_limited'', m')"
  using assms
  by (auto simp: exchange_def split: prod.splits bool.splits option.splits go_run.splits sum.splits)

text \<open>What the limiter remembers of a client is, after the last cutoff, exactly what it let through.\<close>

definition remembers :: "int \<Rightarrow> (string \<times> int \<times> answer) list \<Rightarrow> attempts \<Rightarrow> bool" where
  "remembers now as m \<longleftrightarrow> (\<forall>key c. now - minute \<le> c \<longrightarrow>
     filter (\<lambda>t. c < t) (attempts_of m key) = filter (\<lambda>t. c < t) (let_through key as))"

lemma remembers_exchange:
  assumes "remembers now as m" "now \<le> xc_cutoff clk" "exchange S clk r (s, m) = (a, s', m')"
  shows "remembers (xc_cutoff clk) (as @ [(clientIP r, xc_stamp clk, a)]) m'"
proof -
  have old: "filter (\<lambda>t. c < t) (attempts_of m key) = filter (\<lambda>t. c < t) (let_through key as)"
    if "xc_cutoff clk - minute \<le> c" for key c
    using assms(1,2) that by (simp add: remembers_def)
  have kept: "filter (\<lambda>t. c < t) (filter (\<lambda>t. xc_cutoff clk - minute < t) ts) = filter (\<lambda>t. c < t) ts"
    if "xc_cutoff clk - minute \<le> c" for c and ts :: "int list"
    using that by (induction ts) auto
  show ?thesis
    using exchange_limit[OF assms(3)] old kept
    by (auto simp: remembers_def allowAuth_def Let_def split: if_splits)
qed

lemma sorted_clock_snoc:
  "sorted (clock_of (calls @ [(clk, r)])) \<longleftrightarrow>
     sorted (clock_of calls) \<and> (\<forall>t \<in> set (clock_of calls). t \<le> xc_cutoff clk) \<and> xc_cutoff clk \<le> xc_stamp clk"
  by (fastforce simp: clock_of_def sorted_append)

lemma exchange_run_remembers:
  assumes "exchange_run S calls (s, Map.empty) = (as, s', m)" "sorted (clock_of calls)"
    and "\<forall>t \<in> set (clock_of calls). t \<le> now"
  shows "remembers now as m"
  using assms
proof (induction calls arbitrary: as s' m now rule: rev_induct)
  case Nil
  then show ?case by (auto simp: remembers_def)
next
  case (snoc c calls)
  obtain clk r where c: "c = (clk, r)" by fastforce
  obtain as1 s1 m1 where p: "exchange_run S calls (s, Map.empty) = (as1, s1, m1)" using prod_cases3 by blast
  obtain a where e: "exchange S clk r (s1, m1) = (a, s', m)" "as = as1 @ [(clientIP r, xc_stamp clk, a)]"
    using snoc.prems(1) p unfolding c exchange_run_snoc by (auto split: prod.splits)
  have "remembers (xc_cutoff clk) as1 m1"
    using snoc.IH[OF p] snoc.prems(2) unfolding c sorted_clock_snoc by blast
  from remembers_exchange[OF this order_refl e(1)]
  have "remembers (xc_cutoff clk) as m" unfolding e(2) .
  moreover have "xc_cutoff clk \<le> now" using snoc.prems(3) unfolding c by (simp add: clock_of_def)
  ultimately show ?case by (simp add: remembers_def)
qed

text \<open>One exchange: it is refused exactly when the minute before it is full, so it keeps the bound.\<close>

lemma exchange_refused:
  assumes "remembers (xc_cutoff clk) as m" "exchange S clk r (s, m) = (a, s', m')"
  shows "a = HttpErr 429 ''rate_limited'' \<longleftrightarrow>
    auth_max S \<le> int (length (filter (\<lambda>t. xc_cutoff clk - minute < t) (let_through (clientIP r) as)))"
proof -
  have "filter (\<lambda>t. xc_cutoff clk - minute < t) (attempts_of m (clientIP r))
      = filter (\<lambda>t. xc_cutoff clk - minute < t) (let_through (clientIP r) as)"
    using assms(1) unfolding remembers_def by blast
  with exchange_limit[OF assms(2)] show ?thesis by (auto simp: allowAuth_def Let_def split: if_splits)
qed

lemma exchange_keeps_bound:
  assumes "remembers (xc_cutoff clk) as m" "exchange S clk r (s, m) = (a, s', m')"
    and "xc_cutoff clk \<le> xc_stamp clk" "int (length (within u (let_through k as))) \<le> auth_max S"
  shows "int (length (within u (let_through k (as @ [(clientIP r, xc_stamp clk, a)])))) \<le> auth_max S"
proof (cases "k = clientIP r \<and> a \<noteq> HttpErr 429 ''rate_limited'' \<and> u - minute < xc_stamp clk \<and> xc_stamp clk \<le> u")
  case False
  with assms(4) show ?thesis by (auto split: if_splits)
next
  case True
  have "within u xs = filter (\<lambda>x. u - minute < x \<and> x \<le> u) (filter (\<lambda>t. xc_cutoff clk - minute < t) xs)" for xs
    using True assms(3) unfolding within_def filter_filter by (intro filter_cong) auto
  then have "length (within u xs) \<le> length (filter (\<lambda>t. xc_cutoff clk - minute < t) xs)" for xs
    using length_filter_le by metis
  from this[of "let_through k as"] True exchange_refused[OF assms(1,2)] show ?thesis by simp
qed

lemma exchange_run_bound:
  assumes "exchange_run S calls (s, Map.empty) = (as, s', m)" "sorted (clock_of calls)"
  shows "int (length (within u (let_through k as))) \<le> auth_max S"
  using assms
proof (induction calls arbitrary: as s' m rule: rev_induct)
  case Nil
  then show ?case by (auto simp: auth_max_def)
next
  case (snoc c calls)
  obtain clk r where c: "c = (clk, r)" by fastforce
  obtain as1 s1 m1 where p: "exchange_run S calls (s, Map.empty) = (as1, s1, m1)" using prod_cases3 by blast
  obtain a where e: "exchange S clk r (s1, m1) = (a, s', m)" "as = as1 @ [(clientIP r, xc_stamp clk, a)]"
    using snoc.prems(1) p unfolding c exchange_run_snoc by (auto split: prod.splits)
  note mono = snoc.prems(2)[unfolded c sorted_clock_snoc]
  from exchange_run_remembers[OF p] mono have "remembers (xc_cutoff clk) as1 m1" by blast
  from exchange_keeps_bound[OF this e(1)] snoc.IH[OF p] mono show ?case unfolding e(2) by blast
qed

section \<open>Properties of the rate limit\<close>

text \<open>C27. The rate limit: if the clock does not go back, then however many requests are sent, no client
  has more than the limit (20 unless configured) let through to the key check in any minute; and
  the limit is exact: a request is turned away only if that many requests of its own client were
  let through in the minute before it.\<close>

theorem exchange_rate_is_bounded:
  assumes "exchange_run S (calls @ [(clk, r)]) (s, Map.empty) = (as @ [(key, t, a)], s', m)"
    and "sorted (clock_of (calls @ [(clk, r)]))"
  shows "int (length (within u (let_through k (as @ [(key, t, a)])))) \<le> auth_max S \<and>
    (a = HttpErr 429 ''rate_limited'' \<longleftrightarrow>
       auth_max S \<le> int (length (filter (\<lambda>t. xc_cutoff clk - minute < t) (let_through (clientIP r) as))))"
proof -
  obtain as1 s1 m1 where p: "exchange_run S calls (s, Map.empty) = (as1, s1, m1)" using prod_cases3 by blast
  have e: "as1 = as" "exchange S clk r (s1, m1) = (a, s', m)"
    using assms(1) p unfolding exchange_run_snoc by (auto split: prod.splits)
  have "remembers (xc_cutoff clk) as m1"
    using exchange_run_remembers[OF p] assms(2) unfolding sorted_clock_snoc e by blast
  from exchange_refused[OF this e(2)] exchange_run_bound[OF assms] show ?thesis by blast
qed


section \<open>The connection over the database\<close>

lemma PGIndex_DiskUsed_TotalSize: "PGIndex_DiskUsed = pg_TotalSize"
  by (simp add: fun_eq_iff PGIndex_DiskUsed_def pg_TotalSize_def)

lemma disk_used_spec:
  assumes "pg_inv s" "PGIndex_DiskUsed pid s = (r, s')"
  shows "s' = snd (next_fault s)" "r = Inr n \<Longrightarrow> sint n = total_size (pg_idx s pid)"
    "pg_faults s = [] \<Longrightarrow> fits64 (total_size (pg_idx s pid)) \<Longrightarrow> \<exists>n. r = Inr n"
proof -
  note spec = pg_TotalSize_spec[OF assms(1) assms(2)[unfolded PGIndex_DiskUsed_TotalSize]]
  show "s' = snd (next_fault s)" using spec by blast
  show "sint n = total_size (pg_idx s pid)" if "r = Inr n" using spec that by blast
  show "\<exists>n. r = Inr n" if "pg_faults s = []" "fits64 (total_size (pg_idx s pid))"
    using assms(2) that total_size_rows[OF assms(1)]
    by (auto simp: PGIndex_DiskUsed_def pg_query_healthy sum_column_def Let_def project_rows_def)
qed

lemma pg_GetProjectByID_spec:
  assumes "pg_inv s" "pg_GetProjectByID pid s = (r, s')"
  shows "s' = snd (next_fault s)" "r = Inr p \<Longrightarrow> p \<in> set (pg_projects s) \<and> p_ID p = pid"
    "pg_faults s = [] \<Longrightarrow> p \<in> set (pg_projects s) \<Longrightarrow> p_ID p = pid \<Longrightarrow> r = Inr p"
proof -
  note q = pg_query_cases[OF assms(2)[unfolded pg_GetProjectByID_def]]
  show st: "s' = snd (next_fault s)" using q by blast
  have d: "distinct (map p_ID (pg_projects s))" using assms(1) by (simp add: pg_inv_def)
  show "p \<in> set (pg_projects s) \<and> p_ID p = pid" if "r = Inr p"
  proof -
    from q that st obtain ps where "filter (\<lambda>p. p_ID p = pid) (pg_projects s) = p # ps"
      by (auto split: list.splits)
    then have "p \<in> set (filter (\<lambda>p. p_ID p = pid) (pg_projects s))" by simp
    then show ?thesis by simp
  qed
  show "r = Inr p" if "pg_faults s = []" "p \<in> set (pg_projects s)" "p_ID p = pid"
  proof -
    have "index_by p_ID (pg_projects s) pid = Some p" using index_by_iff[OF d] that by blast
    then have "filter (\<lambda>p. p_ID p = pid) (pg_projects s) = [p]" using filter_key[OF d] by simp
    with assms(2) that(1) show ?thesis by (simp add: pg_GetProjectByID_def pg_query_healthy)
  qed
qed

lemma pg_control_simps [simp]:
  "ca_hmac (fst (pg_control idkey hm enc dec body key lim base)) = hm"
  "ca_enc (fst (pg_control idkey hm enc dec body key lim base)) = enc"
  "ca_dec (fst (pg_control idkey hm enc dec body key lim base)) = dec"
  "ca_body (fst (pg_control idkey hm enc dec body key lim base)) = body"
  "ca_ResolveCDK (fst (pg_control idkey hm enc dec body key lim base)) = pg_ResolveCDK idkey"
  "ca_GetProject (fst (pg_control idkey hm enc dec body key lim base)) = pg_GetProjectByID"
  "ca_Key (fst (pg_control idkey hm enc dec body key lim base)) = key"
  "ca_Quota (fst (pg_control idkey hm enc dec body key lim base)) = pg_usage_reader"
  "ca_DiskUsed (fst (pg_control idkey hm enc dec body key lim base)) = PGIndex_DiskUsed"
  "ca_LimitsFor (fst (pg_control idkey hm enc dec body key lim base)) = lim"
  "ca_AgentBase (fst (pg_control idkey hm enc dec body key lim base)) = base"
  by (simp_all add: pg_control_def New_def)

lemma over_used_windows:
  assumes "Check pg_usage_reader pid acc l now s = ((d, e), s')"
  shows "pg_files s' = pg_files s" "pg_projects s' = pg_projects s" "pg_inv s' = pg_inv s"
  using assms
  by (auto simp: Check_def pg_usage_reader_def Let_def pg_WindowUsed_def pg_PoolUsed_def dest!: pg_query_state
      split: prod.splits sum.splits if_splits)

text \<open>Whether a project is to be kept from working: its quota, or the disk.\<close>

definition blocked :: "limits \<Rightarrow> int \<Rightarrow> int \<Rightarrow> project \<Rightarrow> pg \<Rightarrow> bool" where
  "blocked l now disk p s \<longleftrightarrow>
     over_quota l (pg_win s (p_ID p) (now - 5 * hour)) (pg_win s (p_ID p) (now - 7 * 24 * hour))
       (pg_pool s (p_AccountID p) (now - 5 * hour)) (pg_pool s (p_AccountID p) (now - 7 * 24 * hour)) \<or>
     sint (p_DiskLimit p) \<le> disk"

lemma connection_ConnAnswer:
  assumes "connection S t now r s = (ConnAnswer c, s')"
  obtains p s1 d s2 disk where "authed S t r s = (Some p, s1)"
    "Check (ca_Quota S) (p_ID p) (p_AccountID p) (ca_LimitsFor S p) now s1 = ((d, None), s2)"
    "ca_DiskUsed S (p_ID p) s2 = (disk, s')" "c = connection_answer S now p d (disk_or_zero disk)"
  using assms by (auto simp: connection_def split: prod.splits option.splits)

lemma authed_Some:
  assumes "authed S t r s = (Some p, s')"
  obtains cl where
    "Verify (ca_hmac S) (ca_dec S) (ca_Key S) (trim_prefix (hq_Authorization r) ''Bearer '') AudSession t = Inr cl"
    "ca_GetProject S (cl_ProjectID cl) s = (Inr p, s')"
  using assms by (auto simp: authed_def split: sum.splits prod.splits)

lemma connection_answer_simps [simp]:
  "cr_ProjectID (connection_answer S now p d disk) = p_ID p"
  "cr_DiskUsed (connection_answer S now p d disk) = disk"
  "cr_Over (connection_answer S now p d disk) = (dn_Over d \<or> sint (p_DiskLimit p) \<le> sint disk)"
  "cr_TerminalToken (connection_answer S now p d disk) =
     (if dn_Over d \<or> sint (p_DiskLimit p) \<le> sint disk then '''' else minted S (p_ID p) AudTerminal now)"
  "cr_SyncToken (connection_answer S now p d disk) = minted S (p_ID p) AudSync now"
  "cr_SyncMode (connection_answer S now p d disk) =
     (if dn_Over d \<or> sint (p_DiskLimit p) \<le> sint disk then ''cleanup'' else ''rw'')"
  by (auto simp: connection_answer_def Let_def)

lemma pg_quota_exact:
  assumes "Check pg_usage_reader pid acc l now s = ((d, None), s')" "sane_limits l"
    and "\<forall>u \<in> set (pg_usage s). 0 \<le> sint (ue_weighted_units u)"
  shows "dn_Over d \<longleftrightarrow> over_quota l (pg_win s pid (now - 5 * hour)) (pg_win s pid (now - 7 * 24 * hour))
        (pg_pool s acc (now - 5 * hour)) (pg_pool s acc (now - 7 * 24 * hour))"
proof -
  have "0 \<le> pg_win s p since" for p since
    using assms(3) by (auto simp: pg_win_def intro!: sum_list_nonneg)
  then have "0 \<le> pg_pool s acc since" for since
    by (auto simp: pg_pool_def intro!: sum_list_nonneg)
  with pgq.Check_effect[OF assms(1,2)] show ?thesis by simp
qed

lemma blocked_next [simp]: "blocked l now disk p (snd (next_fault s)) = blocked l now disk p s"
  by (simp add: blocked_def)

section \<open>Properties of the connection\<close>

text \<open>C24. What a connection grants, whatever faults the database has: the caller showed an unexpired
  session token of an existing project; the answer is for that project and says "over" if and only
  if the exact use of a quota window or of the pool, or the bytes on disk, have reached their
  limit; the terminal token is left out and the mode is \<open>cleanup\<close> exactly when it says "over", and
  the sync token is always there. The one inexact number is the disk: when its query fails it is
  read as 0.\<close>

theorem connection_grants_exactly:
  assumes "connection (fst (pg_control idkey hm enc dec body key lim base)) t now r s = (ConnAnswer c, s')"
    and "pg_inv s" and "\<forall>p. sane_limits (lim p)"
    and "\<forall>u \<in> set (pg_usage s). 0 \<le> sint (ue_weighted_units u)"
  shows "\<exists>p cl disk. p \<in> set (pg_projects s) \<and> p_ID p = cl_ProjectID cl \<and>
     Verify hm dec key (trim_prefix (hq_Authorization r) ''Bearer '') AudSession t = Inr cl \<and>
     (disk = total_size (pg_idx s (p_ID p)) \<or>
      disk = 0 \<and> (pg_faults s \<noteq> [] \<or> \<not> fits64 (total_size (pg_idx s (p_ID p))))) \<and>
     cr_ProjectID c = p_ID p \<and> sint (cr_DiskUsed c) = disk \<and> cr_Over c = blocked (lim p) now disk p s \<and>
     cr_SyncMode c = (if cr_Over c then ''cleanup'' else ''rw'') \<and>
     cr_TerminalToken c = (if cr_Over c then ''''
       else minted (fst (pg_control idkey hm enc dec body key lim base)) (p_ID p) AudTerminal now) \<and>
     cr_SyncToken c = minted (fst (pg_control idkey hm enc dec body key lim base)) (p_ID p) AudSync now"
proof -
  let ?S = "fst (pg_control idkey hm enc dec body key lim base)"
  from connection_ConnAnswer[OF assms(1)] obtain p s1 d s2 disk where
    C: "authed ?S t r s = (Some p, s1)"
      "Check pg_usage_reader (p_ID p) (p_AccountID p) (lim p) now s1 = ((d, None), s2)"
      "PGIndex_DiskUsed (p_ID p) s2 = (disk, s')" "c = connection_answer ?S now p d (disk_or_zero disk)"
    by (metis pg_control_simps(8,9,10))
  from authed_Some[OF C(1)] obtain cl where
    V: "Verify hm dec key (trim_prefix (hq_Authorization r) ''Bearer '') AudSession t = Inr cl"
      "pg_GetProjectByID (cl_ProjectID cl) s = (Inr p, s1)" by auto
  have s1: "s1 = snd (next_fault s)" and p: "p \<in> set (pg_projects s)" "p_ID p = cl_ProjectID cl"
    using pg_GetProjectByID_spec[OF assms(2) V(2)] by blast+
  note kept = over_used_windows[OF C(2)]
  have i: "pg_inv s2" "pg_idx s2 = pg_idx s"
    using assms(2) kept s1 by (simp_all add: pg_idx_cong[OF kept(1)])
  have q: "dn_Over d \<longleftrightarrow> over_quota (lim p)
      (pg_win s (p_ID p) (now - 5 * hour)) (pg_win s (p_ID p) (now - 7 * 24 * hour))
      (pg_pool s (p_AccountID p) (now - 5 * hour)) (pg_pool s (p_AccountID p) (now - 7 * 24 * hour))"
    using pg_quota_exact[OF C(2)] assms(3,4) unfolding s1 by simp
  have f: "pg_faults s2 = []" if "pg_faults s = []"
    using C(2) that s1 pg_query_healthy
    by (auto simp: Check_def pg_usage_reader_def Let_def pg_WindowUsed_def pg_PoolUsed_def no_faults
        dest!: pg_query_state split: prod.splits sum.splits if_splits)
  have disk: "sint (disk_or_zero disk) = total_size (pg_idx s (p_ID p)) \<or>
      sint (disk_or_zero disk) = 0 \<and> (pg_faults s \<noteq> [] \<or> \<not> fits64 (total_size (pg_idx s (p_ID p))))"
    using disk_used_spec[OF i(1) C(3)] i(2) f by (cases disk) (auto simp: disk_or_zero_def)
  show ?thesis
    using V(1) p disk q unfolding C(4) by (intro exI conjI) (auto simp: blocked_def)
qed

section \<open>From a key to a served session\<close>

definition sums_fit :: "pg \<Rightarrow> bool" where
  "sums_fit s \<longleftrightarrow> (\<forall>pid since. fits64 (pg_win s pid since) \<and> fits64 (pg_pool s pid since) \<and>
     fits64 (total_size (pg_idx s pid)))"

lemma Check_healthy:
  assumes "pg_faults s = []" "sums_fit s"
  obtains d where "Check pg_usage_reader pid acc l now s = ((d, None), s)"
proof -
  have w: "\<exists>n. pg_WindowUsed pid since s = (Inr n, s)" for since
    using assms by (auto simp: pg_WindowUsed_def pg_query_healthy sum_column_def Let_def sums_fit_def pg_win_def)
  have p: "\<exists>n. pg_PoolUsed acc since s = (Inr n, s)" for since
    using assms pg_pool_product[of acc since s]
    by (simp add: pg_PoolUsed_def pg_query_healthy sum_column_def Let_def sums_fit_def)
  obtain f v a b where "pg_WindowUsed pid (now - 5 * hour) s = (Inr f, s)"
    "pg_WindowUsed pid (now - 7 * 24 * hour) s = (Inr v, s)" "pg_PoolUsed acc (now - 5 * hour) s = (Inr a, s)"
    "pg_PoolUsed acc (now - 7 * 24 * hour) s = (Inr b, s)" using w p by meson
  then have "\<exists>d. Check pg_usage_reader pid acc l now s = ((d, None), s)"
    by (simp add: Check_def pg_usage_reader_def Let_def)
  then show thesis using that by blast
qed

text \<open>What the JSON form of claims does for the times a service lives in.\<close>

definition claims_codec :: "(claims \<Rightarrow> bytes option) \<Rightarrow> (bytes \<Rightarrow> claims option) \<Rightarrow> string \<Rightarrow> int \<Rightarrow> bool" where
  "claims_codec enc dec pid horizon \<longleftrightarrow> (\<forall>aud \<in> {AudSession, AudTerminal, AudSync}. \<forall>e. 0 \<le> e \<and> e \<le> horizon \<longrightarrow>
     (\<exists>b. enc \<lparr>cl_ProjectID = pid, cl_Audience = aud, cl_ExpiresAt = e\<rparr> = Some b \<and>
          dec b = Some \<lparr>cl_ProjectID = pid, cl_Audience = aud, cl_ExpiresAt = e\<rparr>))"

lemma claims_codec_mint:
  assumes "claims_codec enc dec pid horizon" "aud \<in> {AudSession, AudTerminal, AudSync}"
    and "0 \<le> now + ttl" "now + ttl \<le> horizon"
  obtains tok where "Mint hm enc key pid aud ttl now = Inr tok"
    "\<And>aud' now'. Verify hm dec key tok aud' now' =
       (if now + ttl < now' then Inl ErrExpired else if aud' \<noteq> aud then Inl ErrAudience
        else Inr \<lparr>cl_ProjectID = pid, cl_Audience = aud, cl_ExpiresAt = now + ttl\<rparr>)"
proof -
  let ?c = "\<lparr>cl_ProjectID = pid, cl_Audience = aud, cl_ExpiresAt = now + ttl\<rparr>"
  obtain b where b: "enc ?c = Some b" "dec b = Some ?c"
    using assms unfolding claims_codec_def by blast
  then obtain tok where t: "Mint hm enc key pid aud ttl now = Inr tok" by (simp add: Mint_def Let_def)
  have f: "faithful_claims enc dec ?c" using b by (simp add: faithful_claims_def)
  have "Verify hm dec key tok aud' now' =
       (if now + ttl < now' then Inl ErrExpired else if aud' \<noteq> aud then Inl ErrAudience else Inr ?c)" for aud' now'
    using hs.verify_signed[OF hs.minted[OF t f], of aud' now'] by auto
  with t that show thesis by blast
qed

lemma minted_verifies:
  assumes "claims_codec (ca_enc S) dec pid horizon" "aud \<in> {AudSession, AudTerminal, AudSync}"
    and "0 \<le> now" "now + connTokenTTL \<le> horizon"
  shows "Verify (ca_hmac S) dec (ca_Key S) (minted S pid aud now) aud' t =
    (if now + connTokenTTL < t then Inl ErrExpired else if aud' \<noteq> aud then Inl ErrAudience
     else Inr \<lparr>cl_ProjectID = pid, cl_Audience = aud, cl_ExpiresAt = now + connTokenTTL\<rparr>)"
proof -
  have n: "0 \<le> now + connTokenTTL" using assms(3) by (simp add: connTokenTTL_def minute_def second_def)
  show ?thesis
    by (rule claims_codec_mint[OF assms(1,2) n assms(4), of "ca_hmac S" "ca_Key S"]) (simp add: minted_def)
qed

lemma connection_healthy:
  assumes "pg_faults s = []" "pg_inv s" "sums_fit s" "p \<in> set (pg_projects s)"
    and "Verify hm dec key (trim_prefix (hq_Authorization r) ''Bearer '') AudSession t = Inr cl" "cl_ProjectID cl = p_ID p"
  obtains d disk where "connection (fst (pg_control idkey hm enc dec body key lim base)) t now r s =
     (ConnAnswer (connection_answer (fst (pg_control idkey hm enc dec body key lim base)) now p d disk), s)"
proof -
  have s: "snd (next_fault s) = s" using assms(1) by (simp add: no_faults)
  obtain g s1 where g: "pg_GetProjectByID (cl_ProjectID cl) s = (g, s1)" by fastforce
  with pg_GetProjectByID_spec[OF assms(2) g] assms(1,4,6) s have g': "g = Inr p" "s1 = s" by auto
  obtain d where d: "Check pg_usage_reader (p_ID p) (p_AccountID p) (lim p) now s = ((d, None), s)"
    using Check_healthy[OF assms(1,3)] by blast
  obtain disk s2 where u: "PGIndex_DiskUsed (p_ID p) s = (disk, s2)" by fastforce
  with disk_used_spec(1)[OF assms(2) u] s have "s2 = s" by simp
  with g g' d u assms(5) show thesis
    by (intro that[of d "disk_or_zero disk"]) (simp add: connection_def authed_def)
qed

lemma trim_bearer [simp]:
  "trim_prefix (CHR ''B'' # CHR ''e'' # CHR ''a'' # CHR ''r'' # CHR ''e'' # CHR ''r'' # CHR '' '' # tok) ''Bearer '' = tok"
  using trim_prefix_append[of "''Bearer ''" tok] by simp

lemma sessionFactory_project: "sessionFactory root pid device mode w = (sess, w') \<Longrightarrow> ss_ProjectID sess = pid"
  by (auto simp: sessionFactory_def Let_def split: prod.splits)

lemma pg_ResolveCDK_healthy: "pg_faults s = [] \<Longrightarrow> snd (pg_ResolveCDK idkey now cdk s) = s"
  by (auto simp: pg_ResolveCDK_def pg_query_healthy split: sum.split prod.split go_run.split bool.split)

lemma pg_idx_cdks: "pg_idx (s\<lparr>pg_cdks := cs\<rparr>) = pg_idx s"
  by (rule pg_idx_cong) simp

text \<open>What a session token opens while it is good, when the database answers.\<close>

lemma session_token_connects:
  assumes "pg_inv s" "pg_faults s = []" "sums_fit s" "p \<in> set (pg_projects s)"
    and "claims_codec enc dec (p_ID p) horizon" "0 \<le> now" "now + connTokenTTL \<le> horizon"
    and "S = fst (pg_control idkey hm enc dec body key lim base)"
    and "Verify hm dec key tok AudSession t = Inr cl" "cl_ProjectID cl = p_ID p" "hq_Authorization r = ''Bearer '' @ tok"
  shows "\<exists>cr. connection S t now r s = (ConnAnswer cr, s) \<and> cr_ProjectID cr = p_ID p \<and>
    (\<forall>P modeOf root t' fs. t' \<le> now + 2 * minute \<longrightarrow>
       (\<exists>c. ServeSync hm dec key P modeOf (sessionFactory root) t' True (''Bearer '' @ cr_SyncToken cr) [] (s, fs)
          = Served c \<and> ss_ProjectID (cn_sess c) = p_ID p)) \<and>
    (\<forall>t' now' r3. hq_Authorization r3 = ''Bearer '' @ cr_SyncToken cr \<longrightarrow>
       connection S t' now' r3 s = (HttpErr 401 ''unauthorized'', s))"
proof -
  have S: "ca_hmac S = hm" "ca_enc S = enc" "ca_dec S = dec" "ca_Key S = key" unfolding assms(8) by simp_all
  have SV: "Verify hm dec key (minted S (p_ID p) AudSync now) aud t = (if now + connTokenTTL < t then Inl ErrExpired
      else if aud \<noteq> AudSync then Inl ErrAudience
      else Inr \<lparr>cl_ProjectID = p_ID p, cl_Audience = AudSync, cl_ExpiresAt = now + connTokenTTL\<rparr>)" for aud t
    using minted_verifies[of S dec "p_ID p" horizon AudSync now] assms(5-7) by (simp add: S)
  have v: "Verify hm dec key (trim_prefix (hq_Authorization r) ''Bearer '') AudSession t = Inr cl"
    using assms(9,11) by simp
  obtain d disk where c: "connection S t now r s = (ConnAnswer (connection_answer S now p d disk), s)"
    unfolding assms(8) by (rule connection_healthy[OF assms(2,1,3,4) v]) (simp_all add: assms(10))
  with SV show ?thesis
    by (intro exI[of _ "connection_answer S now p d disk"])
      (auto simp: ServeSync_def Let_def connTokenTTL_def AudSync_def AudSession_def sessionFactory_project
        connection_def authed_def S writeSyncJSON_def split: prod.split)
qed

text \<open>C25. The way in works from end to end: when the database answers, a key \<open>CreateCDK\<close> made for a
  project is exchanged, below the rate limit, for a session token of that project; with it, for
  fifteen minutes, a connection is granted; and the sync token of the connection, for two minutes,
  opens a sync session of the worker on that same project. The session token itself opens no sync
  session, nor the sync token a connection.\<close>

theorem key_opens_workspace:
  assumes "pg_inv s" and "pg_faults s = []" and "sums_fit s" and "p \<in> set (pg_projects s)"
    and "\<And>pw sa t m th k. length (idkey pw sa t m th k) = k"
    and "pg_CreateCDK idkey (Some (b # bp)) (Some (c # bs)) (Some salt) uuid (p_ID p) s = (Inr cdk, s1)"
    and "claims_codec enc dec (p_ID p) horizon" and "0 \<le> xc_mint clk" and "xc_mint clk + 30 * minute \<le> horizon"
    and "S = fst (pg_control idkey hm enc dec body key lim base)"
    and "body (hq_Body r) = Some cdk" and "fst (allowAuth S (clientIP r) (xc_cutoff clk) (xc_stamp clk) m)"
  shows "\<exists>sb m'. exchange S clk r (s1, m) = (SessionAnswer sb, s1, m') \<and> sb_ProjectID sb = p_ID p \<and>
    (\<forall>t now r2. hq_Authorization r2 = ''Bearer '' @ sb_SessionToken sb \<longrightarrow>
       t \<le> xc_mint clk + 15 * minute \<longrightarrow> xc_mint clk \<le> now \<and> now \<le> xc_mint clk + 15 * minute \<longrightarrow>
       (\<exists>cr. connection S t now r2 s1 = (ConnAnswer cr, s1) \<and> cr_ProjectID cr = p_ID p \<and>
         (\<forall>P modeOf root t' fs. t' \<le> now + 2 * minute \<longrightarrow>
            (\<exists>c. ServeSync hm dec key P modeOf (sessionFactory root) t' True (''Bearer '' @ cr_SyncToken cr) [] (s1, fs)
                = Served c \<and> ss_ProjectID (cn_sess c) = p_ID p) \<and>
            ServeSync hm dec key P modeOf (sessionFactory root) t' True (''Bearer '' @ sb_SessionToken sb) [] (s1, fs)
                = Unauthorized) \<and>
         (\<forall>t' now' r3. hq_Authorization r3 = ''Bearer '' @ cr_SyncToken cr \<longrightarrow>
            connection S t' now' r3 s1 = (HttpErr 401 ''unauthorized'', s1))))"
proof -
  let ?t0 = "xc_mint clk"
  have S: "ca_hmac S = hm" "ca_enc S = enc" "ca_dec S = dec" "ca_Key S = key" "ca_body S = body"
    "ca_ResolveCDK S = pg_ResolveCDK idkey" unfolding assms(10) by simp_all
  obtain row where "s1 = s\<lparr>pg_cdks := pg_cdks s @ [row]\<rparr>"
    using pg_CreateCDK_Inr[OF assms(6)] assms(2) by (metis no_faults snd_conv)
  then have s1: "pg_inv s1" "pg_faults s1 = []" "sums_fit s1" "p \<in> set (pg_projects s1)" "s1\<lparr>pg_faults := []\<rparr> = s1"
    using pg_CreateCDK_inv[OF assms(6,1)] assms(2,3,4)
    by (simp_all add: sums_fit_def pg_win_def pg_pool_def pg_idx_cdks)
  with created_key_resolves[OF assms(1,5,6,4)]
  have R: "pg_ResolveCDK idkey (xc_query clk) cdk s1 = (Returns (Inr p), s1)"
    using pg_ResolveCDK_healthy[OF s1(2)] by (metis prod.collapse)
  obtain tok where tok: "Mint hm enc key (p_ID p) AudSession (15 * minute) ?t0 = Inr tok"
    and V: "\<And>aud t. Verify hm dec key tok aud t = (if ?t0 + 15 * minute < t then Inl ErrExpired
        else if aud \<noteq> AudSession then Inl ErrAudience
        else Inr \<lparr>cl_ProjectID = p_ID p, cl_Audience = AudSession, cl_ExpiresAt = ?t0 + 15 * minute\<rparr>)"
    using claims_codec_mint[OF assms(7), of AudSession ?t0 "15 * minute"] assms(8,9)
    by (auto simp: minute_def second_def)
  have "ServeSync hm dec key P modeOf (sessionFactory root) t' True (''Bearer '' @ tok) [] w = Unauthorized"
    for t' and P :: "pg sync_server" and modeOf root w
    by (auto simp: ServeSync_def Let_def V AudSync_def AudSession_def)
  moreover have "0 \<le> now \<and> now + connTokenTTL \<le> horizon" if "?t0 \<le> now" "now \<le> ?t0 + 15 * minute" for now
    using that assms(8,9) by (simp add: connTokenTTL_def minute_def second_def)
  moreover note session_token_connects[OF s1(1-4) assms(7) _ _ assms(10), of _ tok] V
  moreover obtain m' where "allowAuth S (clientIP r) (xc_cutoff clk) (xc_stamp clk) m = (True, m')"
    using assms(12) by (metis prod.collapse)
  then have "exchange S clk r (s1, m) =
     (SessionAnswer \<lparr>sb_SessionToken = tok, sb_ProjectID = p_ID p, sb_ProjectSlug = p_Slug p\<rparr>, s1, m')"
    using R tok assms(11) by (simp add: exchange_def S)
  ultimately show ?thesis by fastforce
qed

section \<open>Concrete inputs\<close>

definition demo_req :: "string \<Rightarrow> string \<Rightarrow> bytes \<Rightarrow> http_request" where
  "demo_req addr auth body =
     \<lparr>hq_Method = ''POST'', hq_Path = ''/v1/auth/exchange'', hq_RemoteAddr = addr, hq_Authorization = auth, hq_Body = body\<rparr>"

definition demo_clock :: "int \<Rightarrow> exchange_clock" where
  "demo_clock t = \<lparr>xc_cutoff = t, xc_stamp = t, xc_query = t, xc_mint = t\<rparr>"

text \<open>A codec of claims for every time that is not negative: decimal digits, a bar, audience, a bar, project.\<close>

definition digit_enc :: "claims \<Rightarrow> bytes option" where
  "digit_enc c = (if cl_ExpiresAt c < 0 then None
     else Some (nat_digits (nat (cl_ExpiresAt c)) @ ''|'' @ cl_Audience c @ ''|'' @ cl_ProjectID c))"

definition digit_dec :: "bytes \<Rightarrow> claims option" where
  "digit_dec b = (case split_ch (CHR ''|'') b of
     [e, a, p] \<Rightarrow> Some \<lparr>cl_ProjectID = p, cl_Audience = a, cl_ExpiresAt = int (digits_value e)\<rparr> | _ \<Rightarrow> None)"

lemma digit_codec: "CHR ''|'' \<notin> set pid \<Longrightarrow> claims_codec digit_enc digit_dec pid horizon"
proof -
  assume p: "CHR ''|'' \<notin> set pid"
  have d: "CHR ''|'' \<notin> set (nat_digits n)" for n using nat_digits_all[of n] by (auto simp: is_digit_def)
  show ?thesis
    unfolding claims_codec_def
    using p d by (auto simp: digit_enc_def digit_dec_def split_ch_append_sep split_ch_single digits_value_nat_digits
        AudSession_def AudTerminal_def AudSync_def)
qed

definition demo_idkey :: argon2_idkey where
  "demo_idkey p s t m th k = take k (p @ replicate k CHR ''0'')"

definition demo_limits :: limits where
  "demo_limits = \<lparr>lm_FiveHour = 10, lm_SevenDay = 20, lm_PoolFiveHour = 100,
     lm_PoolSevenDay = 100, lm_Reserve = 0, lm_SafetyMargin = 0\<rparr>"

definition demo_control :: "pg control" where
  "demo_control = fst (pg_control demo_idkey demo_hmac digit_enc digit_dec Some ''key'' (\<lambda>_. demo_limits) ''wss://a'')"

text \<open>With a limit of two and bodies that do not decode: of one client's requests the third within a
  minute is refused, and again the one at the end, which comes within a minute of two others.\<close>

definition demo_strict :: "pg control" where
  "demo_strict = demo_control\<lparr>ca_MaxAuthAttempts := 2, ca_body := Map.empty\<rparr>"

lemma exchange_demo_strict:
  "exchange demo_strict (demo_clock t) (demo_req addr auth b) (s, m) =
     (case allowAuth demo_strict (clientIP (demo_req addr auth b)) t t m of
        (False, m') \<Rightarrow> (HttpErr 429 ''rate_limited'', s, m') | (True, m') \<Rightarrow> (HttpErr 401 ''invalid_cdk'', s, m'))"
  by (simp add: exchange_def demo_strict_def demo_clock_def split: prod.split bool.split)

lemma demo_clients:
  "clientIP (demo_req ''1.2.3.4:5'' a b) = ''1.2.3.4''" "clientIP (demo_req ''1.2.3.4:6'' a b) = ''1.2.3.4''"
  "clientIP (demo_req ''[::1]:7'' a b) = ''::1''"
  by (simp_all add: clientIP_def SplitHostPort_def demo_req_def Let_def)

theorem exchange_rate_is_bounded_witness:
  "\<exists>st. exchange_run demo_strict
      [(demo_clock 0, demo_req ''1.2.3.4:5'' '''' ''x''), (demo_clock 7, demo_req ''1.2.3.4:6'' '''' ''x''),
       (demo_clock 8, demo_req ''[::1]:7'' '''' ''x''), (demo_clock 9, demo_req ''1.2.3.4:5'' '''' ''x''),
       (demo_clock minute, demo_req ''1.2.3.4:5'' '''' ''x''), (demo_clock (minute + 1), demo_req ''1.2.3.4:6'' '''' ''x'')]
      (demo_db, Map.empty)
     = ([(''1.2.3.4'', 0, HttpErr 401 ''invalid_cdk''), (''1.2.3.4'', 7, HttpErr 401 ''invalid_cdk''),
         (''::1'', 8, HttpErr 401 ''invalid_cdk''), (''1.2.3.4'', 9, HttpErr 429 ''rate_limited''),
         (''1.2.3.4'', minute, HttpErr 401 ''invalid_cdk''), (''1.2.3.4'', minute + 1, HttpErr 429 ''rate_limited'')], st) \<and>
     int (length (within (minute + 1) [0, 7, minute])) \<le> 2"
proof -
  let ?calls = "[(demo_clock 0, demo_req ''1.2.3.4:5'' '''' ''x''), (demo_clock 7, demo_req ''1.2.3.4:6'' '''' ''x''),
       (demo_clock 8, demo_req ''[::1]:7'' '''' ''x''), (demo_clock 9, demo_req ''1.2.3.4:5'' '''' ''x''),
       (demo_clock minute, demo_req ''1.2.3.4:5'' '''' ''x'')]"
  let ?last = "(demo_clock (minute + 1), demo_req ''1.2.3.4:6'' '''' ''x'')"
  let ?as = "[(''1.2.3.4'', 0, HttpErr 401 ''invalid_cdk''), (''1.2.3.4'', 7, HttpErr 401 ''invalid_cdk''),
         (''::1'', 8, HttpErr 401 ''invalid_cdk''), (''1.2.3.4'', 9, HttpErr 429 ''rate_limited''),
         (''1.2.3.4'', minute, HttpErr 401 ''invalid_cdk'')]"
  have max: "auth_max demo_strict = 2" by (simp add: auth_max_def demo_strict_def)
  have stamp: "xc_stamp (demo_clock t) = t" "xc_cutoff (demo_clock t) = t" for t by (simp_all add: demo_clock_def)
  obtain s m where run: "exchange_run demo_strict (?calls @ [?last]) (demo_db, Map.empty) =
      (?as @ [(''1.2.3.4'', minute + 1, HttpErr 429 ''rate_limited'')], s, m)"
    by (simp add: exchange_demo_strict demo_clients allowAuth_def max stamp minute_def second_def Let_def)
  have "sorted (clock_of (?calls @ [?last]))" by (simp add: clock_of_def stamp minute_def second_def)
  from exchange_rate_is_bounded[OF run this, of "minute + 1" "''1.2.3.4''"] run max show ?thesis
    by (auto simp: let_through_def)
qed


definition demo_row :: cdk_row where
  "demo_row = \<lparr>ck_id = ''k1'', ck_project_id = ''p1'', ck_public_id = ''6162'',
     ck_secret_hash = (case HashSecret demo_idkey ''6364'' (Some ''salt'') of Inl _ \<Rightarrow> '''' | Inr h \<Rightarrow> h),
     ck_expires_at = None, ck_disabled_at = None\<rparr>"

lemma demo_create:
  "pg_CreateCDK demo_idkey (Some (CHR ''a'' # ''b'')) (Some (CHR ''c'' # ''d'')) (Some ''salt'') ''k1'' (p_ID demo_project) demo_db
     = (Inr ''ccw_6162.6364'', demo_db\<lparr>pg_cdks := [demo_row]\<rparr>)"
proof -
  have n: "NewCDK (Some (CHR ''a'' # ''b'')) (Some (CHR ''c'' # ''d'')) = Inr (''ccw_6162.6364'', ''6162'')" by code_simp
  have s: "SplitCDK ''ccw_6162.6364'' = Inr (''6162'', ''6364'')" by code_simp
  obtain h where h: "HashSecret demo_idkey ''6364'' (Some ''salt'') = Inr h" by (simp add: HashSecret_def)
  show ?thesis
    by (simp add: pg_CreateCDK_def n s h pg_exec_healthy project_exists_def demo_db_def demo_project_def demo_row_def)
qed

lemma demo_sums: "sums_fit (demo_db\<lparr>pg_cdks := cs\<rparr>)"
proof -
  have "pg_idx demo_db = (\<lambda>_. Map.empty)"
    by (simp add: fun_eq_iff pg_idx_def demo_db_def index_by_def)
  then have "total_size (pg_idx demo_db pid) = 0" for pid by (simp add: total_size_def)
  then show ?thesis
    by (simp add: sums_fit_def pg_win_def pg_pool_def pg_idx_cdks) (simp add: demo_db_def fits64_def)
qed

theorem key_opens_workspace_witness:
  "\<exists>sb m' cr. exchange demo_control (demo_clock 0) (demo_req ''1.2.3.4:5'' '''' ''ccw_6162.6364'')
      (demo_db\<lparr>pg_cdks := [demo_row]\<rparr>, Map.empty) = (SessionAnswer sb, demo_db\<lparr>pg_cdks := [demo_row]\<rparr>, m') \<and>
     connection demo_control minute minute (demo_req ''1.2.3.4:5'' (''Bearer '' @ sb_SessionToken sb) '''')
       (demo_db\<lparr>pg_cdks := [demo_row]\<rparr>) = (ConnAnswer cr, demo_db\<lparr>pg_cdks := [demo_row]\<rparr>) \<and> cr_ProjectID cr = ''p1'' \<and>
     (\<exists>c. ServeSync demo_hmac digit_dec ''key'' demo_server modeFor (sessionFactory ''/'') (2 * minute) True
        (''Bearer '' @ cr_SyncToken cr) [] (demo_db\<lparr>pg_cdks := [demo_row]\<rparr>, demo_fs) = Served c)"
proof -
  let ?r = "demo_req ''1.2.3.4:5'' '''' ''ccw_6162.6364''"
  have a: "fst (allowAuth demo_control (clientIP ?r) (xc_cutoff (demo_clock 0)) (xc_stamp (demo_clock 0)) Map.empty)"
    by (simp add: allowAuth_def demo_control_def pg_control_def New_def auth_max_def Let_def)
  have s: "sums_fit demo_db" using demo_sums[of "[]"] by (simp add: demo_db_def)
  have k: "length (demo_idkey pw sa t m th n) = n" for pw sa t m th n by (simp add: demo_idkey_def)
  have c: "claims_codec digit_enc digit_dec (p_ID demo_project) (30 * minute)"
    by (rule digit_codec) (simp add: demo_project_def)
  have m: "0 \<le> minute" by (simp add: minute_def second_def)
  have d: "demo_project \<in> set (pg_projects demo_db)" "pg_faults demo_db = []"
    "p_ID demo_project = ''p1''" "xc_mint (demo_clock 0) = 0"
    by (simp_all add: demo_db_def demo_project_def demo_clock_def)
  note end_to_end = key_opens_workspace[OF demo_facts(1) d(2) s d(1) k demo_create c _ _ demo_control_def _ a,
      unfolded d(3,4)]
  obtain sb m' where e: "exchange demo_control (demo_clock 0) ?r (demo_db\<lparr>pg_cdks := [demo_row]\<rparr>, Map.empty) =
      (SessionAnswer sb, demo_db\<lparr>pg_cdks := [demo_row]\<rparr>, m')"
    and g: "\<And>t now r2. hq_Authorization r2 = ''Bearer '' @ sb_SessionToken sb \<Longrightarrow> t \<le> 15 * minute \<Longrightarrow>
       0 \<le> now \<and> now \<le> 15 * minute \<Longrightarrow>
       \<exists>cr. connection demo_control t now r2 (demo_db\<lparr>pg_cdks := [demo_row]\<rparr>) =
           (ConnAnswer cr, demo_db\<lparr>pg_cdks := [demo_row]\<rparr>) \<and> cr_ProjectID cr = ''p1'' \<and>
         (\<forall>(P :: pg sync_server) modeOf root t' fs. t' \<le> now + 2 * minute \<longrightarrow>
            (\<exists>c. ServeSync demo_hmac digit_dec ''key'' P modeOf (sessionFactory root) t' True
               (''Bearer '' @ cr_SyncToken cr) [] (demo_db\<lparr>pg_cdks := [demo_row]\<rparr>, fs) = Served c))"
    using end_to_end m by (simp add: demo_req_def) metis
  have "\<exists>cr. connection demo_control minute minute (demo_req ''1.2.3.4:5'' (''Bearer '' @ sb_SessionToken sb) '''')
       (demo_db\<lparr>pg_cdks := [demo_row]\<rparr>) = (ConnAnswer cr, demo_db\<lparr>pg_cdks := [demo_row]\<rparr>) \<and> cr_ProjectID cr = ''p1'' \<and>
     (\<exists>c. ServeSync demo_hmac digit_dec ''key'' demo_server modeFor (sessionFactory ''/'') (2 * minute) True
        (''Bearer '' @ cr_SyncToken cr) [] (demo_db\<lparr>pg_cdks := [demo_row]\<rparr>, demo_fs) = Served c)"
    using g[of "demo_req ''1.2.3.4:5'' (''Bearer '' @ sb_SessionToken sb) ''''" minute minute] m
    by (fastforce simp: demo_req_def)
  with e show ?thesis by blast
qed

definition demo_full :: pg where
  "demo_full = demo_db\<lparr>pg_files := [\<lparr>fr_project_id = ''p1'',
     fr_entry = \<lparr>fe_Path = ''a'', fe_Size = 100, fe_SHA256 = ''h'', fe_Revision = 1, fe_Deleted = False\<rparr>, fr_device = ''d1''\<rparr>]\<rparr>"

lemma demo_full_facts:
  "pg_inv demo_full" "total_size (pg_idx demo_full pid) = (if pid = ''p1'' then 100 else 0)" "sums_fit demo_full"
proof -
  show i: "pg_inv demo_full" by code_simp
  show t: "total_size (pg_idx demo_full pid) = (if pid = ''p1'' then 100 else 0)" for pid
    unfolding total_size_rows[OF i] by (simp add: demo_full_def demo_db_def project_rows_def)
  then show "sums_fit demo_full"
    unfolding sums_fit_def t by (simp add: pg_win_def pg_pool_def demo_full_def demo_db_def fits64_def)
qed

text \<open>A full disk: no terminal, and the sync token comes with the mode \<open>cleanup\<close>.\<close>

theorem connection_grants_exactly_witness:
  "\<exists>tok c. connection demo_control 5 5 (demo_req ''1.2.3.4:5'' (''Bearer '' @ tok) '''') demo_full = (ConnAnswer c, demo_full) \<and>
     cr_ProjectID c = ''p1'' \<and> cr_Over c \<and> cr_TerminalToken c = '''' \<and> cr_SyncMode c = ''cleanup''"
proof -
  have c: "claims_codec digit_enc digit_dec ''p1'' 10" by (rule digit_codec) simp
  obtain tok where m: "\<And>aud now. Verify demo_hmac digit_dec ''key'' tok aud now =
      (if 5 + 5 < now then Inl ErrExpired else if aud \<noteq> AudSession then Inl ErrAudience
       else Inr \<lparr>cl_ProjectID = ''p1'', cl_Audience = AudSession, cl_ExpiresAt = 5 + 5\<rparr>)"
    using claims_codec_mint[OF c, of AudSession 5 5 demo_hmac "''key''" thesis] by auto
  then obtain cl where v: "Verify demo_hmac digit_dec ''key'' tok AudSession 5 = Inr cl" "cl_ProjectID cl = ''p1''"
    by simp
  let ?r = "demo_req ''1.2.3.4:5'' (''Bearer '' @ tok) ''''"
  have v': "Verify demo_hmac digit_dec ''key'' (trim_prefix (hq_Authorization ?r) ''Bearer '') AudSession 5 = Inr cl"
    using v(1) by (simp add: demo_req_def)
  have f: "pg_faults demo_full = []" "demo_project \<in> set (pg_projects demo_full)" "p_ID demo_project = ''p1''"
    by (simp_all add: demo_full_def demo_db_def demo_project_def)
  obtain a where a: "connection demo_control 5 5 ?r demo_full = (ConnAnswer a, demo_full)"
    unfolding demo_control_def
    by (rule connection_healthy[OF f(1) demo_full_facts(1,3) f(2) v']) (simp_all add: f(3) v(2))
  have l: "\<forall>p. sane_limits ((\<lambda>_ :: project. demo_limits) p)" by (simp add: demo_limits_def sane_limits_def)
  have u: "\<forall>u \<in> set (pg_usage demo_full). 0 \<le> sint (ue_weighted_units u)" by (simp add: demo_full_def demo_db_def)
  from connection_grants_exactly[OF a[unfolded demo_control_def] demo_full_facts(1) l u] v' v(2) f(1) obtain p where
    p: "p \<in> set (pg_projects demo_full)" "cr_ProjectID a = p_ID p" "cr_Over a = blocked demo_limits 5 100 p demo_full"
      "cr_SyncMode a = (if cr_Over a then ''cleanup'' else ''rw'')" "cr_Over a \<longrightarrow> cr_TerminalToken a = ''''"
      "p_ID p = ''p1''"
    by (fastforce simp: demo_full_facts(2) fits64_def)
  have "p = demo_project" using p(1) by (simp add: demo_full_def demo_db_def)
  then have "cr_Over a" using p(3) by (simp add: blocked_def demo_project_def)
  with a p show ?thesis by auto
qed

end
