(* ===== verification/Control_Client.thy ===== *)
theory Control_Client
  imports Control_Api
begin

text \<open>
  \<^verbatim>\<open>internal/control/client.go\<close>: the client of the control API. \<open>doJSON\<close> sends a request up to five
  times, waiting longer between attempts. The network, the timer and the cancellation of the context
  are effects on a state \<open>'s\<close>, fields of \<open>net\<close>: a round trip has an answer or fails, a wait ends with
  the timer or with the context. What the calls did is recorded in a list of events. Durations are
  \<open>int64\<close> nanoseconds, as in Go.
\<close>

section \<open>The network\<close>

record http_call =
  hc_Method :: string
  hc_URL :: string
  hc_Auth :: string
  hc_Body :: bytes

record http_reply =
  hp_Status :: nat
  hp_Body :: bytes

text \<open>\<open>nt_URL\<close>: whether \<open>http.NewRequestWithContext\<close> accepts the URL. \<open>nt_After\<close>: whether the timer fires
  before the context is done.\<close>

record 's net =
  nt_URL :: "string \<Rightarrow> bool"
  nt_Do :: "http_call \<Rightarrow> 's \<Rightarrow> http_reply option \<times> 's"
  nt_After :: "int64 \<Rightarrow> 's \<Rightarrow> bool \<times> 's"

datatype net_event = Sent http_call | Waited int64

datatype client_error =
    BuildFailed
  | NetworkFailed
  | ServerFailed nat
  | StatusRejected nat
  | DecodeFailed
  | ContextDone

record client =
  cc_Base :: string
  cc_RetryBase :: int64

section \<open>Requests with retries\<close>

abbreviation (input) go_seconds :: "int64 \<Rightarrow> int64" where
  "go_seconds n \<equiv> n * 1000000000"

definition next_backoff :: "int64 \<Rightarrow> int64" where
  "next_backoff backoff = (let b = backoff * 2 in if sint (go_seconds 30) < sint b then go_seconds 30 else b)"

text \<open>The wait before an attempt: none before the first; \<open>None\<close> if the context ends first.\<close>

definition wait_turn :: "'s net \<Rightarrow> nat \<Rightarrow> int64 \<Rightarrow> 's \<Rightarrow> int64 option \<times> net_event list \<times> 's" where
  "wait_turn N attempt backoff s =
     (if attempt = 0 then (Some backoff, [], s)
      else case nt_After N backoff s of
        (True, s) \<Rightarrow> (Some (next_backoff backoff), [Waited backoff], s)
      | (False, s) \<Rightarrow> (None, [Waited backoff], s))"

text \<open>What an answer means: \<open>Inl\<close> an error to try again after, \<open>Inr\<close> the end, with the error or what was
  decoded.\<close>

definition read_reply ::
    "(bytes \<Rightarrow> 'a option) \<Rightarrow> http_reply option \<Rightarrow> client_error + (client_error option \<times> 'a option)" where
  "read_reply decode reply =
     (case reply of
        None \<Rightarrow> Inl NetworkFailed
      | Some resp \<Rightarrow>
          if 500 \<le> hp_Status resp then Inl (ServerFailed (hp_Status resp))
          else if 400 \<le> hp_Status resp then Inr (Some (StatusRejected (hp_Status resp)), None)
          else (case decode (hp_Body resp) of
                  None \<Rightarrow> Inr (Some DecodeFailed, None) | Some x \<Rightarrow> Inr (None, Some x)))"

text \<open>The loop, from an attempt on. The result is the error, if any, and what was decoded, if
  anything.\<close>

function try_from ::
    "'s net \<Rightarrow> http_call \<Rightarrow> (bytes \<Rightarrow> 'a option) \<Rightarrow> nat \<Rightarrow> int64 \<Rightarrow> client_error option \<Rightarrow> 's \<Rightarrow>
       (client_error option \<times> 'a option) \<times> net_event list \<times> 's" where
  "try_from N q decode attempt backoff lastErr s =
     (if 5 \<le> attempt then ((lastErr, None), [], s)
      else case wait_turn N attempt backoff s of
        (None, ev, s) \<Rightarrow> ((Some ContextDone, None), ev, s)
      | (Some backoff, ev, s) \<Rightarrow>
          if \<not> nt_URL N (hc_URL q) then ((Some BuildFailed, None), ev, s)
          else (case nt_Do N q s of (reply, s) \<Rightarrow>
            (case read_reply decode reply of
               Inr result \<Rightarrow> (result, ev @ [Sent q], s)
             | Inl e \<Rightarrow>
                 (case try_from N q decode (attempt + 1) backoff (Some e) s of
                    (result, ev', s) \<Rightarrow> (result, ev @ Sent q # ev', s)))))"
  by pat_completeness auto
termination by (relation "measure (\<lambda>(N, q, decode, attempt, backoff, lastErr, s). 5 - attempt)") auto

declare try_from.simps [simp del]

definition first_backoff :: "int64 \<Rightarrow> int64" where
  "first_backoff base = (if sint base \<le> 0 then go_seconds 1 else base)"

definition doJSON ::
    "'s net \<Rightarrow> client \<Rightarrow> string \<Rightarrow> string \<Rightarrow> bytes \<Rightarrow> (bytes \<Rightarrow> 'a option) \<Rightarrow> 's \<Rightarrow>
       (client_error option \<times> 'a option) \<times> net_event list \<times> 's" where
  "doJSON N c meth path body decode s =
     try_from N \<lparr>hc_Method = meth, hc_URL = cc_Base c @ path, hc_Auth = '''', hc_Body = body\<rparr> decode 0
       (first_backoff (cc_RetryBase c)) None s"

section \<open>The two calls\<close>

definition Exchange ::
    "'s net \<Rightarrow> (string \<Rightarrow> bytes) \<Rightarrow> (bytes \<Rightarrow> session_body option) \<Rightarrow> client \<Rightarrow> string \<Rightarrow> 's \<Rightarrow>
       (client_error option \<times> session_body option) \<times> net_event list \<times> 's" where
  "Exchange N enc_cdk dec_session c cdk s =
     doJSON N c ''POST'' ''/v1/auth/exchange'' (enc_cdk cdk) dec_session s"

text \<open>\<open>Connection\<close> asks once, and takes nothing but 200 for an answer.\<close>

definition Connection ::
    "'s net \<Rightarrow> (bytes \<Rightarrow> connection_response option) \<Rightarrow> client \<Rightarrow> string \<Rightarrow> 's \<Rightarrow>
       (client_error option \<times> connection_response option) \<times> net_event list \<times> 's" where
  "Connection N dec_conn c sessionToken s =
     (let q = \<lparr>hc_Method = ''GET'', hc_URL = cc_Base c @ ''/v1/connection'',
               hc_Auth = ''Bearer '' @ sessionToken, hc_Body = ''''\<rparr> in
      if \<not> nt_URL N (hc_URL q) then ((Some BuildFailed, None), [], s)
      else (case nt_Do N q s of
         (None, s) \<Rightarrow> ((Some NetworkFailed, None), [Sent q], s)
       | (Some resp, s) \<Rightarrow>
           if hp_Status resp \<noteq> 200 then ((Some (StatusRejected (hp_Status resp)), None), [Sent q], s)
           else (case dec_conn (hp_Body resp) of
                   None \<Rightarrow> ((Some DecodeFailed, None), [Sent q], s)
                 | Some conn \<Rightarrow> ((None, Some conn), [Sent q], s))))"

section \<open>How often, and how long\<close>

fun sent :: "net_event list \<Rightarrow> http_call list" where
  "sent [] = []"
| "sent (Sent q # ev) = q # sent ev"
| "sent (Waited d # ev) = sent ev"

fun waits :: "net_event list \<Rightarrow> int64 list" where
  "waits [] = []"
| "waits (Sent q # ev) = waits ev"
| "waits (Waited d # ev) = d # waits ev"

fun backoffs :: "nat \<Rightarrow> int64 \<Rightarrow> int64 list" where
  "backoffs 0 b = []"
| "backoffs (Suc n) b = b # backoffs n (next_backoff b)"

lemma sent_append [simp]: "sent (a @ b) = sent a @ sent b"
  by (induction a rule: sent.induct) simp_all

lemma waits_append [simp]: "waits (a @ b) = waits a @ waits b"
  by (induction a rule: waits.induct) simp_all

lemma length_backoffs [simp]: "length (backoffs n b) = n"
  by (induction n arbitrary: b) simp_all

text \<open>After the first attempt, every request follows a wait, and the waits follow the sequence of
  backoffs as far as attempts remain.\<close>

lemma try_later:
  assumes "try_from N q decode n b e s = (result, ev, s')" "0 < n" "n \<le> 5"
  shows "set (sent ev) \<subseteq> {q} \<and> prefix (waits ev) (backoffs (5 - n) b) \<and> length (sent ev) \<le> length (waits ev)"
  using assms
proof (induction N q decode n b e s arbitrary: result ev s' rule: try_from.induct)
  case (1 N q decode n b e s)
  show ?case
  proof (cases "n = 5")
    case True
    with 1(2) show ?thesis by (simp add: try_from.simps)
  next
    case False
    then have n: "n < 5" "5 - n = Suc (5 - Suc n)" using 1(4) by simp_all
    note unfolded = 1(2)[unfolded try_from.simps[of N q decode n b e s]]
    obtain fired s1 where w: "nt_After N b s = (fired, s1)" by fastforce
    show ?thesis
    proof (cases fired)
      case False
      with unfolded w 1(3) n show ?thesis by (auto simp: wait_turn_def)
    next
      case True
      with w 1(3) have wt: "wait_turn N n b s = (Some (next_backoff b), [Waited b], s1)" by (simp add: wait_turn_def)
      obtain reply s2 where d: "nt_Do N q s1 = (reply, s2)" by fastforce
      show ?thesis
      proof (cases "nt_URL N (hc_URL q) \<and> (\<exists>e. read_reply decode reply = Inl e)")
        case True
        then obtain e' where e': "nt_URL N (hc_URL q)" "read_reply decode reply = Inl e'" by blast
        obtain r ev' s3 where t: "try_from N q decode (n + 1) (next_backoff b) (Some e') s2 = (r, ev', s3)"
          using prod_cases3 by blast
        have ev: "ev = Waited b # Sent q # ev'" using unfolded wt d e' t n by simp
        have "set (sent ev') \<subseteq> {q} \<and> prefix (waits ev') (backoffs (5 - (n + 1)) (next_backoff b)) \<and>
            length (sent ev') \<le> length (waits ev')"
          using 1(1)[OF _ wt[symmetric] refl refl _ d[symmetric] e'(2) t] e'(1) n by simp
        then show ?thesis unfolding ev n(2) by simp
      next
        case False
        then have "ev = [Waited b] \<or> ev = [Waited b, Sent q]"
          using unfolded wt d n by (auto split: sum.splits if_splits)
        then show ?thesis unfolding n(2) by auto
      qed
    qed
  qed
qed

lemma try_first:
  assumes "try_from N q decode 0 b e s = (result, ev, s')"
  shows "set (sent ev) \<subseteq> {q} \<and> prefix (waits ev) (backoffs 4 b) \<and> length (sent ev) \<le> length (waits ev) + 1"
proof -
  obtain reply s1 where d: "nt_Do N q s = (reply, s1)" by fastforce
  note unfolded = assms[unfolded try_from.simps[of N q decode 0 b e s]]
  show ?thesis
  proof (cases "nt_URL N (hc_URL q) \<and> (\<exists>e. read_reply decode reply = Inl e)")
    case True
    then obtain e' where e': "nt_URL N (hc_URL q)" "read_reply decode reply = Inl e'" by blast
    obtain r ev' s2 where t: "try_from N q decode 1 b (Some e') s1 = (r, ev', s2)" using prod_cases3 by blast
    have "ev = Sent q # ev'" using unfolded d e' t by (simp add: wait_turn_def)
    with try_later[OF t] show ?thesis by simp
  next
    case False
    then have "ev = [] \<or> ev = [Sent q]"
      using unfolded d by (auto simp: wait_turn_def split: sum.splits if_splits)
    then show ?thesis by auto
  qed
qed

lemma sint_go_seconds: "sint (go_seconds 30) = 30 * 1000000000"
  by simp

lemma next_backoff_bounds:
  assumes "0 < sint b" "sint b \<le> sint (go_seconds 30)"
  shows "0 < sint (next_backoff b)" "sint (next_backoff b) \<le> sint (go_seconds 30)"
    "sint (next_backoff b) \<le> 2 * sint b"
proof -
  have "sint (b * 2) = 2 * sint b"
    using sint_add64[of b b] assms unfolding sint_go_seconds by (simp add: fits64_def mult_2_right)
  then show "0 < sint (next_backoff b)" "sint (next_backoff b) \<le> sint (go_seconds 30)"
    "sint (next_backoff b) \<le> 2 * sint b"
    using assms by (simp_all add: next_backoff_def Let_def)
qed

lemma backoffs_bounds:
  "0 < sint b \<Longrightarrow> sint b \<le> sint (go_seconds 30) \<Longrightarrow> d \<in> set (backoffs n b) \<Longrightarrow>
     0 < sint d \<and> sint d \<le> sint (go_seconds 30)"
proof (induction n arbitrary: b)
  case (Suc n)
  then show ?case using next_backoff_bounds[OF Suc.prems(1,2)] by auto
qed simp

lemma sum_list_le_bound: "\<forall>x \<in> set xs. f x \<le> (c :: int) \<Longrightarrow> sum_list (map f xs) \<le> int (length xs) * c"
  by (induction xs) (auto simp: algebra_simps)

section \<open>Properties\<close>

text \<open>C30. A call ends, on every network: it sends the same request at most five times and waits at most
  four times, each time positive and, with a base of at most 30 seconds, at most 30 seconds; the
  waits are the base doubled each time up to that cap, so a call without a configured base spends
  at most 1 + 2 + 4 + 8 seconds waiting.\<close>

theorem doJSON_ends:
  assumes "doJSON N c meth path body decode s = (result, ev, s')"
    and "sint (cc_RetryBase c) \<le> 30 * 1000000000"
  shows "length (sent ev) \<le> 5 \<and>
    set (sent ev) \<subseteq> {\<lparr>hc_Method = meth, hc_URL = cc_Base c @ path, hc_Auth = '''', hc_Body = body\<rparr>} \<and>
    prefix (waits ev) (backoffs 4 (first_backoff (cc_RetryBase c))) \<and>
    (\<forall>d \<in> set (waits ev). 0 < sint d \<and> sint d \<le> 30 * 1000000000) \<and>
    (sint (cc_RetryBase c) \<le> 0 \<longrightarrow> sum_list (map sint (waits ev)) \<le> 15 * 1000000000)"
proof -
  let ?q = "\<lparr>hc_Method = meth, hc_URL = cc_Base c @ path, hc_Auth = '''', hc_Body = body\<rparr>"
  let ?b = "first_backoff (cc_RetryBase c)"
  from try_first[OF assms(1)[unfolded doJSON_def]]
  have t: "set (sent ev) \<subseteq> {?q}" "prefix (waits ev) (backoffs 4 ?b)" "length (sent ev) \<le> length (waits ev) + 1"
    by blast+
  have b: "0 < sint ?b" "sint ?b \<le> sint (go_seconds 30)" using assms(2) by (auto simp: first_backoff_def)
  have w: "\<forall>d \<in> set (waits ev). 0 < sint d \<and> sint d \<le> 30 * 1000000000"
    using backoffs_bounds[OF b] set_mono_prefix[OF t(2)] unfolding sint_go_seconds by blast
  have "length (waits ev) \<le> 4" using prefix_length_le[OF t(2)] by simp
  moreover have "sum_list (map sint (waits ev)) \<le> 15 * 1000000000" if "sint (cc_RetryBase c) \<le> 0"
  proof -
    have "backoffs 4 ?b = [go_seconds 1, go_seconds 2, go_seconds 4, go_seconds 8]"
      using that by (simp add: first_backoff_def next_backoff_def numeral_eq_Suc)
    then obtain k where "waits ev = take k [go_seconds 1, go_seconds 2, go_seconds 4, go_seconds 8]"
      using t(2) by (metis prefix_def append_eq_conv_conj)
    moreover have "sum_list (map sint (take k [go_seconds 1, go_seconds 2, go_seconds 4, go_seconds 8])) \<le> 15 * 1000000000"
      by (simp add: take_Cons split: nat.split)
    ultimately show ?thesis by simp
  qed
  ultimately show ?thesis using t w by auto
qed

text \<open>A network that answers from a script, on which no wait is cut short.\<close>

definition scripted :: "http_reply option list net" where
  "scripted = \<lparr>nt_URL = (\<lambda>_. True), nt_Do = (\<lambda>q rs. case rs of [] \<Rightarrow> (None, []) | r # rs \<Rightarrow> (r, rs)),
     nt_After = (\<lambda>d rs. (True, rs))\<rparr>"

text \<open>The specification: the first of the answers that is final, or the error of the last.\<close>

fun first_final :: "(bytes \<Rightarrow> 'a option) \<Rightarrow> http_reply option list \<Rightarrow> client_error option \<Rightarrow> client_error option \<times> 'a option" where
  "first_final decode [] lastErr = (lastErr, None)"
| "first_final decode (r # rs) lastErr =
     (case read_reply decode r of Inr result \<Rightarrow> result | Inl e \<Rightarrow> first_final decode rs (Some e))"

definition tried :: "(bytes \<Rightarrow> 'a option) \<Rightarrow> http_reply option list \<Rightarrow> nat" where
  "tried decode rs = length (takeWhile (\<lambda>r. isl (read_reply decode r)) rs)"

lemma try_scripted:
  assumes "n \<le> 5" "5 - n \<le> length rs"
  shows "\<exists>ev. try_from scripted q decode n b e rs =
      (first_final decode (take (5 - n) rs) e, ev, drop (length (sent ev)) rs) \<and>
    length (sent ev) = min (5 - n) (tried decode (take (5 - n) rs) + 1)"
  using assms
proof (induction "5 - n" arbitrary: n rs b e)
  case 0
  then show ?case by (simp add: try_from.simps)
next
  case (Suc k)
  then obtain r rs' where rs: "rs = r # rs'" by (cases rs) auto
  have "\<exists>b' ev0. wait_turn scripted n b rs = (Some b', ev0, rs) \<and> sent ev0 = []"
    by (simp add: wait_turn_def scripted_def)
  then obtain b' ev0 where w: "wait_turn scripted n b rs = (Some b', ev0, rs)" "sent ev0 = []" by blast
  have n: "\<not> 5 \<le> n" "5 - n = Suc k" "5 - (n + 1) = k" using Suc(2) by simp_all
  have d: "nt_Do scripted q rs = (r, rs')" "nt_URL scripted (hc_URL q)" by (simp_all add: scripted_def rs)
  show ?case
  proof (cases "read_reply decode r")
    case (Inr result)
    then show ?thesis
      unfolding try_from.simps[of scripted q decode n] n(2) rs using n(1) w d rs by (simp add: tried_def)
  next
    case (Inl e')
    have le: "n + 1 \<le> 5" "k \<le> length rs'" using n Suc.prems rs by simp_all
    from Suc(1)[of "n + 1" rs' b' "Some e'"] n le obtain ev where
      t: "try_from scripted q decode (n + 1) b' (Some e') rs' =
        (first_final decode (take k rs') (Some e'), ev, drop (length (sent ev)) rs')"
      "length (sent ev) = min k (tried decode (take k rs') + 1)" by auto
    then show ?thesis
      unfolding try_from.simps[of scripted q decode n] n(2) rs using n(1) w d rs Inl by (simp add: tried_def)
  qed
qed


definition demo_api_client :: client where
  "demo_api_client = \<lparr>cc_Base = ''https://a'', cc_RetryBase = 0\<rparr>"

definition demo_reply :: "nat \<Rightarrow> http_reply option" where
  "demo_reply n = Some \<lparr>hp_Status = n, hp_Body = ''ok''\<rparr>"


theorem doJSON_ends_witness:
  "\<exists>result ev. doJSON scripted demo_api_client ''POST'' ''/v1/auth/exchange'' ''x'' Some
      (replicate 9 (demo_reply 500)) = (result, ev, replicate 4 (demo_reply 500)) \<and> length (sent ev) = 5 \<and>
     sum_list (map sint (waits ev)) \<le> 15 * 1000000000"
proof -
  have "\<exists>ev. doJSON scripted demo_api_client ''POST'' ''/v1/auth/exchange'' ''x'' Some (replicate 9 (demo_reply 500)) =
      (first_final Some (take 5 (replicate 9 (demo_reply 500))) None, ev, drop (length (sent ev)) (replicate 9 (demo_reply 500))) \<and>
     length (sent ev) = min 5 (tried (Some :: bytes \<Rightarrow> bytes option) (take 5 (replicate 9 (demo_reply 500))) + 1)"
    unfolding doJSON_def using try_scripted[of 0 "replicate 9 (demo_reply 500)"] by simp
  moreover have "tried (Some :: bytes \<Rightarrow> bytes option) (take 5 (replicate 9 (demo_reply 500))) = 5"
    by (simp add: tried_def demo_reply_def read_reply_def numeral_eq_Suc)
  ultimately obtain ev where
    d: "doJSON scripted demo_api_client ''POST'' ''/v1/auth/exchange'' ''x'' Some (replicate 9 (demo_reply 500)) =
      (first_final Some (take 5 (replicate 9 (demo_reply 500))) None, ev, replicate 4 (demo_reply 500))"
      "length (sent ev) = 5"
    by auto
  with doJSON_ends[OF d(1)] show ?thesis by (auto simp: demo_api_client_def)
qed

end
