(* ===== verification/Usage_Collector.thy ===== *)
theory Usage_Collector
  imports Dir_Store
begin

text \<open>
  \<^verbatim>\<open>internal/usage/collector.go\<close>: turning the agent's session logs into usage events, in one go
  (\<open>ParseLines\<close>) and incrementally (\<open>Scan\<close>), with a cursor per file that survives restarts. JSON
  decoding and \<open>time.Parse\<close> are the parameters of a \<open>line_codec\<close>; the sink and the offset store are
  interfaces, records of functions on the state \<open>'w\<close> behind them, which may fail. \<open>brk p\<close> is the
  number of bytes after which reading the file \<open>p\<close> fails, if it does. The field \<open>uc_sent\<close> is a
  history: the events whose insertion succeeded, in order; the code keeps no such list.
\<close>

section \<open>Lines\<close>

record usage_event =
  ev_SourceEventID :: string
  ev_OccurredAt :: int
  ev_Model :: string
  ev_Input :: int64
  ev_Output :: int64
  ev_CacheRead :: int64
  ev_CacheWrite :: int64

record raw_usage =
  ru_Input :: int64
  ru_Output :: int64
  ru_CacheRead :: int64
  ru_CacheWrite :: int64

record rawLine =
  rl_Type :: string
  rl_RequestID :: string
  rl_Timestamp :: string
  rl_Model :: string
  rl_Usage :: "raw_usage option"

record line_codec =
  lc_json :: "bytes \<Rightarrow> rawLine option"
  lc_time :: "string \<Rightarrow> int option"

text \<open>\<open>strings.TrimSpace\<close>: the UTF-8 encodings of the characters that \<open>unicode.IsSpace\<close> accepts.\<close>

definition go_spaces :: "bytes list" where
  "go_spaces =
     [[CHR 0x09], [CHR 0x0A], [CHR 0x0B], [CHR 0x0C], [CHR 0x0D], [CHR 0x20], [CHR 0xC2, CHR 0x85],
      [CHR 0xC2, CHR 0xA0], [CHR 0xE1, CHR 0x9A, CHR 0x80]] @
     map (\<lambda>n. [CHR 0xE2, CHR 0x80, char_of n]) ([128..<139] @ [168, 169, 175 :: nat]) @
     [[CHR 0xE2, CHR 0x81, CHR 0x9F], [CHR 0xE3, CHR 0x80, CHR 0x80]]"

fun drop_spaces :: "nat \<Rightarrow> bytes list \<Rightarrow> bytes \<Rightarrow> bytes" where
  "drop_spaces 0 ws s = s"
| "drop_spaces (Suc k) ws s =
     (case find (\<lambda>w. prefix w s) ws of None \<Rightarrow> s | Some w \<Rightarrow> drop_spaces k ws (drop (length w) s))"

definition TrimSpace :: "bytes \<Rightarrow> bytes" where
  "TrimSpace s =
     (let s = drop_spaces (length s) go_spaces s
      in rev (drop_spaces (length s) (map rev go_spaces) (rev s)))"

text \<open>The three answers of \<open>parseLine\<close>: (event, true, false), (-, false, false) and (-, false, true).\<close>

datatype parsed = UsageEvent usage_event | OtherLine | BadLine

definition parseLine :: "line_codec \<Rightarrow> bytes \<Rightarrow> parsed" where
  "parseLine lc line0 =
     (let line = TrimSpace line0 in
      if line = [] then OtherLine
      else case lc_json lc line of
        None \<Rightarrow> BadLine
      | Some rl \<Rightarrow>
          if rl_Type rl \<noteq> ''assistant'' \<or> rl_Usage rl = None \<or> rl_RequestID rl = '''' then OtherLine
          else (case lc_time lc (rl_Timestamp rl) of
            None \<Rightarrow> BadLine
          | Some ts \<Rightarrow>
              let u = the (rl_Usage rl) in
              UsageEvent \<lparr>ev_SourceEventID = rl_RequestID rl, ev_OccurredAt = ts, ev_Model = rl_Model rl,
                ev_Input = ru_Input u, ev_Output = ru_Output u,
                ev_CacheRead = ru_CacheRead u, ev_CacheWrite = ru_CacheWrite u\<rparr>))"

abbreviation newline :: char where
  "newline \<equiv> CHR 0x0A"

text \<open>The lines of a \<open>bufio.Scanner\<close> with a buffer of at most \<open>limit\<close> bytes: it stops at a line that,
  with its newline, does not fit; a last line without newline must leave room for one byte more.\<close>

fun scanner_lines :: "nat \<Rightarrow> bytes list \<Rightarrow> bytes list" where
  "scanner_lines limit [] = []"
| "scanner_lines limit [l] = (if l = [] \<or> limit \<le> length l then [] else [l])"
| "scanner_lines limit (l # ls) = (if limit < length l + 1 then [] else l # scanner_lines limit ls)"

text \<open>\<open>ScanLines\<close> drops a carriage return at the end.\<close>

definition drop_cr :: "bytes \<Rightarrow> bytes" where
  "drop_cr l = (if l \<noteq> [] \<and> last l = CHR 0x0D then butlast l else l)"

definition parse_step :: "line_codec \<Rightarrow> usage_event list \<times> nat \<Rightarrow> bytes \<Rightarrow> usage_event list \<times> nat" where
  "parse_step lc = (\<lambda>(out, bad) text.
     (case parseLine lc text of
        UsageEvent e \<Rightarrow> (out @ [e], bad)
      | OtherLine \<Rightarrow> (out, bad)
      | BadLine \<Rightarrow> (out, bad + 1)))"

definition ParseLines :: "line_codec \<Rightarrow> reader \<Rightarrow> usage_event list \<times> nat" where
  "ParseLines lc r =
     foldl (parse_step lc) ([], 0) (map drop_cr (scanner_lines (8 * 2 ^ 20) (split_ch newline (rd_data r))))"

record weights =
  wt_Input :: int64
  wt_Output :: int64
  wt_CacheRead :: int64
  wt_CacheWrite :: int64

definition Weighted :: "usage_event \<Rightarrow> weights \<Rightarrow> int64" where
  "Weighted e w = ev_Input e * wt_Input w + ev_Output e * wt_Output w + ev_CacheRead e * wt_CacheRead w +
     ev_CacheWrite e * wt_CacheWrite w"

section \<open>The collector\<close>

datatype collect_error = CollectError

record cursor =
  cu_offset :: int64
  cu_partial :: bytes

definition cursor0 :: cursor where
  "cursor0 = \<lparr>cu_offset = 0, cu_partial = []\<rparr>"

record 'w offset_store =
  of_Load :: "string \<Rightarrow> string \<Rightarrow> 'w \<Rightarrow> (collect_error + int64 \<times> bytes) \<times> 'w"
  of_Save :: "string \<Rightarrow> string \<Rightarrow> string \<Rightarrow> int64 \<Rightarrow> bytes \<Rightarrow> 'w \<Rightarrow> collect_error option \<times> 'w"

record 'w collector =
  uc_Dir :: string
  uc_ProjectID :: string
  uc_Insert :: "string \<Rightarrow> usage_event \<Rightarrow> int64 \<Rightarrow> 'w \<Rightarrow> collect_error option \<times> 'w"
  uc_Weights :: weights
  uc_Offsets :: "'w offset_store option"
  uc_codec :: line_codec

record 'w col_state =
  uc_mem :: "string \<rightharpoonup> cursor"
  uc_BadLines :: int64
  uc_world :: 'w
  uc_sent :: "usage_event list"

definition fileIdentity :: "string \<Rightarrow> string" where
  "fileIdentity path = path"

definition col_load :: "'w collector \<Rightarrow> string \<Rightarrow> 'w col_state \<Rightarrow> (collect_error + cursor) \<times> 'w col_state" where
  "col_load c fid st =
     (case uc_Offsets c of
        None \<Rightarrow> (Inr (case uc_mem st fid of None \<Rightarrow> cursor0 | Some cur \<Rightarrow> cur), st)
      | Some os \<Rightarrow>
          (case of_Load os (uc_ProjectID c) fid (uc_world st) of
             (Inl e, w) \<Rightarrow> (Inl e, st\<lparr>uc_world := w\<rparr>)
           | (Inr (off, part), w) \<Rightarrow> (Inr \<lparr>cu_offset = off, cu_partial = part\<rparr>, st\<lparr>uc_world := w\<rparr>)))"

definition col_save :: "'w collector \<Rightarrow> string \<Rightarrow> string \<Rightarrow> cursor \<Rightarrow> 'w col_state \<Rightarrow> collect_error option \<times> 'w col_state" where
  "col_save c fid path cur st =
     (case uc_Offsets c of
        None \<Rightarrow> (None, st\<lparr>uc_mem := (uc_mem st)(fid \<mapsto> cur)\<rparr>)
      | Some os \<Rightarrow>
          (case of_Save os (uc_ProjectID c) fid path (cu_offset cur) (cu_partial cur) (uc_world st) of
             (r, w) \<Rightarrow> (r, st\<lparr>uc_world := w\<rparr>)))"

text \<open>What the loop does with a complete line, before the cursor moves.\<close>

definition take_line :: "'w collector \<Rightarrow> bytes \<Rightarrow> 'w col_state \<Rightarrow> collect_error option \<times> 'w col_state" where
  "take_line c line st =
     (case parseLine (uc_codec c) line of
        UsageEvent e \<Rightarrow>
          (case uc_Insert c (uc_ProjectID c) e (Weighted e (uc_Weights c)) (uc_world st) of
             (Some er, w) \<Rightarrow> (Some er, st\<lparr>uc_world := w\<rparr>)
           | (None, w) \<Rightarrow> (None, st\<lparr>uc_world := w, uc_sent := uc_sent st @ [e]\<rparr>))
      | OtherLine \<Rightarrow> (None, st)
      | BadLine \<Rightarrow> (None, st\<lparr>uc_BadLines := uc_BadLines st + 1\<rparr>))"

text \<open>The loop over \<open>ReadString('\n')\<close>, on the chunks between newlines: every chunk but the last one
  ended with a newline; \<open>fails\<close> tells whether the last one ended with an error or the end of file.\<close>

fun read_lines ::
    "'w collector \<Rightarrow> bytes list \<Rightarrow> bool \<Rightarrow> cursor \<Rightarrow> 'w col_state \<Rightarrow> collect_error option \<times> cursor \<times> 'w col_state" where
  "read_lines c [] fails cur st = (None, cur, st)"
| "read_lines c [chunk] fails cur st =
     (if fails then (None, cur, st\<lparr>uc_BadLines := uc_BadLines st + 1\<rparr>)
      else (None, cur\<lparr>cu_partial := cu_partial cur @ chunk\<rparr>, st))"
| "read_lines c (chunk # chunks) fails cur st =
     (let line = cu_partial cur @ chunk @ [newline]; cur = cur\<lparr>cu_partial := []\<rparr> in
      case take_line c line st of
        (Some e, st) \<Rightarrow> (Some e, cur, st)
      | (None, st) \<Rightarrow>
          read_lines c chunks fails (cur\<lparr>cu_offset := cu_offset cur + of_nat (length line)\<rparr>) st)"

definition scan_file ::
    "'w collector \<Rightarrow> node \<Rightarrow> (string \<Rightarrow> nat option) \<Rightarrow> (collect_error, 'w col_state) walk_fn" where
  "scan_file c fs brk p isdir st =
     (if isdir \<or> \<not> has_suffix p ''.jsonl'' then (WOk, st)
      else case os_Open fs p of
        Inl _ \<Rightarrow> (WOk, st)
      | Inr f \<Rightarrow>
          let fid = fileIdentity p in
          (case col_load c fid st of
             (Inl _, st) \<Rightarrow> (WOk, st)
           | (Inr cur, st) \<Rightarrow>
               let size = of_nat (length (rd_data f)) :: int64;
                   resume = cu_offset cur + of_nat (length (cu_partial cur));
                   reset = sint size < sint resume;
                   cur = (if reset then cursor0 else cur);
                   resume = (if reset then 0 else resume)
               in if sint resume < 0 then (WOk, st)
                  else
                    let data = drop (nat (sint resume)) (rd_data f);
                        data' = (case brk p of None \<Rightarrow> data | Some n \<Rightarrow> take n data)
                    in (case read_lines c (split_ch newline data') (rd_fails f \<or> brk p \<noteq> None) cur st of
                          (Some e, _, st) \<Rightarrow> (WErr e, st)
                        | (None, cur, st) \<Rightarrow>
                            (case col_save c fid p cur st of
                               (None, st) \<Rightarrow> (WOk, st)
                             | (Some e, st) \<Rightarrow> (WErr e, st)))))"

definition Scan ::
    "'w collector \<Rightarrow> node \<Rightarrow> (string \<Rightarrow> nat option) \<Rightarrow> 'w col_state \<Rightarrow> collect_error option \<times> 'w col_state" where
  "Scan c fs brk st =
     (case WalkDir fs (uc_Dir c) (\<lambda>_. WOk) (scan_file c fs brk) st of
        (WErr e, st) \<Rightarrow> (Some e, st)
      | (_, st) \<Rightarrow> (None, st))"

section \<open>The lines of a file\<close>

definition full_lines :: "bytes \<Rightarrow> bytes list" where
  "full_lines b = butlast (split_ch newline b)"

definition tail_line :: "bytes \<Rightarrow> bytes" where
  "tail_line b = last (split_ch newline b)"

text \<open>The complete lines with their newlines.\<close>

abbreviation ended :: "bytes \<Rightarrow> bytes list" where
  "ended b \<equiv> map (\<lambda>l. l @ [newline]) (full_lines b)"

definition line_events :: "line_codec \<Rightarrow> bytes list \<Rightarrow> usage_event list" where
  "line_events lc ls = concat (map (\<lambda>l. case parseLine lc l of UsageEvent e \<Rightarrow> [e] | _ \<Rightarrow> []) ls)"

definition bad_lines :: "line_codec \<Rightarrow> bytes list \<Rightarrow> nat" where
  "bad_lines lc ls = length (filter (\<lambda>l. parseLine lc l = BadLine) ls)"

text \<open>The cursor after reading the bytes \<open>b\<close>.\<close>

definition cursor_at :: "bytes \<Rightarrow> cursor" where
  "cursor_at b = \<lparr>cu_offset = of_nat (length b - length (tail_line b)), cu_partial = tail_line b\<rparr>"

lemma split_any_append:
  "split_ch c (b @ x) = butlast (split_ch c b) @ (last (split_ch c b) @ hd (split_ch c x)) # tl (split_ch c x)"
proof (induction b)
  case Nil
  then show ?case by (cases "split_ch c x") (auto simp: split_ch_nonempty)
next
  case (Cons a b)
  then show ?case
    by (cases "split_ch c b") (auto simp: split_ch_nonempty split: list.split)
qed

lemma lines_split: "split_ch newline b = full_lines b @ [tail_line b]"
  by (simp add: full_lines_def tail_line_def)

lemma lines_append:
  "full_lines (b @ x) @ [tail_line (b @ x)] =
     full_lines b @ (tail_line b @ hd (split_ch newline x)) # tl (split_ch newline x)"
  unfolding lines_split[symmetric] split_any_append by (simp add: full_lines_def tail_line_def)

lemma join_snoc: "join_ch c (ls @ [l]) = concat (map (\<lambda>l. l @ [c]) ls) @ l"
proof (induction ls)
  case (Cons a ls)
  then show ?case by (cases "ls @ [l]") simp_all
qed simp

lemma lines_concat: "concat (ended b) @ tail_line b = b"
  using join_split[of newline b] by (simp add: lines_split join_snoc)

lemma length_lines: "length b = length (concat (ended b)) + length (tail_line b)"
  using arg_cong[OF lines_concat[of b], of length] by simp

lemma line_events_append [simp]: "line_events lc (xs @ ys) = line_events lc xs @ line_events lc ys"
  by (simp add: line_events_def)

lemma bad_lines_append [simp]: "bad_lines lc (xs @ ys) = bad_lines lc xs + bad_lines lc ys"
  by (simp add: bad_lines_def)

lemma line_events_Cons: "line_events lc (l # ls) = line_events lc [l] @ line_events lc ls"
  by (simp add: line_events_def)

lemma bad_lines_Cons: "bad_lines lc (l # ls) = bad_lines lc [l] + bad_lines lc ls"
  by (simp add: bad_lines_def)

text \<open>The file up to its last newline.\<close>

definition cut_tail :: "bytes \<Rightarrow> bytes" where
  "cut_tail b = take (length b - length (tail_line b)) b"

lemma cut_tail_lines: "full_lines (cut_tail b) = full_lines b" "tail_line (cut_tail b) = []"
  "length (cut_tail b) = length b - length (tail_line b)" "prefix (cut_tail b) b"
proof -
  have n: "newline \<notin> set l" if "l \<in> set (full_lines b)" for l
    using that split_ch_no_sep[of l newline b] by (simp add: lines_split)
  have c: "cut_tail b = concat (ended b)"
    unfolding cut_tail_def by (subst (3) lines_concat[of b, symmetric]) (simp add: length_lines[of b])
  then have "cut_tail b = join_ch newline (full_lines b @ [[]])" by (simp add: join_snoc)
  then have "split_ch newline (cut_tail b) = full_lines b @ [[]]"
    using n by (simp add: split_join)
  then show "full_lines (cut_tail b) = full_lines b" "tail_line (cut_tail b) = []"
    by (simp_all add: full_lines_def tail_line_def)
  show "length (cut_tail b) = length b - length (tail_line b)" by (simp add: cut_tail_def)
  show "prefix (cut_tail b) b" by (simp add: cut_tail_def take_is_prefix)
qed

section \<open>The loop on lines\<close>

fun take_lines :: "'w collector \<Rightarrow> bytes list \<Rightarrow> 'w col_state \<Rightarrow> collect_error option \<times> 'w col_state" where
  "take_lines c [] st = (None, st)"
| "take_lines c (l # ls) st =
     (case take_line c l st of (Some e, st) \<Rightarrow> (Some e, st) | (None, st) \<Rightarrow> take_lines c ls st)"

text \<open>The lines the loop completes: the first one starts with the pending half line.\<close>

abbreviation pending :: "cursor \<Rightarrow> bytes list \<Rightarrow> bytes list" where
  "pending cur chunks \<equiv> (cu_partial cur @ hd chunks) # tl chunks"

lemma read_lines_error:
  "chunks \<noteq> [] \<Longrightarrow> take_lines c (map (\<lambda>l. l @ [newline]) (butlast (pending cur chunks))) st = (Some e, st1) \<Longrightarrow>
     \<exists>cur'. read_lines c chunks fails cur st = (Some e, cur', st1)"
proof (induction c chunks fails cur st rule: read_lines.induct)
  case (3 c chunk ch chs fails cur st)
  obtain r st2 where t: "take_line c (cu_partial cur @ chunk @ [newline]) st = (r, st2)" by fastforce
  with 3 show ?case by (cases r) (auto simp: Let_def)
qed simp_all

lemma read_lines_done:
  "chunks \<noteq> [] \<Longrightarrow> take_lines c (map (\<lambda>l. l @ [newline]) (butlast (pending cur chunks))) st = (None, st1) \<Longrightarrow>
     read_lines c chunks fails cur st =
       (None, if fails \<and> tl chunks = [] then cur
         else \<lparr>cu_offset = cu_offset cur + of_nat (length (concat (map (\<lambda>l. l @ [newline]) (butlast (pending cur chunks))))),
               cu_partial = if fails then [] else last (pending cur chunks)\<rparr>,
        if fails then st1\<lparr>uc_BadLines := uc_BadLines st1 + 1\<rparr> else st1)"
proof (induction chunks arbitrary: cur st)
  case (Cons chunk chs)
  show ?case
  proof (cases chs)
    case Nil
    with Cons.prems(2) show ?thesis by (cases cur) simp
  next
    case more: (Cons ch chs')
    let ?n = "cu_offset cur + of_nat (length (cu_partial cur @ chunk @ [newline]))"
    let ?cur1 = "\<lparr>cu_offset = ?n, cu_partial = []\<rparr>"
    have c1: "cur\<lparr>cu_partial := [], cu_offset := ?n\<rparr> = ?cur1" by simp
    obtain r st2 where t: "take_line c (cu_partial cur @ chunk @ [newline]) st = (r, st2)" by fastforce
    from Cons.prems(2) more t have r: "r = None" by (auto split: option.splits)
    from Cons.prems(2) more t r have rest: "take_lines c (map (\<lambda>l. l @ [newline]) (butlast (pending ?cur1 chs))) st2 = (None, st1)"
      by simp
    have "read_lines c (chunk # chs) fails cur st = read_lines c chs fails (cur\<lparr>cu_partial := [], cu_offset := ?n\<rparr>) st2"
      using more t r by (simp add: Let_def)
    with Cons.IH[OF _ rest] more show ?thesis unfolding c1 by (simp add: add.assoc)
  qed
qed simp

lemma take_lines_log:
  assumes "take_lines c (map (\<lambda>l. l @ [newline]) ls) st = (r, st')"
  shows "\<exists>es. uc_sent st' = uc_sent st @ es \<and> (r = None \<longrightarrow> es = line_events (uc_codec c) (map (\<lambda>l. l @ [newline]) ls) \<and>
    uc_BadLines st' = uc_BadLines st + of_nat (bad_lines (uc_codec c) (map (\<lambda>l. l @ [newline]) ls)))"
  using assms
proof (induction ls arbitrary: st)
  case Nil
  then show ?case by (simp add: line_events_def bad_lines_def)
next
  case (Cons l ls)
  obtain r1 st1 where t: "take_line c (l @ [newline]) st = (r1, st1)" by fastforce
  then have one: "\<exists>es. uc_sent st1 = uc_sent st @ es \<and> (r1 = None \<longrightarrow> es = line_events (uc_codec c) [l @ [newline]] \<and>
      uc_BadLines st1 = uc_BadLines st + of_nat (bad_lines (uc_codec c) [l @ [newline]]))"
    by (auto simp: take_line_def line_events_def bad_lines_def split: parsed.splits prod.splits option.splits)
  show ?case
  proof (cases r1)
    case None
    with Cons.prems t have "take_lines c (map (\<lambda>l. l @ [newline]) ls) st1 = (r, st')" by simp
    from Cons.IH[OF this] one None show ?thesis
      by (auto simp: line_events_Cons[of _ "l @ [newline]" "map _ ls"] bad_lines_Cons[of _ "l @ [newline]" "map _ ls"])
  next
    case (Some e)
    with Cons.prems t one show ?thesis by auto
  qed
qed

lemma cursor_at_alt: "cursor_at b = \<lparr>cu_offset = of_nat (length (concat (ended b))), cu_partial = tail_line b\<rparr>"
  using length_lines[of b] by (simp add: cursor_at_def)

lemma cursor_at_Nil: "cursor_at [] = cursor0"
  by (simp add: cursor_at_def cursor0_def tail_line_def)

definition resume_at :: "cursor \<Rightarrow> int64" where
  "resume_at cur = cu_offset cur + of_nat (length (cu_partial cur))"

lemma resume_cursor_at: "int (length b) < 2 ^ 63 \<Longrightarrow> sint (resume_at (cursor_at b)) = int (length b)"
proof -
  have "resume_at (cursor_at b) = of_nat (length b)"
    using arg_cong[OF length_lines[of b], of "of_nat :: nat \<Rightarrow> int64"]
    by (simp add: resume_at_def cursor_at_alt)
  then show "int (length b) < 2 ^ 63 \<Longrightarrow> sint (resume_at (cursor_at b)) = int (length b)"
    by (simp add: sint_length)
qed

text \<open>A cursor tracks a file if it is the cursor of a part of it whose events have all been delivered.\<close>

definition tracks :: "line_codec \<Rightarrow> usage_event list \<Rightarrow> cursor \<Rightarrow> bytes \<Rightarrow> bool" where
  "tracks lc sent cur B \<longleftrightarrow> (\<exists>b. prefix b B \<and> cur = cursor_at b \<and> set (line_events lc (ended b)) \<subseteq> set sent)"

lemma tracks_mono: "tracks lc sent cur B \<Longrightarrow> prefix B B' \<Longrightarrow> set sent \<subseteq> set sent' \<Longrightarrow> tracks lc sent' cur B'"
  unfolding tracks_def using prefix_order.trans by blast

lemma read_rest:
  assumes "read_lines c (split_ch newline y) fails (cursor_at b) st = (r, cur', st1)"
    and "set (line_events (uc_codec c) (ended b)) \<subseteq> set (uc_sent st)"
  shows "(\<exists>es. uc_sent st1 = uc_sent st @ es) \<and> (r = None \<longrightarrow> tracks (uc_codec c) (uc_sent st1) cur' (b @ y) \<and>
    (\<not> fails \<longrightarrow> cur' = cursor_at (b @ y) \<and>
       (\<exists>ls. ended (b @ y) = ended b @ ls \<and> uc_sent st1 = uc_sent st @ line_events (uc_codec c) ls \<and>
          uc_BadLines st1 = uc_BadLines st + of_nat (bad_lines (uc_codec c) ls))))"
proof -
  let ?ch = "split_ch newline y" and ?lc = "uc_codec c"
  have ne: "?ch \<noteq> []" by simp
  define ps where "ps = pending (cursor_at b) ?ch"
  have "full_lines (b @ y) @ [tail_line (b @ y)] = full_lines b @ ps"
    unfolding ps_def lines_append by (simp add: cursor_at_def)
  moreover have "ps \<noteq> []" by (simp add: ps_def)
  ultimately have bl: "full_lines (b @ y) = full_lines b @ butlast ps" "tail_line (b @ y) = last ps"
    by (metis butlast_append butlast_snoc, metis last_appendR last_snoc)
  obtain r1 st2 where t: "take_lines c (map (\<lambda>l. l @ [newline]) (butlast ps)) st = (r1, st2)" by fastforce
  from take_lines_log[OF t] obtain es where es: "uc_sent st2 = uc_sent st @ es"
    "r1 = None \<longrightarrow> es = line_events ?lc (map (\<lambda>l. l @ [newline]) (butlast ps)) \<and>
      uc_BadLines st2 = uc_BadLines st + of_nat (bad_lines ?lc (map (\<lambda>l. l @ [newline]) (butlast ps)))" by blast
  show ?thesis
  proof (cases r1)
    case (Some e)
    from read_lines_error[OF ne, of c "cursor_at b" st e st2 fails] t Some assms(1) es(1)
    show ?thesis by (auto simp: ps_def)
  next
    case None
    let ?cur2 = "\<lparr>cu_offset = cu_offset (cursor_at b) + of_nat (length (concat (map (\<lambda>l. l @ [newline]) (butlast ps)))),
               cu_partial = if fails then [] else last ps\<rparr>"
    from read_lines_done[OF ne, of c "cursor_at b" st st2 fails] t None
    have R: "r = None" "cur' = (if fails \<and> tl ?ch = [] then cursor_at b else ?cur2)"
      "uc_sent st1 = uc_sent st2" "\<not> fails \<Longrightarrow> st1 = st2"
      using assms(1) by (auto simp: ps_def)
    have off: "cu_offset ?cur2 = of_nat (length (concat (ended (b @ y))))" by (simp add: cursor_at_alt bl(1))
    have ev: "set (line_events ?lc (ended (b @ y))) \<subseteq> set (uc_sent st1)"
      using assms(2) es None R(3) by (auto simp: bl(1))
    have "?cur2 = cursor_at (if fails then cut_tail (b @ y) else b @ y)"
      using off bl(2) cut_tail_lines(1,2)[of "b @ y"] by (simp add: cursor_at_alt)
    then have "tracks ?lc (uc_sent st1) ?cur2 (b @ y)"
      using ev cut_tail_lines(1,4)[of "b @ y"] unfolding tracks_def
      by (intro exI[of _ "if fails then cut_tail (b @ y) else b @ y"]) auto
    moreover have "tracks ?lc (uc_sent st1) (cursor_at b) (b @ y)"
      using assms(2) R(3) es(1) unfolding tracks_def by (intro exI[of _ b]) auto
    ultimately have "tracks ?lc (uc_sent st1) cur' (b @ y)" using R(2) by simp
    moreover have "cur' = cursor_at (b @ y)" if "\<not> fails"
      using that R(2) off bl(2) by (simp add: cursor_at_alt)
    ultimately show ?thesis
      using R es None bl(1) by auto
  qed
qed

section \<open>The interface of the cursors\<close>

definition file_data :: "node \<Rightarrow> string \<Rightarrow> bytes" where
  "file_data fs p = (case os_Open fs p of Inl _ \<Rightarrow> [] | Inr f \<Rightarrow> rd_data f)"

lemma sent_load: "col_load c p st = (r, st') \<Longrightarrow> uc_sent st' = uc_sent st \<and> uc_BadLines st' = uc_BadLines st"
  by (auto simp: col_load_def split: option.splits sum.splits prod.splits)

lemma sent_save: "col_save c p path cur st = (r, st') \<Longrightarrow> uc_sent st' = uc_sent st \<and> uc_BadLines st' = uc_BadLines st"
  by (auto simp: col_save_def split: option.splits prod.splits)

text \<open>What \<open>Scan\<close> relies on: \<open>cursor st p\<close> is what \<open>col_load\<close> finds, a save that succeeds sets it, one
  that fails may or may not, and taking lines does not touch it.\<close>

locale cursor_store =
  fixes c :: "'w collector"
    and cursor :: "'w col_state \<Rightarrow> string \<Rightarrow> cursor"
  assumes load: "col_load c p st = (r, st') \<Longrightarrow> cursor st' = cursor st \<and> (\<forall>cur. r = Inr cur \<longrightarrow> cur = cursor st p)"
    and save: "col_save c p path cur st = (rs, st') \<Longrightarrow>
          cursor st' = (cursor st)(p := cur) \<or> (rs \<noteq> None \<and> cursor st' = cursor st)"
    and taken: "take_line c l st = (rs, st') \<Longrightarrow> cursor st' = cursor st"
    and counted: "cursor (st\<lparr>uc_BadLines := n\<rparr>) = cursor st"
begin

lemma cursor_read: "read_lines c chunks fails cur st = (r, cur', st') \<Longrightarrow> cursor st' = cursor st"
proof (induction chunks arbitrary: cur st)
  case (Cons chunk chs)
  show ?case
  proof (cases chs)
    case Nil
    with Cons.prems show ?thesis by (auto simp: counted split: if_splits)
  next
    case more: (Cons ch chs')
    obtain r1 st1 where t: "take_line c (cu_partial cur @ chunk @ [newline]) st = (r1, st1)" by fastforce
    with Cons more show ?thesis using taken[OF t] by (cases r1) (auto simp: Let_def)
  qed
qed simp

text \<open>\<open>good\<close>: the cursor tracks the file, or is beyond its end because the file was cut; then \<open>Scan\<close>
  starts again.\<close>

definition good :: "'w col_state \<Rightarrow> string \<Rightarrow> bytes \<Rightarrow> bool" where
  "good st p B \<longleftrightarrow> tracks (uc_codec c) (uc_sent st) (cursor st p) B \<or> int (length B) < sint (resume_at (cursor st p))"

lemma good_mono: "good st p B \<Longrightarrow> cursor st' p = cursor st p \<Longrightarrow> set (uc_sent st) \<subseteq> set (uc_sent st') \<Longrightarrow> good st' p B"
  unfolding good_def using tracks_mono by (metis prefix_order.refl)

text \<open>One file: from a good cursor the loop continues after the part \<open>b\<close> that is done.\<close>

lemma scan_open:
  assumes sc: "scan_file c fs brk p False st = (res, st')" and jl: "has_suffix p ''.jsonl''"
    and op: "os_Open fs p = Inr f" and ld: "col_load c p st = (Inr cur, st0)"
    and small: "int (length (rd_data f)) < 2 ^ 63" and g: "good st p (rd_data f)"
  obtains b y r cur' st1 where "prefix (b @ y) (rd_data f)" "brk p = None \<longrightarrow> b @ y = rd_data f"
    "set (line_events (uc_codec c) (ended b)) \<subseteq> set (uc_sent st0)"
    "tracks (uc_codec c) (uc_sent st) (cursor st p) (rd_data f) \<longrightarrow> cursor_at b = cursor st p"
    "read_lines c (split_ch newline y) (rd_fails f \<or> brk p \<noteq> None) (cursor_at b) st0 = (r, cur', st1)"
    "case r of Some e \<Rightarrow> res = WErr e \<and> st' = st1
     | None \<Rightarrow> (\<exists>rs. col_save c p p cur' st1 = (rs, st') \<and> res = (case rs of None \<Rightarrow> WOk | Some e \<Rightarrow> WErr e))"
proof -
  let ?B = "rd_data f" and ?lc = "uc_codec c"
  have cur: "cur = cursor st p" "uc_sent st0 = uc_sent st" using load[OF ld] sent_load[OF ld] by simp_all
  define reset where "reset \<longleftrightarrow> sint (of_nat (length ?B) :: int64) < sint (resume_at cur)"
  have reset: "reset \<longleftrightarrow> int (length ?B) < sint (resume_at cur)" using small by (simp add: reset_def sint_length)
  obtain b where b: "prefix b ?B" "(if reset then cursor0 else cur) = cursor_at b"
    "set (line_events ?lc (ended b)) \<subseteq> set (uc_sent st0)" "tracks ?lc (uc_sent st) (cursor st p) ?B \<longrightarrow> cursor_at b = cursor st p"
    "(if reset then 0 else resume_at cur) = resume_at (cursor_at b)"
  proof (cases "tracks ?lc (uc_sent st) (cursor st p) ?B")
    case True
    then obtain b where b: "prefix b ?B" "cur = cursor_at b" "set (line_events ?lc (ended b)) \<subseteq> set (uc_sent st)"
      unfolding cur(1) tracks_def by blast
    have "int (length b) \<le> int (length ?B)" using prefix_length_le[OF b(1)] by simp
    then have "\<not> reset" unfolding reset b(2) using resume_cursor_at[of b] small by simp
    with b cur that show thesis by simp
  next
    case False
    with g have "reset" unfolding reset cur(1) good_def by simp
    moreover have "full_lines [] = []" by (simp add: full_lines_def)
    ultimately show thesis
      using False that[of "[]"] by (simp add: cursor_at_Nil line_events_def resume_at_def cursor0_def)
  qed
  have lb: "sint (resume_at (cursor_at b)) = int (length b)"
    by (rule resume_cursor_at) (use prefix_length_le[OF b(1)] small in linarith)
  define y where "y = (case brk p of None \<Rightarrow> drop (length b) ?B | Some n \<Rightarrow> take n (drop (length b) ?B))"
  obtain x where x: "?B = b @ x" using b(1) by (auto simp: prefix_def)
  have y: "prefix (b @ y) ?B" "brk p = None \<longrightarrow> b @ y = ?B"
    by (auto simp: x y_def take_is_prefix split: option.split)
  obtain r cur' st1 where rl: "read_lines c (split_ch newline y) (rd_fails f \<or> brk p \<noteq> None) (cursor_at b) st0 = (r, cur', st1)"
    by (metis prod_cases3)
  have "scan_file c fs brk p False st =
      (case read_lines c (split_ch newline y) (rd_fails f \<or> brk p \<noteq> None) (cursor_at b) st0 of
         (Some e, _, st) \<Rightarrow> (WErr e, st)
       | (None, cur, st) \<Rightarrow> (case col_save c p p cur st of (None, st) \<Rightarrow> (WOk, st) | (Some e, st) \<Rightarrow> (WErr e, st)))"
    using jl op ld b(2,5) lb
    by (simp add: scan_file_def Let_def fileIdentity_def y_def resume_at_def[symmetric] reset_def[symmetric])
  with sc rl have fin: "case r of Some e \<Rightarrow> res = WErr e \<and> st' = st1
     | None \<Rightarrow> (\<exists>rs. col_save c p p cur' st1 = (rs, st') \<and> res = (case rs of None \<Rightarrow> WOk | Some e \<Rightarrow> WErr e))"
    by (auto split: option.splits prod.splits)
  show thesis by (rule that[OF y(1,2) b(3,4) rl fin])
qed

lemma scan_file_good:
  assumes sc: "scan_file c fs brk p isdir st = (res, st')" and small: "int (length (file_data fs p)) < 2 ^ 63"
    and g: "good st p (file_data fs p)"
  shows "(\<exists>es. uc_sent st' = uc_sent st @ es) \<and> (\<forall>q. q \<noteq> p \<longrightarrow> cursor st' q = cursor st q) \<and> good st' p (file_data fs p)"
proof (cases "isdir \<or> \<not> has_suffix p ''.jsonl'' \<or> (\<exists>e. os_Open fs p = Inl e)")
  case True
  have "st' = st"
  proof (cases "isdir \<or> \<not> has_suffix p ''.jsonl''")
    case True
    with sc show ?thesis by (simp add: scan_file_def split: if_splits)
  next
    case False
    with True obtain e where "os_Open fs p = Inl e" by blast
    with sc show ?thesis by (simp add: scan_file_def split: if_splits)
  qed
  with g show ?thesis by simp
next
  case False
  then obtain f where d: "\<not> isdir" "has_suffix p ''.jsonl''" "os_Open fs p = Inr f" by (cases "os_Open fs p") auto
  then have fd: "file_data fs p = rd_data f" by (simp add: file_data_def)
  obtain l st0 where ld: "col_load c p st = (l, st0)" by fastforce
  have st0: "cursor st0 = cursor st" "uc_sent st0 = uc_sent st" using load[OF ld] sent_load[OF ld] by simp_all
  show ?thesis
  proof (cases l)
    case (Inl e)
    with sc d ld have "st' = st0" by (simp add: scan_file_def Let_def fileIdentity_def)
    with st0 good_mono[OF g, of st0] show ?thesis by simp
  next
    case (Inr cur)
    from sc d(1) have "scan_file c fs brk p False st = (res, st')" by simp
    from scan_open[OF this d(2,3) ld[unfolded Inr] small[unfolded fd] g[unfolded fd]] obtain b y r cur' st1 where
      y: "prefix (b @ y) (rd_data f)" "brk p = None \<longrightarrow> b @ y = rd_data f"
      "set (line_events (uc_codec c) (ended b)) \<subseteq> set (uc_sent st0)"
      "tracks (uc_codec c) (uc_sent st) (cursor st p) (rd_data f) \<longrightarrow> cursor_at b = cursor st p"
      and rl: "read_lines c (split_ch newline y) (rd_fails f \<or> brk p \<noteq> None) (cursor_at b) st0 = (r, cur', st1)"
      and fin: "case r of Some e \<Rightarrow> res = WErr e \<and> st' = st1
         | None \<Rightarrow> (\<exists>rs. col_save c p p cur' st1 = (rs, st') \<and> res = (case rs of None \<Rightarrow> WOk | Some e \<Rightarrow> WErr e))" .
    note R = read_rest[OF rl y(3)]
    then obtain es where es: "uc_sent st1 = uc_sent st @ es" using st0(2) by auto
    have c1: "cursor st1 = cursor st" using cursor_read[OF rl] st0(1) by simp
    have keep: "good st1 p (rd_data f)" using good_mono[OF g[unfolded fd], of st1] es c1 by auto
    show ?thesis
    proof (cases r)
      case (Some e)
      with fin es c1 keep fd show ?thesis by simp
    next
      case None
      with fin obtain rs where sv: "col_save c p p cur' st1 = (rs, st')" by auto
      have s: "uc_sent st' = uc_sent st1" using sent_save[OF sv] by simp
      have "tracks (uc_codec c) (uc_sent st1) cur' (rd_data f)"
        using R None y(1) tracks_mono by blast
      with save[OF sv] c1 es keep s show ?thesis unfolding fd good_def by auto
    qed
  qed
qed

text \<open>A file that could be read to its end, with a cursor that could be loaded and saved, is delivered.\<close>

lemma scan_file_complete:
  assumes sc: "scan_file c fs brk p False st = (WOk, st')" and jl: "has_suffix p ''.jsonl''"
    and op: "os_Open fs p = Inr \<lparr>rd_data = B, rd_fails = False\<rparr>" and bk: "brk p = None"
    and ld: "col_load c p st = (Inr cur, st0)" and small: "int (length B) < 2 ^ 63" and g: "good st p B"
  shows "cursor st' p = cursor_at B \<and> set (line_events (uc_codec c) (ended B)) \<subseteq> set (uc_sent st') \<and>
    (\<forall>b. prefix b B \<longrightarrow> cursor st p = cursor_at b \<longrightarrow> set (line_events (uc_codec c) (ended b)) \<subseteq> set (uc_sent st) \<longrightarrow>
      (\<exists>ls. ended B = ended b @ ls \<and> uc_sent st' = uc_sent st @ line_events (uc_codec c) ls \<and>
         uc_BadLines st' = uc_BadLines st + of_nat (bad_lines (uc_codec c) ls)))"
proof -
  let ?f = "\<lparr>rd_data = B, rd_fails = False\<rparr>"
  have "int (length (rd_data ?f)) < 2 ^ 63" "good st p (rd_data ?f)" using small g by simp_all
  from scan_open[OF sc jl op ld this] obtain b y r cur' st1 where y0: "brk p = None \<longrightarrow> b @ y = rd_data ?f"
      "set (line_events (uc_codec c) (ended b)) \<subseteq> set (uc_sent st0)"
      "tracks (uc_codec c) (uc_sent st) (cursor st p) (rd_data ?f) \<longrightarrow> cursor_at b = cursor st p"
      and rl0: "read_lines c (split_ch newline y) (rd_fails ?f \<or> brk p \<noteq> None) (cursor_at b) st0 = (r, cur', st1)"
      and fin: "case r of Some e \<Rightarrow> WOk = WErr e \<and> st' = st1
         | None \<Rightarrow> (\<exists>rs. col_save c p p cur' st1 = (rs, st') \<and> WOk = (case rs of None \<Rightarrow> WOk | Some e \<Rightarrow> WErr e))"
    .
  have y: "b @ y = B"
      "set (line_events (uc_codec c) (ended b)) \<subseteq> set (uc_sent st0)"
      "tracks (uc_codec c) (uc_sent st) (cursor st p) B \<longrightarrow> cursor_at b = cursor st p"
      and rl: "read_lines c (split_ch newline y) False (cursor_at b) st0 = (r, cur', st1)"
    using y0 rl0 bk by simp_all
  from fin have n: "r = None" "col_save c p p cur' st1 = (None, st')" by (auto split: option.splits)
  note R = read_rest[OF rl y(2), unfolded y(1)] n(1)
  have st: "uc_sent st0 = uc_sent st" "uc_BadLines st0 = uc_BadLines st" using sent_load[OF ld] by simp_all
  have sv: "uc_sent st' = uc_sent st1" "uc_BadLines st' = uc_BadLines st1" "cursor st' p = cur'"
    using sent_save[OF n(2)] save[OF n(2)] by auto
  from R obtain ls where L: "cur' = cursor_at B" "ended B = ended b @ ls" "uc_sent st1 = uc_sent st0 @ line_events (uc_codec c) ls"
    "uc_BadLines st1 = uc_BadLines st0 + of_nat (bad_lines (uc_codec c) ls)" by auto
  have "\<exists>ls. ended B = ended b' @ ls \<and> uc_sent st' = uc_sent st @ line_events (uc_codec c) ls \<and>
         uc_BadLines st' = uc_BadLines st + of_nat (bad_lines (uc_codec c) ls)"
    if b': "prefix b' B" "cursor st p = cursor_at b'" "set (line_events (uc_codec c) (ended b')) \<subseteq> set (uc_sent st)" for b'
  proof -
    have "tracks (uc_codec c) (uc_sent st) (cursor st p) B" using b' unfolding tracks_def by blast
    with y(3) b'(2) have e: "cursor_at b = cursor_at b'" by simp
    have "prefix b B" using y(1) by (auto simp: prefix_def)
    with b'(1) small have "int (length b) < 2 ^ 63" "int (length b') < 2 ^ 63"
      by (meson le_less_trans of_nat_mono prefix_length_le)+
    with e have "length b = length b'" using resume_cursor_at[of b] resume_cursor_at[of b'] by simp
    with \<open>prefix b B\<close> b'(1) have "b = b'" by (auto simp: prefix_def)
    with L sv st show ?thesis by auto
  qed
  moreover have "set (line_events (uc_codec c) (ended B)) \<subseteq> set (uc_sent st')"
    using L(2,3) sv(1) y(2) by auto
  ultimately show ?thesis using sv(3) L(1) by blast
qed

end

text \<open>The cursors in memory, as \<open>col_load\<close> and \<open>col_save\<close> keep them without an offset store.\<close>

definition mem_cursor :: "'w col_state \<Rightarrow> string \<Rightarrow> cursor" where
  "mem_cursor st p = (case uc_mem st p of None \<Rightarrow> cursor0 | Some cur \<Rightarrow> cur)"

definition in_memory :: "'w collector \<Rightarrow> 'w collector" where
  "in_memory c = c\<lparr>uc_Offsets := None\<rparr>"

interpretation mc: cursor_store "in_memory c" mem_cursor for c
  by unfold_locales
    (auto simp: in_memory_def col_load_def col_save_def take_line_def mem_cursor_def fun_eq_iff
      split: parsed.splits prod.splits option.splits)

lemma mc_good: "uc_Offsets c = None \<Longrightarrow> mc.good c st p B \<longleftrightarrow>
    tracks (uc_codec c) (uc_sent st) (mem_cursor st p) B \<or> int (length B) < sint (resume_at (mem_cursor st p))"
  by (simp add: mc.good_def) (simp add: in_memory_def)

lemma in_memory_same: "uc_Offsets c = None \<Longrightarrow> in_memory c = c"
  by (simp add: in_memory_def)

lemma in_memory_codec [simp]: "uc_codec (in_memory c) = uc_codec c"
  by (simp add: in_memory_def)

section \<open>Histories of scans\<close>











section \<open>Scanning in steps and parsing at once\<close>

text \<open>White space at the end of a line does not matter.\<close>

definition trims :: "bytes list \<Rightarrow> char \<Rightarrow> bool" where
  "trims ws w \<longleftrightarrow> [w] \<in> set ws \<and> (\<forall>v \<in> set ws. v \<noteq> [] \<and> (w \<in> set v \<longrightarrow> v = [w]))"

lemma find_space:
  assumes "trims ws w"
  shows "find (\<lambda>v. prefix v (w # s)) ws = Some [w]"
proof -
  have "\<not> (\<nexists>v. v \<in> set ws \<and> prefix v (w # s))" using assms by (auto simp: trims_def intro!: exI[of _ "[w]"])
  then have "find (\<lambda>v. prefix v (w # s)) ws \<noteq> None" unfolding find_None_iff .
  then obtain v where v: "find (\<lambda>v. prefix v (w # s)) ws = Some v" by blast
  then have "v \<in> set ws" "prefix v (w # s)" by (auto simp: find_Some_iff)
  with assms have "v = [w]" by (cases v) (auto simp: trims_def)
  with v show ?thesis by simp
qed

lemma find_space_snoc:
  assumes "trims ws w" "s \<noteq> []"
  shows "find (\<lambda>v. prefix v (s @ [w])) ws = find (\<lambda>v. prefix v s) ws"
proof (rule find_cong[OF refl])
  fix v assume "v \<in> set ws"
  with assms have "v \<noteq> s @ [w]" by (auto simp: trims_def)
  then show "prefix v (s @ [w]) = prefix v s" by simp
qed

lemma drop_spaces_Nil: "trims ws w \<Longrightarrow> drop_spaces k ws [] = []"
proof -
  assume "trims ws w"
  then have "find (\<lambda>v. prefix v []) ws = None" by (auto simp: trims_def find_None_iff)
  then show ?thesis by (cases k) simp_all
qed

lemma drop_spaces_snoc:
  assumes "trims ws w"
  shows "length s \<le> k \<Longrightarrow> drop_spaces (Suc k) ws (s @ [w]) =
    (if drop_spaces k ws s = [] then [] else drop_spaces k ws s @ [w])"
proof (induction k arbitrary: s)
  case 0
  then show ?case using find_space[OF assms, of "[]"] by simp
next
  case (Suc k)
  show ?case
  proof (cases "s = []")
    case True
    then show ?thesis using find_space[OF assms, of "[]"] drop_spaces_Nil[OF assms] by simp
  next
    case False
    show ?thesis
    proof (cases "find (\<lambda>v. prefix v s) ws")
      case None
      then show ?thesis using False find_space_snoc[OF assms False] by simp
    next
      case (Some v)
      then have "v \<in> set ws" "prefix v s" by (auto simp: find_Some_iff)
      then obtain t where s: "s = v @ t" and "v \<noteq> []" using assms by (auto simp: trims_def prefix_def)
      then have "length t \<le> k" using Suc.prems by (cases v) auto
      from Suc.IH[OF this] Some show ?thesis using find_space_snoc[OF assms False] by (simp add: s)
    qed
  qed
qed

lemma TrimSpace_snoc:
  assumes "w \<in> {CHR 0x0A, CHR 0x0D}"
  shows "TrimSpace (s @ [w]) = TrimSpace s"
proof -
  have "trims go_spaces (CHR 0x0A)" "trims go_spaces (CHR 0x0D)"
    "trims (map rev go_spaces) (CHR 0x0A)" "trims (map rev go_spaces) (CHR 0x0D)" by code_simp+
  with assms have W: "trims go_spaces w" "trims (map rev go_spaces) w" by auto
  let ?l = "drop_spaces (length s) go_spaces s"
  have "drop_spaces (Suc (length s)) go_spaces (s @ [w]) = (if ?l = [] then [] else ?l @ [w])"
    by (rule drop_spaces_snoc[OF W(1)]) simp
  then show ?thesis using find_space[OF W(2)] by (simp add: TrimSpace_def Let_def)
qed

lemma parseLine_end: "parseLine lc (drop_cr l) = parseLine lc (l @ [newline])"
proof -
  have "TrimSpace (drop_cr l) = TrimSpace l"
  proof (cases "l \<noteq> [] \<and> last l = CHR 0x0D")
    case True
    then obtain l' where "l = l' @ [CHR 0x0D]" by (metis append_butlast_last_id)
    then show ?thesis using TrimSpace_snoc[of "CHR 0x0D" l'] by (simp add: drop_cr_def)
  next
    case False
    then have "drop_cr l = l" by (auto simp: drop_cr_def)
    then show ?thesis by simp
  qed
  then have "TrimSpace (drop_cr l) = TrimSpace (l @ [newline])" using TrimSpace_snoc by simp
  then show ?thesis by (simp add: parseLine_def)
qed

lemma parse_fold:
  "foldl (parse_step lc) (out, bad) (map drop_cr ls) =
     (out @ line_events lc (map (\<lambda>l. l @ [newline]) ls), bad + bad_lines lc (map (\<lambda>l. l @ [newline]) ls))"
  by (induction ls arbitrary: out bad)
    (auto simp: line_events_def bad_lines_def parse_step_def parseLine_end split: parsed.splits)

lemma scanner_all: "\<forall>l \<in> set ls. length l < limit \<Longrightarrow> scanner_lines limit (ls @ [[]]) = ls"
proof (induction ls)
  case (Cons l ls)
  then show ?case by (cases "ls @ [[]]") auto
qed simp

lemma ParseLines_ended:
  assumes "tail_line (rd_data r) = []" "\<forall>l \<in> set (full_lines (rd_data r)). length l < 8 * 2 ^ 20"
  shows "ParseLines lc r = (line_events lc (ended (rd_data r)), bad_lines lc (ended (rd_data r)))"
  using scanner_all[OF assms(2)] by (simp add: ParseLines_def lines_split assms(1) parse_fold)

lemma read_lines_accepts:
  assumes "\<And>e n w. fst (uc_Insert c (uc_ProjectID c) e n w) = None"
  shows "fst (read_lines c chunks fails cur st) = None"
proof (induction chunks arbitrary: cur st)
  case (Cons chunk chs)
  show ?case
  proof (cases chs)
    case Nil
    then show ?thesis by simp
  next
    case more: (Cons ch chs')
    have "fst (take_line c l st) = None" for l
      using assms by (auto simp: take_line_def split: parsed.split prod.split option.split) (metis fst_conv option.distinct(1))
    then obtain st1 where "take_line c (cu_partial cur @ chunk @ [newline]) st = (None, st1)" by (metis prod.collapse)
    with Cons.IH more show ?thesis by (simp add: Let_def)
  qed
qed simp

lemma scan_file_accepts:
  assumes "\<And>e n w. fst (uc_Insert c (uc_ProjectID c) e n w) = None" "uc_Offsets c = None"
  shows "fst (scan_file c fs brk p d st) = WOk"
proof -
  have "fst (read_lines c chunks fails cur st) = None" for chunks fails cur st
    by (rule read_lines_accepts[OF assms(1)])
  then have "read_lines c chunks fails cur st \<noteq> (Some e, cur', st')" for chunks fails cur st e cur' st'
    by (metis fst_conv option.distinct(1))
  then show ?thesis
    using assms(2) by (auto simp: scan_file_def col_load_def col_save_def Let_def split: sum.split prod.split option.split)
qed

lemma scan_versions:
  assumes c: "uc_Offsets c = None" "\<And>e n w. fst (uc_Insert c (uc_ProjectID c) e n w) = None"
    and p: "has_suffix p ''.jsonl''"
  shows "list_all2 (\<lambda>fs B. os_Open fs p = Inr \<lparr>rd_data = B, rd_fails = False\<rparr>) fss Bs \<Longrightarrow>
    sorted_wrt prefix (b # Bs) \<Longrightarrow> int (length (last (b # Bs))) < 2 ^ 63 \<Longrightarrow>
    mem_cursor st p = cursor_at b \<Longrightarrow> uc_sent st = sent0 @ line_events (uc_codec c) (ended b) \<Longrightarrow>
    uc_BadLines st = bad0 + of_nat (bad_lines (uc_codec c) (ended b)) \<Longrightarrow>
    st' = foldl (\<lambda>st fs. snd (scan_file c fs (\<lambda>_. None) p False st)) st fss \<Longrightarrow>
    uc_sent st' = sent0 @ line_events (uc_codec c) (ended (last (b # Bs))) \<and>
    uc_BadLines st' = bad0 + of_nat (bad_lines (uc_codec c) (ended (last (b # Bs))))"
proof (induction fss arbitrary: Bs b st)
  case Nil
  then show ?case by simp
next
  case (Cons fs fss)
  then obtain B Bs' where Bs: "Bs = B # Bs'" "os_Open fs p = Inr \<lparr>rd_data = B, rd_fails = False\<rparr>"
    "list_all2 (\<lambda>fs B. os_Open fs p = Inr \<lparr>rd_data = B, rd_fails = False\<rparr>) fss Bs'"
    by (cases Bs) auto
  obtain r st1 where s: "scan_file c fs (\<lambda>_. None) p False st = (r, st1)" by fastforce
  with scan_file_accepts[OF c(2,1), of fs "\<lambda>_. None" p False st]
  have s': "scan_file (in_memory c) fs (\<lambda>_. None) p False st = (WOk, st1)" using in_memory_same[OF c(1)] by simp
  have pre: "prefix b B" using Cons.prems(2) Bs(1) by simp
  have "prefix B (last (B # Bs'))" using Cons.prems(2) Bs(1) by (cases Bs' rule: rev_cases) auto
  then have small: "int (length B) < 2 ^ 63"
    using Cons.prems(3) Bs(1) prefix_length_le[of B "last (B # Bs')"] by (simp split: if_splits)
  have ev: "set (line_events (uc_codec c) (ended b)) \<subseteq> set (uc_sent st)" using Cons.prems(5) by auto
  then have g: "mc.good c st p B" unfolding mc_good[OF c(1)] tracks_def using pre Cons.prems(4) by blast
  have ld: "col_load (in_memory c) p st = (Inr (mem_cursor st p), st)"
    by (simp add: col_load_def in_memory_def mem_cursor_def)
  from mc.scan_file_complete[OF s' p Bs(2) refl ld small g, unfolded in_memory_codec] pre Cons.prems(4) ev obtain ls
    where L: "mem_cursor st1 p = cursor_at B" "ended B = ended b @ ls"
      "uc_sent st1 = uc_sent st @ line_events (uc_codec c) ls"
      "uc_BadLines st1 = uc_BadLines st + of_nat (bad_lines (uc_codec c) ls)" by metis
  have "uc_sent st' = sent0 @ line_events (uc_codec c) (ended (last (B # Bs'))) \<and>
      uc_BadLines st' = bad0 + of_nat (bad_lines (uc_codec c) (ended (last (B # Bs'))))"
  proof (rule Cons.IH[OF Bs(3) _ _ L(1)])
    show "sorted_wrt prefix (B # Bs')" using Cons.prems(2) Bs(1) by simp
    show "int (length (last (B # Bs'))) < 2 ^ 63" using Cons.prems(3) Bs(1) by simp
    show "uc_sent st1 = sent0 @ line_events (uc_codec c) (ended B)" using L Cons.prems(5) by simp
    show "uc_BadLines st1 = bad0 + of_nat (bad_lines (uc_codec c) (ended B))" using L Cons.prems(6) by simp
    show "st' = foldl (\<lambda>st fs. snd (scan_file c fs (\<lambda>_. None) p False st)) st1 fss" using Cons.prems(7) s by simp
  qed
  with Bs(1) show ?case by simp
qed

section \<open>Properties\<close>


definition demo_lines :: line_codec where
  "demo_lines = \<lparr>lc_json = (\<lambda>b. case b of
       c # i \<Rightarrow> if c = CHR ''x'' then None
         else Some \<lparr>rl_Type = (if c = CHR ''a'' then ''assistant'' else ''user''), rl_RequestID = i, rl_Timestamp = '''',
           rl_Model = ''m'', rl_Usage = Some \<lparr>ru_Input = 1, ru_Output = 2, ru_CacheRead = 3, ru_CacheWrite = 4\<rparr>\<rparr>
     | [] \<Rightarrow> None), lc_time = (\<lambda>_. Some 0)\<rparr>"

text \<open>A sink that refuses the first \<open>n\<close> inserts.\<close>

definition demo_collector :: "nat collector" where
  "demo_collector = \<lparr>uc_Dir = ''/logs'', uc_ProjectID = ''p1'',
     uc_Insert = (\<lambda>_ _ _ n. if n = 0 then (None, 0) else (Some CollectError, n - 1)),
     uc_Weights = \<lparr>wt_Input = 1, wt_Output = 5, wt_CacheRead = 0, wt_CacheWrite = 1\<rparr>, uc_Offsets = None,
     uc_codec = demo_lines\<rparr>"

definition demo_logs :: "bytes \<Rightarrow> node" where
  "demo_logs b = Dir [(''logs'', Dir [(''s.jsonl'', File b)])]"

definition demo_log :: bytes where
  "demo_log = ''a1'' @ [newline] @ ''u'' @ [newline] @ ''a2'' @ [newline] @ ''a3''"

definition demo_col_state :: "nat col_state" where
  "demo_col_state = \<lparr>uc_mem = Map.empty, uc_BadLines = 0, uc_world = 1, uc_sent = []\<rparr>"



text \<open>C22. Scanning as the log grows is parsing it at once: with a sink that accepts, scanning the versions
  of a log one after the other delivers exactly the events, in order and each once, and counts exactly
  the bad lines, that \<open>ParseLines\<close> finds in the last version, if that ends with a newline and has no
  line of eight megabytes.\<close>

theorem incremental_scan_is_batch:
  assumes "uc_Offsets c = None" and "\<And>e n w. fst (uc_Insert c (uc_ProjectID c) e n w) = None"
    and "has_suffix p ''.jsonl''"
    and "list_all2 (\<lambda>fs B. os_Open fs p = Inr \<lparr>rd_data = B, rd_fails = False\<rparr>) fss Bs"
    and "sorted_wrt prefix Bs" and "Bs \<noteq> []" and "int (length (last Bs)) < 2 ^ 63"
    and "tail_line (last Bs) = []" and "\<forall>l \<in> set (full_lines (last Bs)). length l < 8 * 2 ^ 20"
    and "uc_mem st p = None"
    and "st' = foldl (\<lambda>st fs. snd (scan_file c fs (\<lambda>_. None) p False st)) st fss"
  shows "uc_sent st' = uc_sent st @ fst (ParseLines (uc_codec c) \<lparr>rd_data = last Bs, rd_fails = f\<rparr>) \<and>
    uc_BadLines st' = uc_BadLines st + of_nat (snd (ParseLines (uc_codec c) \<lparr>rd_data = last Bs, rd_fails = f\<rparr>))"
proof -
  have n: "full_lines [] = []" by (simp add: full_lines_def)
  have cur: "mem_cursor st p = cursor_at []" using assms(10) by (simp add: mem_cursor_def cursor_at_Nil)
  have sw: "sorted_wrt prefix ([] # Bs)" using assms(5) by simp
  have "ParseLines (uc_codec c) \<lparr>rd_data = last Bs, rd_fails = f\<rparr> =
      (line_events (uc_codec c) (ended (last Bs)), bad_lines (uc_codec c) (ended (last Bs)))"
    using ParseLines_ended[of "\<lparr>rd_data = last Bs, rd_fails = f\<rparr>"] assms(8,9) by simp
  with scan_versions[OF assms(1-4) sw _ cur _ _ assms(11), of "uc_sent st" "uc_BadLines st"] assms(6,7) n
  show ?thesis by (simp add: line_events_def bad_lines_def)
qed

definition demo_open :: "nat collector" where
  "demo_open = demo_collector\<lparr>uc_Insert := \<lambda>_ _ _ n. (None, n)\<rparr>"

theorem incremental_scan_is_batch_witness:
  "uc_sent (foldl (\<lambda>st fs. snd (scan_file demo_open fs (\<lambda>_. None) ''/logs/s.jsonl'' False st)) demo_col_state
      [demo_logs demo_log, demo_logs (demo_log @ [newline])]) =
    fst (ParseLines demo_lines \<lparr>rd_data = demo_log @ [newline], rd_fails = False\<rparr>)"
proof -
  let ?Bs = "[demo_log, demo_log @ [newline]]"
  have o: "list_all2 (\<lambda>fs B. os_Open fs ''/logs/s.jsonl'' = Inr \<lparr>rd_data = B, rd_fails = False\<rparr>)
      [demo_logs demo_log, demo_logs (demo_log @ [newline])] ?Bs" by code_simp
  have t: "tail_line (last ?Bs) = []" "list_all (\<lambda>l. length l < 5) (full_lines (last ?Bs))"
    "has_suffix ''/logs/s.jsonl'' ''.jsonl''" by code_simp+
  then have l: "\<forall>l \<in> set (full_lines (last ?Bs)). length l < 8 * 2 ^ 20" by (fastforce simp: list_all_iff)
  have c: "uc_Offsets demo_open = None" "uc_codec demo_open = demo_lines"
    "\<And>e n w. fst (uc_Insert demo_open (uc_ProjectID demo_open) e n w) = None"
    by (simp_all add: demo_open_def demo_collector_def)
  have b: "sorted_wrt prefix ?Bs" "?Bs \<noteq> []" "int (length (last ?Bs)) < 2 ^ 63" by (simp_all add: demo_log_def)
  have s: "uc_mem demo_col_state ''/logs/s.jsonl'' = None" "uc_sent demo_col_state = []" by (simp_all add: demo_col_state_def)
  from incremental_scan_is_batch[OF c(1,3) t(3) o b t(1) l s(1) refl, THEN conjunct1, unfolded c(2) s(2) append_Nil, of False]
  show ?thesis by simp
qed

end
