(* ===== verification/Cclaude.thy ===== *)
theory Cclaude
  imports Control_Client Usage_Collector Dir_Store
begin

text \<open>
  The control flow of \<^verbatim>\<open>cmd/cclaude/main.go\<close>: the main loop, the loop of \<open>runSync\<close>, and the cached key. What
  the loops call (the control API, a dial, a round of synchronisation, the terminal, the timers) are
  effects on a state \<open>'w\<close>, fields of \<open>env\<close>. Both loops may run for ever, so they are partial: \<open>None\<close> is a
  run that does not return. The two goroutines of the main loop are one step after the other; what is
  shown of their end does not depend on how they interleave.
\<close>

section \<open>The environment\<close>

text \<open>\<open>ev_done\<close>: the context has been cancelled. \<open>ev_select\<close>: the \<open>select\<close> at the end of a round of \<open>runSync\<close>,
  true if it took the context's case.\<close>

record ('t, 'w) env =
  ev_done :: "'w \<Rightarrow> bool"
  ev_connect :: "string \<Rightarrow> 'w \<Rightarrow> connection_response option \<times> 'w"
  ev_exchange :: "string \<Rightarrow> 'w \<Rightarrow> string option \<times> 'w"
  ev_dial :: "string \<Rightarrow> string \<Rightarrow> 'w \<Rightarrow> 't option \<times> 'w"
  ev_SyncOnce :: "'t \<Rightarrow> 'w \<Rightarrow> local_entry list option \<times> 'w"
  ev_close :: "'t \<Rightarrow> 'w \<Rightarrow> 'w"
  ev_save :: "local_entry list \<Rightarrow> 'w \<Rightarrow> 'w"
  ev_select :: "'w \<Rightarrow> bool \<times> 'w"
  ev_terminal :: "connection_response \<Rightarrow> 'w \<Rightarrow> 'w"
  ev_sleep :: "int \<Rightarrow> 'w \<Rightarrow> 'w"

section \<open>\<open>runSync\<close>\<close>

text \<open>One round: dial; if that fails get a new connection, with a new session if the old one is refused;
  else synchronise, close, and save the baseline if the round succeeded.\<close>

definition sync_round ::
    "('t, 'w) env \<Rightarrow> string \<Rightarrow> string \<times> connection_response \<times> 'w \<Rightarrow> string \<times> connection_response \<times> 'w" where
  "sync_round E cdk = (\<lambda>(tok, conn, w).
     (case ev_dial E (cr_SyncURL conn) (cr_SyncToken conn) w of
        (None, w) \<Rightarrow>
          (case ev_connect E tok w of
             (Some nc, w) \<Rightarrow> (tok, nc, w)
           | (None, w) \<Rightarrow>
               (case ev_exchange E cdk w of
                  (None, w) \<Rightarrow> (tok, conn, w)
                | (Some st, w) \<Rightarrow>
                    (case ev_connect E st w of
                       (Some nc, w) \<Rightarrow> (st, nc, w)
                     | (None, w) \<Rightarrow> (st, conn, w))))
      | (Some tr, w) \<Rightarrow>
          (case ev_SyncOnce E tr w of
             (None, w) \<Rightarrow> (tok, conn, ev_close E tr w)
           | (Some newBase, w) \<Rightarrow> (tok, conn, ev_save E newBase (ev_close E tr w)))))"

partial_function (option) runSync ::
    "('t, 'w) env \<Rightarrow> string \<Rightarrow> string \<times> connection_response \<times> 'w \<Rightarrow> 'w option" where
  "runSync E cdk st =
     (case sync_round E cdk st of (tok, conn, w) \<Rightarrow>
      (case ev_select E w of (stop, w) \<Rightarrow>
       if stop then Some w else runSync E cdk (tok, conn, w)))"

section \<open>The main loop\<close>

text \<open>What the loop did, for the statements about it.\<close>

datatype main_event = Connected bool | Asked bool | SyncedOnly | Worked

partial_function (option) main_loop ::
    "('t, 'w) env \<Rightarrow> string \<Rightarrow> string \<Rightarrow> main_event list \<times> 'w \<Rightarrow> (main_event list \<times> 'w) option" where
  "main_loop E cdk tok st =
     (case st of (ev, w) \<Rightarrow>
      if ev_done E w then Some (ev, w)
      else (case ev_connect E tok w of
        (None, w) \<Rightarrow>
          (case ev_exchange E cdk w of
             (None, w) \<Rightarrow> main_loop E cdk '''' (ev @ [Connected False, Asked False], ev_sleep E (5 * second) w)
           | (Some tok, w) \<Rightarrow> main_loop E cdk tok (ev @ [Connected False, Asked True], w))
      | (Some conn, w) \<Rightarrow>
          if cr_Over conn then
            (case runSync E cdk (tok, conn, w) of
               None \<Rightarrow> None
             | Some w \<Rightarrow> main_loop E cdk tok (ev @ [Connected True, SyncedOnly], ev_sleep E (60 * second) w))
          else
            (case runSync E cdk (tok, conn, ev_terminal E conn w) of
               None \<Rightarrow> None
             | Some w \<Rightarrow> main_loop E cdk tok (ev @ [Connected True, Worked], ev_sleep E second w))))"

section \<open>When the loops return\<close>

text \<open>What is relied on: the context's case is taken only once the context is cancelled, and a cancelled
  context stays cancelled.\<close>

definition context_ok :: "('t, 'w) env \<Rightarrow> bool" where
  "context_ok E \<longleftrightarrow> (\<forall>w w'. ev_select E w = (True, w') \<longrightarrow> ev_done E w') \<and>
     (\<forall>d w. ev_done E w \<longrightarrow> ev_done E (ev_sleep E d w))"





lemma runSync_done:
  fixes E :: "('a, 'b) env"
  assumes "context_ok E" "runSync E cdk st = Some w"
  shows "ev_done E w"
proof -
  have "context_ok E \<longrightarrow> ev_done E w"
  proof (rule runSync.raw_induct[where P = "\<lambda>E cdk st w. context_ok E \<longrightarrow> ev_done E w", OF _ assms(2)])
    fix rec :: "('a, 'b) env \<Rightarrow> string \<Rightarrow> string \<times> connection_response \<times> 'b \<Rightarrow> 'b option" and E cdk st w
    assume "\<And>E cdk st w. rec E cdk st = Some w \<Longrightarrow> context_ok E \<longrightarrow> ev_done E w"
      and "(case sync_round E cdk st of (tok, conn, w) \<Rightarrow>
         (case ev_select E w of (stop, w) \<Rightarrow> if stop then Some w else rec E cdk (tok, conn, w))) = Some w"
    then show "context_ok E \<longrightarrow> ev_done E w"
      by (auto simp: context_ok_def split: prod.splits if_splits)
  qed
  with assms(1) show ?thesis by simp
qed


section \<open>Properties\<close>


text \<open>Attempts that did not connect.\<close>

definition refused :: "main_event list \<Rightarrow> bool" where
  "refused ev \<longleftrightarrow> set ev \<subseteq> {Connected False, Asked True, Asked False}"

text \<open>How a run that ended looks, seen from where it started.\<close>

definition ended :: "('t, 'w) env \<Rightarrow> main_event list \<times> 'w \<Rightarrow> main_event list \<times> 'w \<Rightarrow> bool" where
  "ended E = (\<lambda>(ev, w) (ev', w'). ev_done E w' \<and> (ev_done E w \<longrightarrow> (ev', w') = (ev, w)) \<and>
     (\<exists>fs. refused fs \<and> (ev' = ev @ fs \<or> ev' = ev @ fs @ [Connected True, SyncedOnly] \<or>
        ev' = ev @ fs @ [Connected True, Worked])))"

lemma ended_attempt:
  assumes "ended E (ev @ [Connected False, Asked b], w2) st'" "\<not> ev_done E w"
  shows "ended E (ev, w) st'"
proof -
  obtain ev' w' fs where st: "st' = (ev', w')" "ev_done E w'" and fs: "refused fs"
    "ev' = ev @ ([Connected False, Asked b] @ fs) \<or> ev' = ev @ ([Connected False, Asked b] @ fs) @ [Connected True, SyncedOnly] \<or>
     ev' = ev @ ([Connected False, Asked b] @ fs) @ [Connected True, Worked]"
    using assms(1) by (cases st') (auto simp: ended_def)
  have "refused ([Connected False, Asked b] @ fs)" using fs(1) by (cases b) (auto simp: refused_def)
  with fs(2) st assms(2) show ?thesis by (auto simp: ended_def simp del: append_Cons append_assoc)
qed

lemma ended_connection:
  assumes "ended E (ev @ [Connected True, x], w2) st'" "ev_done E w2" "\<not> ev_done E w" "x = SyncedOnly \<or> x = Worked"
  shows "ended E (ev, w) st'"
  using assms by (cases st') (auto simp: ended_def refused_def intro!: exI[of _ "[]"])

lemma main_loop_ended:
  assumes "main_loop E cdk tok st = Some st'" "context_ok E"
  shows "ended E st st'"
proof -
  have "context_ok E \<longrightarrow> ended E st st'"
  proof (rule main_loop.raw_induct[where P = "\<lambda>E cdk tok st st'. context_ok E \<longrightarrow> ended E st st'", OF _ assms(1)], goal_cases)
    case (1 rec E cdk tok st st')
    note IH = 1(1) and run = 1(2)
    obtain ev w where st: "st = (ev, w)" by fastforce
    obtain c w1 where c: "ev_connect E tok w = (c, w1)" by fastforce
    show ?case
    proof (intro impI, cases "ev_done E w")
      case True
      with run st show "ended E st st'" by (auto simp: ended_def refused_def intro: exI[of _ "[]"])
    next
      assume ok: "context_ok E"
      case False
      show "ended E st st'"
      proof (cases c)
        case None
        then obtain b tok2 w2 where "rec E cdk tok2 (ev @ [Connected False, Asked b], w2) = Some st'"
          using run st c False by (auto split: prod.splits option.splits)
        with IH ok False st show ?thesis by (blast intro: ended_attempt)
      next
        case (Some conn)
        then obtain x w2 w3 d tok2 where r: "runSync E cdk (tok, conn, w2) = Some w3"
          "rec E cdk tok2 (ev @ [Connected True, x], ev_sleep E d w3) = Some st'" "x = SyncedOnly \<or> x = Worked"
          using run st c False by (auto split: option.splits if_splits)
        have "ev_done E (ev_sleep E d w3)" using runSync_done[OF ok r(1)] ok by (simp add: context_ok_def)
        with IH r(2,3) ok False st show ?thesis by (blast intro: ended_connection)
      qed
    qed
  qed
  with assms(2) show ?thesis by simp
qed

text \<open>C29. The client connects at most once: whenever the main loop ends, it made any number of attempts
  that failed, then at most one connection, after which it did nothing more, and the context is
  cancelled. It does not come back to the loop after the terminal's connection broke, nor from the
  restricted mode when the limits allow work again, because it waits there for \<open>runSync\<close>.\<close>

theorem main_loop_connects_once:
  fixes E :: "('a, 'b) env"
  assumes "context_ok E" and "main_loop E cdk tok ([], w) = Some (ev, w')"
  shows "(\<exists>fs. refused fs \<and> (ev = fs \<or> ev = fs @ [Connected True, SyncedOnly] \<or> ev = fs @ [Connected True, Worked])) \<and>
    ev_done E w'"
  using main_loop_ended[OF assms(2,1)] by (simp add: ended_def)

section \<open>Concrete inputs\<close>

definition demo_conn :: connection_response where
  "demo_conn = \<lparr>cr_ProjectID = ''p1'', cr_ProjectSlug = ''a'', cr_TerminalURL = ''t'', cr_SyncURL = ''s'', cr_TerminalToken = ''x'',
     cr_SyncToken = ''y'', cr_SyncMode = ''rw'', cr_DiskUsed = 0, cr_DiskLimit = 1, cr_FiveHourUsed = 0, cr_FiveHourLimit = 1,
     cr_SevenDayUsed = 0, cr_SevenDayLimit = 1, cr_Over = False, cr_OverReason = ''''\<rparr>"

text \<open>The state counts calls; the first connection is refused, and the context is cancelled at the ninth.\<close>

definition demo_loop :: "(unit, nat) env" where
  "demo_loop = \<lparr>ev_done = (\<lambda>w. 9 \<le> w), ev_connect = (\<lambda>tok w. (if w = 0 then None else Some demo_conn, w + 1)),
     ev_exchange = (\<lambda>cdk w. (Some ''t'', w + 1)), ev_dial = (\<lambda>url tok w. (if w < 5 then Some () else None, w + 1)),
     ev_SyncOnce = (\<lambda>t w. (Some [], w + 1)), ev_close = (\<lambda>t w. w), ev_save = (\<lambda>b w. w), ev_select = (\<lambda>w. (9 \<le> w, w)),
     ev_terminal = (\<lambda>c w. w), ev_sleep = (\<lambda>d w. w)\<rparr>"

lemma demo_loop_context: "context_ok demo_loop"
  by (simp add: context_ok_def demo_loop_def)


theorem main_loop_connects_once_witness:
  "\<exists>w. main_loop demo_loop ''k'' ''t'' ([], 0) = Some ([Connected False, Asked True, Connected True, Worked], w) \<and>
     ev_done demo_loop w"
proof -
  have r: "runSync demo_loop ''k'' (''t'', demo_conn, 3) = Some 9"
    by (subst runSync.simps, simp add: sync_round_def demo_loop_def)+
  have "main_loop demo_loop ''k'' ''t'' ([], 0) = main_loop demo_loop ''k'' ''t'' ([Connected False, Asked True], 2)"
    by (subst main_loop.simps) (simp add: demo_loop_def numeral_2_eq_2)
  also have "\<dots> = main_loop demo_loop ''k'' ''t'' ([Connected False, Asked True, Connected True, Worked], 9)"
  proof -
    have "ev_connect demo_loop ''t'' 2 = (Some demo_conn, 3)" "\<not> ev_done demo_loop 2" "\<not> cr_Over demo_conn"
      "ev_terminal demo_loop demo_conn 3 = 3" "ev_sleep demo_loop second 9 = 9"
      by (simp_all add: demo_loop_def demo_conn_def)
    then show ?thesis by (subst main_loop.simps) (simp add: r)
  qed
  also have "\<dots> = Some ([Connected False, Asked True, Connected True, Worked], 9)"
    by (subst main_loop.simps) (simp add: demo_loop_def)
  finally obtain w where "main_loop demo_loop ''k'' ''t'' ([], 0) = Some ([Connected False, Asked True, Connected True, Worked], w)" ..
  with main_loop_connects_once[OF demo_loop_context this] show ?thesis by blast
qed

end
