(* ===== verification/Saved_Files.thy ===== *)
theory Saved_Files
  imports Sync_Client Usage_Collector
begin

text \<open>
  Files the client keeps for itself: the baseline (\<open>LocalIndex\<close> of \<^verbatim>\<open>internal/sync/client.go\<close>) and the cached
  key of \<^verbatim>\<open>cmd/cclaude/main.go\<close>. Both are written by making the directory and then the file; what was
  written is read back.
\<close>

section \<open>Making a file and its directory\<close>

definition save_file :: "string \<Rightarrow> bytes \<Rightarrow> node \<Rightarrow> errno option \<times> node" where
  "save_file path b fs =
     (case os_MkdirAll fs (filepath_Dir path) of
        (Some e, fs) \<Rightarrow> (Some e, fs)
      | (None, fs) \<Rightarrow> os_Create fs path b)"

lemma save_file_effect:
  assumes ws: "workspace rc fs" and pl: "plain rc fs" and cl: "clean_comps (ds @ [c])"
    and s: "save_file (abs_str (rc @ ds @ [c])) b fs = (r, fs')"
  shows "workspace rc fs' \<and> plain rc fs' \<and> (r \<noteq> None \<longrightarrow> leaf fs' = leaf fs) \<and>
    (r = None \<longrightarrow> leaf fs' = (leaf fs)(rc @ ds @ [c] \<mapsto> File b) \<and> os_ReadFile fs' (abs_str (rc @ ds @ [c])) = Inr b)"
proof -
  have cc: "clean_comps rc" using ws by (simp add: workspace_def)
  let ?d = "rc @ ds"
  have cd: "clean_comps ?d" "clean_comps (?d @ [c])" "clean_comps ds" using cc cl by simp_all
  have par: "filepath_Dir (abs_str (?d @ [c])) = abs_str ?d" by (rule filepath_Dir_abs[OF cd(2)])
  obtain rm fs1 where mk: "os_MkdirAll fs (abs_str ?d) = (rm, fs1)" by fastforce
  then have mk': "mkdir_all fs (rev ?d) = (rm, fs1)" using cd(1) by (simp add: os_MkdirAll_def)
  have crev: "clean_comps (rev ?d)" using cd(1) by (auto simp: clean_comps_def)
  have M: "extends fs fs1" "leaf fs1 = leaf fs" "wf_node fs1"
    using mkdir_all_effect[OF mk' crev workspace_root[OF ws]] ws by (auto simp: workspace_def)
  have w1: "workspace rc fs1" using workspace_cong[OF ws _ M(3)] M(1) by (auto simp: extends_def)
  have p1: "plain rc fs1" using plain_cong[OF ws w1 pl] M(2) by simp
  show ?thesis
  proof (cases rm)
    case (Some e)
    then have "fs' = fs1 \<and> r \<noteq> None" using s mk par by (auto simp: save_file_def)
    with M(2) w1 p1 show ?thesis by (cases r) simp_all
  next
    case None
    from mkdir_all_ok[OF mk'[unfolded None] crev workspace_root[OF ws]] obtain q
      where q: "walk kernel_links fs1 [] ?d True = Inr q" "is_dir fs1 q" by auto
    have "walk kernel_links fs1 [] ?d True = walk kernel_links fs1 rc ds True"
      using walk_real[of rc fs1 "[]" kernel_links ds True] w1 by (simp add: workspace_def)
    with q(1) have "walk kernel_links fs1 rc ds True = Inr q" by simp
    then have "q = ?d"
      using walk_no_links[of kernel_links fs1 rc ds True q] cd(3) plain_no_link[OF w1 p1] by simp
    with q(2) have dd: "is_dir fs1 ?d" by simp
    have nl: "\<forall>t. lookup fs1 (?d @ [c]) \<noteq> Some (Link t)"
      using plain_no_link[OF w1 p1, of "ds @ [c]"] by (simp add: leaf_Some_iff)
    have cr: "os_Create fs1 (abs_str (?d @ [c])) b = (r, fs')" using s mk None par by (simp add: save_file_def)
    from os_Create_real[OF cd(2) dd nl cr] M(3) consider
      (ok) "r = None" "leaf fs' = (leaf fs1)(?d @ [c] \<mapsto> File b)" "\<forall>q. is_dir fs' q = is_dir fs1 q" "wf_node fs'"
      | (bad) "r \<noteq> None" "fs' = fs1" by blast
    then show ?thesis
    proof cases
      case bad
      with M(2) w1 p1 show ?thesis by (cases r) simp_all
    next
      case ok
      have w2: "workspace rc fs'" using workspace_cong[OF w1 _ ok(4)] ok(3) by simp
      have p2: "plain rc fs'" by (rule plain_cong[OF w1 w2 p1]) (auto simp: ok(2) split: if_splits)
      have "lookup fs' (?d @ [c]) = Some (File b)" using ok(2) by (metis fun_upd_same leaf_Some_iff)
      moreover have "is_dir fs' ?d" using dd ok(3) by simp
      ultimately have "os_ReadFile fs' (abs_str (?d @ [c])) = Inr b" using cd(2) by (intro os_ReadFile_real)
      with ok(1,2) w2 p2 M(2) show ?thesis by simp
    qed
  qed
qed

lemma read_file_leaf:
  assumes "workspace rc fs" "plain rc fs" "clean_comps (ds @ [c])" "leaf fs (rc @ ds @ [c]) = Some (File b)"
  shows "os_ReadFile fs (abs_str (rc @ ds @ [c])) = Inr b"
proof -
  have l: "lookup fs ((rc @ ds) @ [c]) = Some (File b)" using assms(4) by (simp add: leaf_Some_iff)
  have "is_dir fs (rc @ ds)" using is_dir_butlast[OF l] by (simp del: append_assoc)
  then show ?thesis using os_ReadFile_real[of "rc @ ds" c fs b] assms l by (simp add: workspace_def)
qed

lemma lookup_leaf_None: "leaf fs p = None \<Longrightarrow> \<not> is_dir fs p \<Longrightarrow> lookup fs p = None"
  by (auto simp: leaf_def is_dir_iff split: option.splits node.splits)

lemma read_file_gone:
  assumes "clean_comps (d @ [c])" "is_dir fs d" "lookup fs (d @ [c]) = None"
  shows "os_ReadFile fs (abs_str (d @ [c])) = Inl ENOENT"
proof -
  have "resolve_path fs (abs_str (d @ [c])) True = walk kernel_links fs d [c] True"
    using walk_real[of d fs "[]" kernel_links "[c]" True] assms(1,2) by (simp add: walk_rev_abs)
  then show ?thesis
    using assms by (auto simp: os_ReadFile_def os_Stat_def walk.simps clean_seg_def is_dir_iff)
qed

section \<open>The baseline\<close>

lemma li_path_abs: "clean_comps rc \<Longrightarrow> li_path (abs_str rc) = abs_str (rc @ [''.cclaude''] @ [''index.json''])"
  by (simp add: li_path_def filepath_Join_seg clean_seg_def)

lemma li_Save_save_file: "li_Save enc root es fs = save_file (li_path root) (enc es) fs"
  by (simp add: li_Save_def save_file_def)

lemma li_Save_Load:
  assumes "workspace rc fs" "plain rc fs" "dec (enc es) = Some es" "li_Save enc (abs_str rc) es fs = (r, fs')"
  shows "workspace rc fs' \<and> plain rc fs' \<and> (r = None \<longrightarrow> li_Load dec (abs_str rc) fs' = Inr es)"
proof -
  have cc: "clean_comps rc" using assms(1) by (simp add: workspace_def)
  have c: "clean_comps ([''.cclaude''] @ [''index.json''])" by (simp add: clean_seg_def)
  from save_file_effect[OF assms(1,2) c assms(4)[unfolded li_Save_save_file li_path_abs[OF cc]]] assms(3)
  show ?thesis by (simp add: li_Load_def li_path_abs[OF cc])
qed

section \<open>The cached key\<close>

text \<open>\<open>home\<close> is what \<open>os.UserHomeDir\<close> returns, \<open>env\<close> the variable \<open>CCW_CDK\<close>, \<open>typed\<close> what is typed at the
  prompt, \<open>None\<close> if that cannot be read. File modes are left out.\<close>

definition cdkCachePath :: "string \<Rightarrow> string" where
  "cdkCachePath home = filepath_Join (filepath_Join home ''.ccw'') ''cdk''"

definition saveCDK :: "string \<Rightarrow> string \<Rightarrow> node \<Rightarrow> node" where
  "saveCDK path cdk fs = snd (save_file path cdk fs)"

definition clearCDK :: "string \<Rightarrow> string \<Rightarrow> node \<Rightarrow> node" where
  "clearCDK env home fs = (if env = '''' then snd (os_Remove fs (cdkCachePath home)) else fs)"

datatype prompt_error = PromptFailed

definition loadOrPromptCDK :: "string \<Rightarrow> string \<Rightarrow> bytes option \<Rightarrow> node \<Rightarrow> (prompt_error + string) \<times> node" where
  "loadOrPromptCDK env home typed fs =
     (if env \<noteq> '''' then (Inr env, fs)
      else let cached = (case os_ReadFile fs (cdkCachePath home) of Inr b \<Rightarrow> TrimSpace b | Inl _ \<Rightarrow> '''') in
        if cached \<noteq> '''' then (Inr cached, fs)
        else (case typed of
            None \<Rightarrow> (Inl PromptFailed, fs)
          | Some b \<Rightarrow> let cdk = TrimSpace b in
              (Inr cdk, if cdk \<noteq> '''' then saveCDK (cdkCachePath home) cdk fs else fs)))"

lemma cdkCachePath_abs: "clean_comps rc \<Longrightarrow> cdkCachePath (abs_str rc) = abs_str (rc @ [''.ccw'', ''cdk''])"
  by (simp add: cdkCachePath_def filepath_Join_seg clean_seg_def)

lemma clearCDK_effect:
  assumes "workspace rc fs" "leaf fs (rc @ [''.ccw'', ''cdk'']) = Some (File b)"
  shows "leaf (clearCDK '''' (abs_str rc) fs) = (leaf fs)(rc @ [''.ccw'', ''cdk''] := None)"
    "os_ReadFile (clearCDK '''' (abs_str rc) fs) (cdkCachePath (abs_str rc)) = Inl ENOENT"
proof -
  let ?d = "rc @ [''.ccw'']"
  have cc: "clean_comps rc" using assms(1) by (simp add: workspace_def)
  then have cl: "clean_comps (?d @ [''cdk''])" by (simp add: clean_seg_def)
  have path: "cdkCachePath (abs_str rc) = abs_str (?d @ [''cdk''])" using cdkCachePath_abs[OF cc] by simp
  obtain e fs2 where rm: "os_Remove fs (abs_str (?d @ [''cdk''])) = (e, fs2)" by fastforce
  have l: "lookup fs (?d @ [''cdk'']) = Some (File b)" using assms(2) by (simp add: leaf_Some_iff)
  have d: "is_dir fs ?d" using is_dir_butlast[OF l] unfolding butlast_snoc by simp
  have nd: "\<not> is_dir fs (?d @ [''cdk''])" using l by (simp add: is_dir_iff)
  note R = os_Remove_real[OF cl d rm nd]
  have c: "clearCDK '''' (abs_str rc) fs = fs2" using rm by (simp add: clearCDK_def path)
  then show "leaf (clearCDK '''' (abs_str rc) fs) = (leaf fs)(rc @ [''.ccw'', ''cdk''] := None)" using R by simp
  have "lookup fs2 (?d @ [''cdk'']) = None" using R nd by (intro lookup_leaf_None) auto
  with read_file_gone[OF cl] d R c path
  show "os_ReadFile (clearCDK '''' (abs_str rc) fs) (cdkCachePath (abs_str rc)) = Inl ENOENT" by simp
qed

text \<open>A trimmed string is left alone by trimming again: no space is left at either end.\<close>

lemma drop_spaces_none:
  assumes "[] \<notin> set ws"
  shows "length s \<le> k \<Longrightarrow> find (\<lambda>w. prefix w (drop_spaces k ws s)) ws = None"
proof (induction k arbitrary: s)
  case 0
  then show ?case using assms by (auto simp: find_None_iff)
next
  case (Suc k)
  show ?case
  proof (cases "find (\<lambda>w. prefix w s) ws")
    case None
    then show ?thesis by simp
  next
    case (Some w)
    then have w: "w \<in> set ws" "prefix w s" by (auto simp: find_Some_iff)
    with assms have "w \<noteq> []" by auto
    then have "0 < length w" by simp
    with Suc.prems have "length (drop (length w) s) \<le> k" unfolding length_drop by linarith
    with Suc.IH Some show ?thesis by simp
  qed
qed

lemma drop_spaces_id: "find (\<lambda>w. prefix w s) ws = None \<Longrightarrow> drop_spaces k ws s = s"
  by (cases k) simp_all

lemma drop_spaces_suffix: "suffix (drop_spaces k ws s) s"
proof (induction k arbitrary: s)
  case (Suc k)
  show ?case
    using suffix_order.trans[OF Suc.IH suffix_drop] by (auto split: option.split)
qed simp

lemma go_spaces_nonempty: "[] \<notin> set go_spaces" "[] \<notin> set (map rev go_spaces)"
  by (auto simp: go_spaces_def)

lemma TrimSpace_idem: "TrimSpace (TrimSpace s) = TrimSpace s"
proof -
  define a where "a = drop_spaces (length s) go_spaces s"
  define t where "t = rev (drop_spaces (length a) (map rev go_spaces) (rev a))"
  have T: "TrimSpace s = t" by (simp add: TrimSpace_def Let_def a_def t_def)
  have pre: "prefix t a" using drop_spaces_suffix[of "length a" "map rev go_spaces" "rev a"]
    by (simp add: t_def suffix_to_prefix)
  have "find (\<lambda>w. prefix w a) go_spaces = None"
    unfolding a_def by (rule drop_spaces_none[OF go_spaces_nonempty(1)]) simp
  then have left: "find (\<lambda>w. prefix w t) go_spaces = None"
    using prefix_order.trans[OF _ pre] by (auto simp: find_None_iff)
  have right: "find (\<lambda>w. prefix w (rev t)) (map rev go_spaces) = None"
    unfolding t_def rev_rev_ident by (rule drop_spaces_none[OF go_spaces_nonempty(2)]) simp
  have "TrimSpace t = t"
    using drop_spaces_id[OF left] drop_spaces_id[OF right] by (simp only: TrimSpace_def Let_def rev_rev_ident)
  with T show ?thesis by simp
qed

text \<open>A key is asked for once: what is typed at the prompt is returned without the spaces around it,
  and if it could be cached every later start returns the same key without asking and without
  changing a file, until the cache is cleared, after which the prompt comes again; no file but the
  cache is changed by any of this.\<close>

theorem typed_key_is_remembered:
  assumes "workspace rc fs" and "plain rc fs"
    and "loadOrPromptCDK '''' (abs_str rc) (Some b) fs = (Inr cdk, fs1)"
    and "os_ReadFile fs (cdkCachePath (abs_str rc)) = Inl ENOENT" and "cdk \<noteq> ''''"
  shows "cdk = TrimSpace b \<and> (\<forall>q. q \<noteq> rc @ [''.ccw'', ''cdk''] \<longrightarrow> leaf fs1 q = leaf fs q) \<and>
    (leaf fs1 (rc @ [''.ccw'', ''cdk'']) \<noteq> None \<longrightarrow>
       (\<forall>typed. loadOrPromptCDK '''' (abs_str rc) typed fs1 = (Inr cdk, fs1)) \<and>
       fst (loadOrPromptCDK '''' (abs_str rc) None (clearCDK '''' (abs_str rc) fs1)) = Inl PromptFailed \<and>
       (\<forall>q. q \<noteq> rc @ [''.ccw'', ''cdk''] \<longrightarrow> leaf (clearCDK '''' (abs_str rc) fs1) q = leaf fs q))"
proof -
  have cc: "clean_comps rc" using assms(1) by (simp add: workspace_def)
  let ?p = "rc @ [''.ccw''] @ [''cdk'']"
  have path: "cdkCachePath (abs_str rc) = abs_str ?p" using cdkCachePath_abs[OF cc] by simp
  have cl: "clean_comps ([''.ccw''] @ [''cdk''])" "clean_comps ((rc @ [''.ccw'']) @ [''cdk''])"
    using cc by (simp_all add: clean_seg_def)
  have cdk: "cdk = TrimSpace b" "fs1 = saveCDK (abs_str ?p) cdk fs"
    using assms(3-5) by (auto simp: loadOrPromptCDK_def Let_def path split: if_splits)
  obtain r where s: "save_file (abs_str ?p) cdk fs = (r, fs1)" using cdk(2) by (metis saveCDK_def prod.collapse)
  note S = save_file_effect[OF assms(1,2) cl(1) s]
  have keep: "leaf fs1 q = leaf fs q" if "q \<noteq> ?p" for q using S that by (cases r) auto
  have none: "leaf fs ?p = None"
  proof (rule ccontr)
    assume "leaf fs ?p \<noteq> None"
    then obtain n where n: "leaf fs ?p = Some n" by blast
    have "\<forall>t. n \<noteq> Link t" using plain_no_link[OF assms(1,2), of "[''.ccw'', ''cdk'']"] n by auto
    then obtain x where "n = File x" using n by (cases n) (auto simp: leaf_Some_iff)
    with read_file_leaf[OF assms(1,2) cl(1)] n assms(4) path show False by simp
  qed
  have again: "(\<forall>typed. loadOrPromptCDK '''' (abs_str rc) typed fs1 = (Inr cdk, fs1)) \<and>
       fst (loadOrPromptCDK '''' (abs_str rc) None (clearCDK '''' (abs_str rc) fs1)) = Inl PromptFailed \<and>
       (\<forall>q. q \<noteq> ?p \<longrightarrow> leaf (clearCDK '''' (abs_str rc) fs1) q = leaf fs q)" if "leaf fs1 ?p \<noteq> None"
  proof -
    have ok: "r = None" "leaf fs1 ?p = Some (File cdk)" "os_ReadFile fs1 (abs_str ?p) = Inr cdk"
      using S that none by (cases r; simp)+
    have "loadOrPromptCDK '''' (abs_str rc) typed fs1 = (Inr cdk, fs1)" for typed
      using ok(3) TrimSpace_idem[of b] assms(5) by (simp add: loadOrPromptCDK_def Let_def path cdk(1))
    moreover have "workspace rc fs1" "leaf fs1 (rc @ [''.ccw'', ''cdk'']) = Some (File cdk)" using S ok(2) by simp_all
    note C = clearCDK_effect[OF this]
    ultimately show ?thesis using keep C by (simp add: loadOrPromptCDK_def)
  qed
  show ?thesis using cdk(1) keep again by simp
qed

lemma typed_key_is_remembered_witness:
  "let fs = Dir [(''h'', Dir [])]; (r, fs1) = loadOrPromptCDK '''' ''/h'' (Some '' k '') fs in
     r = Inr ''k'' \<and> leaf fs1 [''h'', ''.ccw'', ''cdk''] = Some (File ''k'') \<and>
     loadOrPromptCDK '''' ''/h'' None fs1 = (Inr ''k'', fs1)"
proof -
  let ?fs = "Dir [(''h'', Dir [])]"
  let ?fs1 = "Dir [(''h'', Dir [(''.ccw'', Dir [(''cdk'', File ''k'')])])]"
  have a: "abs_str [''h''] = ''/h''" "workspace [''h''] ?fs" "plain [''h''] ?fs" by code_simp+
  have l: "loadOrPromptCDK '''' ''/h'' (Some '' k '') ?fs = (Inr ''k'', ?fs1)" by code_simp
  have n: "os_ReadFile ?fs (cdkCachePath ''/h'') = Inl ENOENT" by code_simp
  have f: "leaf ?fs1 [''h'', ''.ccw'', ''cdk''] = Some (File ''k'')" by (simp add: leaf_def)
  then have f0: "leaf ?fs1 ([''h''] @ [''.ccw'', ''cdk'']) \<noteq> None" by simp
  have "loadOrPromptCDK '''' ''/h'' None ?fs1 = (Inr ''k'', ?fs1)"
    using typed_key_is_remembered[OF a(2,3), unfolded a(1), OF l n, THEN conjunct2, THEN conjunct2, THEN mp,
        OF _ f0, THEN conjunct1] by blast
  with f show ?thesis by (simp add: l)
qed

end
