(* ===== verification/Session_Factory.thy ===== *)
theory Session_Factory
  imports Sync_Service
begin

text \<open>
  Which directory a sync session works on: the session factory of \<^verbatim>\<open>cmd/worker-agent/main.go\<close> asks the
  database for the project's slug and takes the identifier of the project if that fails. Shown here
  is what a session is when the question is answered, and what happens when it is not.
\<close>

section \<open>The factory\<close>

lemma projectSlug_cases:
  assumes "projectSlug pid db = (slug, db')"
  shows "db' = snd (next_fault db) \<and> (slug = pid \<or> (\<exists>p \<in> set (pg_projects db). p_ID p = pid \<and> slug = p_Slug p))"
proof -
  obtain r db1 where g: "pg_GetProjectByID pid db = (r, db1)" by fastforce
  note q = pg_query_cases[OF g[unfolded pg_GetProjectByID_def]]
  have "slug = pid \<or> (\<exists>p. r = Inr p \<and> slug = p_Slug p)" "db' = db1"
    using assms g by (auto simp: projectSlug_def split: sum.splits if_splits)
  moreover have "p \<in> set (pg_projects db) \<and> p_ID p = pid" if rp: "r = Inr p" for p
  proof -
    obtain xs where "filter (\<lambda>p. p_ID p = pid) (pg_projects db) = p # xs"
      using q rp by (cases "filter (\<lambda>p. p_ID p = pid) (pg_projects db)") auto
    then have "p \<in> set (filter (\<lambda>p. p_ID p = pid) (pg_projects db))" by (metis list.set_intros(1))
    then show ?thesis by simp
  qed
  ultimately show ?thesis using q by blast
qed

lemma sessionFactory_cases:
  assumes "sessionFactory wr pid dev mode (db, fs) = (s, db', fs')"
  obtains slug where "projectSlug pid db = (slug, snd (next_fault db))" "db' = snd (next_fault (snd (next_fault db)))"
    "fs' = snd (os_MkdirAll fs (filepath_Join wr slug))" "ss_ProjectID s = pid" "ss_Root s = filepath_Join wr slug"
    "ss_MaxBytes s = 2 ^ 30"
proof -
  obtain slug db1 where s: "projectSlug pid db = (slug, db1)" by fastforce
  obtain r db2 where g: "pg_GetProjectByID pid db1 = (r, db2)" by fastforce
  have "db1 = snd (next_fault db)" "db2 = snd (next_fault db1)"
    using projectSlug_cases[OF s] pg_query_state[OF g[unfolded pg_GetProjectByID_def]] by auto
  with assms s g show thesis by (intro that[of slug]) (auto simp: sessionFactory_def Let_def)
qed

text \<open>A session's directory that was there before is left as it was.\<close>

lemma os_MkdirAll_real: "clean_comps rc \<Longrightarrow> is_dir fs rc \<Longrightarrow> os_MkdirAll fs (abs_str rc) = (None, fs)"
  using mkdir_all_again[of fs "rev rc" rc] walk_real[of rc fs "[]" kernel_links "[]" True]
  by (simp add: os_MkdirAll_def clean_comps_def)

lemma sessionFactory_world:
  assumes "sessionFactory wr pid dev mode (db, fs) = (s, db', fs')" "ss_Root s = abs_str rc" "workspace rc fs" "pg_inv db"
  shows "ss_ProjectID s = pid \<and> sane_max (ss_MaxBytes s) \<and> pg_inv db' \<and> pg_idx db' = pg_idx db \<and> fs' = fs"
proof -
  from sessionFactory_cases[OF assms(1)] obtain slug where S: "db' = snd (next_fault (snd (next_fault db)))"
    "fs' = snd (os_MkdirAll fs (filepath_Join wr slug))" "ss_ProjectID s = pid" "ss_Root s = filepath_Join wr slug"
    "ss_MaxBytes s = 2 ^ 30" by metis
  have "sane_max (2 ^ 30)" by code_simp
  with S assms(2-4) os_MkdirAll_real[of rc fs] show ?thesis by (simp add: workspace_def)
qed

lemma os_MkdirAll_fresh:
  assumes "workspace rc fs" "lookup fs (rc @ [c]) = None" "clean_seg c"
  shows "fst (os_MkdirAll fs (abs_str (rc @ [c]))) = None"
proof -
  have cl: "clean_comps (rc @ [c])" "clean_comps rc" "is_dir fs rc" using assms by (auto simp: workspace_def)
  have "os_Stat fs (abs_str (rc @ [c])) = Inl ENOENT"
    using walk_real[of rc fs "[]" kernel_links "[c]" True] cl assms(2,3)
    by (simp add: os_Stat_def walk_rev_abs walk.simps(2) clean_seg_def)
  moreover have "mkdir_all fs (rev rc) = (None, fs)" using os_MkdirAll_real[OF cl(2,3)] cl(2) by (simp add: os_MkdirAll_def)
  ultimately show ?thesis
    using assms(2) cl by (simp add: os_MkdirAll_def Let_def os_Mkdir_def entry_of_real)
qed

section \<open>A lookup that fails\<close>

text \<open>A directory made where there was nothing is an empty workspace.\<close>

lemma fresh_directory:
  assumes "workspace rc fs" "lookup fs (rc @ [c]) = None" "clean_seg c" "os_MkdirAll fs (abs_str (rc @ [c])) = (None, fs')"
  shows "workspace (rc @ [c]) fs' \<and> plain (rc @ [c]) fs' \<and> leaf fs' = leaf fs \<and> content (rc @ [c]) fs' k = None"
proof -
  have cl: "clean_comps (rc @ [c])" "clean_comps (rev (rc @ [c]))" "clean_comps rc"
    using assms(1,3) by (auto simp: workspace_def clean_comps_def)
  have mk: "mkdir_all fs (rev (rc @ [c])) = (None, fs')" using assms(4) cl(1) by (simp add: os_MkdirAll_def)
  have root: "is_dir fs []" by (rule workspace_root[OF assms(1)])
  have M: "extends fs fs'" "leaf fs' = leaf fs" "wf_node fs'"
    using mkdir_all_effect[OF mk cl(2) root] assms(1) by (auto simp: workspace_def)
  have rd: "is_dir fs' rc" using M(1) assms(1) by (auto simp: workspace_def extends_def)
  have none: "leaf fs (rc @ c # q) = None" for q
    using assms(2) lookup_append[of fs "rc @ [c]" q] by (simp add: leaf_None_iff)
  from mkdir_all_ok[OF mk cl(2) root] obtain q where q: "walk kernel_links fs' [] (rc @ [c]) True = Inr q" "is_dir fs' q"
    by auto
  have "walk kernel_links fs' rc [c] True = Inr q"
    using q(1) walk_real[of rc fs' "[]" kernel_links "[c]" True] cl(3) rd by simp
  moreover have "leaf fs' (rc @ pre) \<noteq> Some (Link t)" if "prefix pre [c]" for pre t
  proof -
    have "leaf fs' rc \<noteq> Some (Link t)" using rd by (auto simp: is_dir_iff leaf_Some_iff)
    moreover have "leaf fs' (rc @ [c]) = None" using none[of "[]"] M(2) by simp
    ultimately show ?thesis using that by (auto simp: prefix_Cons)
  qed
  ultimately have "q = rc @ [c]"
    using walk_no_links[of kernel_links fs' rc "[c]" True q] assms(3) by simp
  with q(2) cl(1) M(3) have ws: "workspace (rc @ [c]) fs'" by (simp add: workspace_def)
  then have "plain (rc @ [c]) fs'" unfolding plain_iff[OF ws] using none M(2) by simp
  with ws M(2) none show ?thesis by (simp add: content_def)
qed

text \<open>The manifest of an empty workspace: everything the index knows is deleted.\<close>

lemma empty_workspace_manifest:
  assumes "pg_inv db" "pg_up (ss_ProjectID s) db" "workspace rc fs" "plain rc fs" "ss_Root s = abs_str rc"
    and none: "\<And>k. content rc fs k = None"
    and m: "HandleManifest sha pg_store s (db, fs) = (r, db', fs')"
  obtains es where "r = Inr es" "fs' = fs" "distinct (map fe_Path es)" "\<forall>e \<in> set es. fe_Deleted e"
    "\<And>k. pg_idx db (ss_ProjectID s) k \<noteq> None \<Longrightarrow> index_by fe_Path es k \<noteq> None"
proof -
  from pgs.HandleManifest_effect[OF assms(1,3,4,5) m] obtain db1 where H:
    "reconcileCloud sha pg_store s (db, fs) = (db1, fs)" "pg_idx db' = pg_idx db1" "fs' = fs"
    "\<forall>es. r = Inr es \<longrightarrow> distinct (map fe_Path es) \<and> index_by fe_Path es = pg_idx db' (ss_ProjectID s)" by metis
  note U = pgr.reconcileCloud_up[OF assms(1-5) H(1)]
  obtain es where es: "r = Inr es"
    using m H(1) U pgr.manifest_up[of db1 "ss_ProjectID s"] by (auto simp: HandleManifest_def split: prod.splits)
  then have ix: "index_by fe_Path es = pg_idx db1 (ss_ProjectID s)" "distinct (map fe_Path es)" using H(2,4) by auto
  have mir: "mirrors sha rc fs (pg_idx db1 (ss_ProjectID s))" using U by simp
  have del: "fe_Deleted e" if "pg_idx db1 (ss_ProjectID s) k = Some e" for k e
    using mir[unfolded mirrors_def, rule_format, of k] none that by (auto split: if_splits)
  have kept: "pg_idx db1 (ss_ProjectID s) k \<noteq> None" if "pg_idx db (ss_ProjectID s) k \<noteq> None" for k
  proof -
    have "pg_idx db1 (ss_ProjectID s) k = pg_idx db (ss_ProjectID s) k \<or> (\<exists>e. pg_idx db1 (ss_ProjectID s) k = Some e)"
      using pgs.reconcileCloud_effect[OF assms(1,3,4,5) H(1)] by blast
    with that show ?thesis by auto
  qed
  have all: "\<forall>e \<in> set es. fe_Deleted e" using del ix index_by_distinct[of fe_Path es] by fastforce
  have "index_by fe_Path es k \<noteq> None" if "pg_idx db (ss_ProjectID s) k \<noteq> None" for k
    unfolding ix(1) using kept[OF that] .
  then show thesis by (rule that[OF es H(3) ix(2) all])
qed

text \<open>A client's unchanged files are deleted, if the server says they are.\<close>

lemma Diff_deletes_clean:
  assumes "distinct (map fe_Path es)" "\<forall>e \<in> set es. fe_Deleted e" "l \<in> set local" "le_State l = StateClean"
    and "index_by fe_Path es (le_Path l) \<noteq> None"
  shows "le_Path l \<in> fe_Path ` set (DeleteToLocal (Diff rng local es))"
proof -
  obtain e where e: "index_by fe_Path es (le_Path l) = Some e" using assms(5) by auto
  then have "fe_Deleted e" "fe_Path e = le_Path l" using assms(2) index_by_Some[OF e] by auto
  with e assms(3,4) show ?thesis unfolding Diff_lists by (force simp: image_iff)
qed

section \<open>Properties\<close>

text \<open>C16. One failed query empties a client: if the query for the project's slug fails when a client connects,
  the session works on a directory named after the project's identifier instead of its workspace.
  Where no such directory is, it is made, no file of the server changes, and the manifest the client
  gets says of every path the project ever had that it is deleted; the plan of a client that is in
  step with the server is to delete its copies.\<close>

theorem failed_lookup_deletes_everything:
  assumes "pg_inv db" and "project_exists pid db" and "pg_faults db = [f]" "f \<noteq> Carried"
    and "workspace rc fs" and "lookup fs (rc @ [pid]) = None" and "clean_seg pid"
    and "sessionFactory (abs_str rc) pid dev mode (db, fs) = (s, db1, fs1)"
    and "HandleManifest sha pg_store s (db1, fs1) = (r, db2, fs2)"
  shows "ss_Root s = abs_str (rc @ [pid]) \<and> leaf fs2 = leaf fs \<and>
    (\<exists>es. r = Inr es \<and> (\<forall>e \<in> set es. fe_Deleted e) \<and> (\<forall>k. pg_idx db pid k \<noteq> None \<longrightarrow> k \<in> fe_Path ` set es) \<and>
      (\<forall>rng local l. l \<in> set local \<longrightarrow> le_State l = StateClean \<longrightarrow> pg_idx db pid (le_Path l) \<noteq> None \<longrightarrow>
         le_Path l \<in> fe_Path ` set (DeleteToLocal (Diff rng local es))))"
proof -
  from sessionFactory_cases[OF assms(8)] obtain slug where S: "projectSlug pid db = (slug, snd (next_fault db))"
    "db1 = snd (next_fault (snd (next_fault db)))" "fs1 = snd (os_MkdirAll fs (filepath_Join (abs_str rc) slug))"
    "ss_ProjectID s = pid" "ss_Root s = filepath_Join (abs_str rc) slug" by metis
  have cc: "clean_comps rc" using assms(5) by (simp add: workspace_def)
  have "slug = pid"
    using S(1) assms(3,4)
    by (cases f) (auto simp: projectSlug_def pg_GetProjectByID_def pg_query_def next_fault_def)
  then have root: "filepath_Join (abs_str rc) slug = abs_str (rc @ [pid])"
    using filepath_Join_seg[OF cc assms(7)] by simp
  have "os_MkdirAll fs (abs_str (rc @ [pid])) = (None, fs1)"
    using S(3) os_MkdirAll_fresh[OF assms(5-7)] by (simp add: root) (metis prod.collapse)
  from fresh_directory[OF assms(5-7) this] have F: "workspace (rc @ [pid]) fs1" "plain (rc @ [pid]) fs1"
    "leaf fs1 = leaf fs" "\<And>k. content (rc @ [pid]) fs1 k = None" by blast+
  have db1: "pg_inv db1" "pg_idx db1 = pg_idx db" unfolding S(2) using assms(1) by simp_all
  have up: "pg_up (ss_ProjectID s) db1"
    using assms(2,3) S(2,4) by (simp add: pg_up_def project_exists_def next_fault_def)
  note R = S(5)[unfolded root]
  from empty_workspace_manifest[OF db1(1) up F(1,2) R F(4) assms(9)] obtain es where M: "r = Inr es" "fs2 = fs1"
    "distinct (map fe_Path es)" "\<forall>e \<in> set es. fe_Deleted e" "\<And>k. pg_idx db pid k \<noteq> None \<Longrightarrow> index_by fe_Path es k \<noteq> None"
    unfolding S(4) db1(2) by metis
  have "\<forall>k. pg_idx db pid k \<noteq> None \<longrightarrow> k \<in> fe_Path ` set es" using M(5) dom_index_by[of fe_Path es] by blast
  moreover have "\<forall>rng local l. l \<in> set local \<longrightarrow> le_State l = StateClean \<longrightarrow> pg_idx db pid (le_Path l) \<noteq> None \<longrightarrow>
      le_Path l \<in> fe_Path ` set (DeleteToLocal (Diff rng local es))"
    using Diff_deletes_clean[OF M(3,4)] M(5) by blast
  ultimately show ?thesis using R F(3) M(1,2,4) by blast
qed

section \<open>Concrete inputs\<close>

definition demo_listed_db :: pg where
  "demo_listed_db = demo_db\<lparr>pg_files := [\<lparr>fr_project_id = ''p1'', fr_entry = \<lparr>fe_Path = ''a.txt'', fe_Size = 2,
     fe_SHA256 = ''h'', fe_Revision = 1, fe_Deleted = False\<rparr>, fr_device = ''d1''\<rparr>], pg_faults := [Refused]\<rparr>"

theorem failed_lookup_deletes_everything_witness:
  "let fs = Dir [(''data'', Dir [(''ws'', Dir [(''a.txt'', File ''hi'')])])];
       (s, db1, fs1) = sessionFactory ''/data'' ''p1'' '''' ''rw'' (demo_listed_db, fs);
       (r, db2, fs2) = HandleManifest demo_sha pg_store s (db1, fs1)
   in ss_Root s = ''/data/p1'' \<and> leaf fs2 [''data'', ''ws'', ''a.txt''] = Some (File ''hi'') \<and>
      (\<exists>es e. r = Inr es \<and> e \<in> set es \<and> fe_Path e = ''a.txt'' \<and> fe_Deleted e)"
proof -
  let ?fs = "Dir [(''data'', Dir [(''ws'', Dir [(''a.txt'', File ''hi'')])])]"
  have i: "pg_inv demo_listed_db" "workspace [''data''] ?fs" "clean_seg ''p1''" by code_simp+
  have a: "abs_str [''data''] = ''/data''" "abs_str ([''data''] @ [''p1'']) = ''/data/p1''" by code_simp+
  have p: "project_exists ''p1'' demo_listed_db" "pg_faults demo_listed_db = [Refused]" "Refused \<noteq> Carried"
    by (simp_all add: project_exists_def demo_listed_db_def demo_db_def demo_project_def)
  have l: "lookup ?fs ([''data''] @ [''p1'']) = None" by simp
  have "pg_idx demo_listed_db ''p1'' ''a.txt'' \<noteq> None"
    using pg_idx_Some[OF i(1)] by (force simp: demo_listed_db_def)
  obtain s db1 fs1 where s: "sessionFactory ''/data'' ''p1'' '''' ''rw'' (demo_listed_db, ?fs) = (s, db1, fs1)" using prod_cases3 by blast
  obtain r db2 fs2 where h: "HandleManifest demo_sha pg_store s (db1, fs1) = (r, db2, fs2)" using prod_cases3 by blast
  note M = failed_lookup_deletes_everything[OF i(1) p i(2) l i(3) s[folded a(1)] h, unfolded a(2)]
  then obtain es where es: "r = Inr es" "\<forall>e \<in> set es. fe_Deleted e" "''a.txt'' \<in> fe_Path ` set es"
    using \<open>pg_idx demo_listed_db ''p1'' ''a.txt'' \<noteq> None\<close> by blast
  moreover have "leaf fs2 [''data'', ''ws'', ''a.txt''] = Some (File ''hi'')" using M by (simp add: leaf_def)
  ultimately show ?thesis using M s h by auto
qed

end
