(* ===== verification/Sync_Life.thy ===== *)
theory Sync_Life
  imports Sync_Link Cclaude Saved_Files Session_Factory
begin

text \<open>
  \<open>runSync\<close> of \<^verbatim>\<open>cmd/cclaude/main.go\<close> with its real parts: the dial to the worker, the rounds, the baseline
  file. What else happens, between rounds and in the control API, is an environment: other clients
  and the container change the server, the user changes local files, the database fails. Shown is
  that the baseline file never says anything of the server that is not true, however many rounds
  there are.
\<close>

section \<open>The client and the worker together\<close>

text \<open>\<open>lf_steps\<close> counts the steps the server has made; \<open>lf_now\<close>, \<open>lf_up\<close>, \<open>lf_left\<close> and \<open>lf_clock\<close> are the clock
  of the worker, whether a connection is upgraded, after how many frames it breaks, and the clock
  conflict copies are named after.\<close>

record life =
  lf_world :: "pg \<times> node"
  lf_fs :: node
  lf_steps :: nat
  lf_now :: int
  lf_up :: bool
  lf_left :: "nat option"
  lf_clock :: "string \<Rightarrow> utc_time"

record deployment =
  dp_hm :: hmac
  dp_claims :: "bytes \<Rightarrow> claims option"
  dp_key :: bytes
  dp_server :: "pg sync_server"
  dp_root :: string
  dp_sha :: "bytes \<Rightarrow> string"
  dp_enc :: "local_entry list \<Rightarrow> bytes"
  dp_dec :: "bytes \<Rightarrow> local_entry list option"
  dp_dir :: string
  dp_device :: string
  dp_rng :: "string list \<Rightarrow> string list"

definition life_dial :: "deployment \<Rightarrow> string \<Rightarrow> life \<Rightarrow> transport_error + pg link" where
  "life_dial D tok w = DialSync (dp_hm D) (dp_claims D) (dp_key D) (dp_server D) modeFor (sessionFactory (dp_root D))
     (lf_now w) (lf_up w) (lf_left w) tok (lf_world w)"

definition life_round :: "deployment \<Rightarrow> pg link \<Rightarrow> life \<Rightarrow> (sync_error + local_entry list) \<times> pg link client_state" where
  "life_round D lk w = SyncOnce (dp_sha D) (dp_dec D) wsTransport (dp_dir D) (dp_device D) (lf_clock w) (dp_rng D)
     \<lparr>cs_t = lk, cs_fs = lf_fs w, cs_notes = []\<rparr>"

definition after_round :: "pg link client_state \<Rightarrow> life \<Rightarrow> life" where
  "after_round s w = w\<lparr>lf_world := cn_world (lk_conn (cs_t s)), lf_fs := cs_fs s,
     lf_steps := lf_steps w + length (cn_out (lk_conn (cs_t s)))\<rparr>"

definition life_save :: "deployment \<Rightarrow> local_entry list \<Rightarrow> life \<Rightarrow> life" where
  "life_save D es w = w\<lparr>lf_fs := snd (li_Save (dp_enc D) (dp_dir D) es (lf_fs w))\<rparr>"

text \<open>The worker's side of a dial: a dial can also fail after it, when the first frame is lost.\<close>

definition life_accept :: "deployment \<Rightarrow> string \<Rightarrow> life \<Rightarrow> pg served" where
  "life_accept D tok w = ServeSync (dp_hm D) (dp_claims D) (dp_key D) (dp_server D) modeFor (sessionFactory (dp_root D))
     (lf_now w) (lf_up w) (''Bearer '' @ tok) [] (lf_world w)"

definition after_failed_dial :: "deployment \<Rightarrow> string \<Rightarrow> life \<Rightarrow> life" where
  "after_failed_dial D tok w = (case life_accept D tok w of Served c \<Rightarrow> w\<lparr>lf_world := cn_world c\<rparr> | _ \<Rightarrow> w)"

definition real_env :: "deployment \<Rightarrow> (pg link, life) env \<Rightarrow> (pg link, life) env" where
  "real_env D E = E\<lparr>
     ev_dial := (\<lambda>url tok w. (case life_dial D tok w of
        Inl _ \<Rightarrow> (None, after_failed_dial D tok w) | Inr lk \<Rightarrow> (Some lk, w))),
     ev_SyncOnce := (\<lambda>lk w. case life_round D lk w of
        (out, s) \<Rightarrow> ((case out of Inl _ \<Rightarrow> None | Inr es \<Rightarrow> Some es), after_round s w)),
     ev_close := (\<lambda>lk w. w), ev_save := life_save D\<rparr>"

section \<open>What is true of the baseline\<close>










section \<open>The baseline is a statement about the index\<close>








section \<open>One round\<close>







lemma real_env_simps [simp]:
  "ev_connect (real_env D E) = ev_connect E" "ev_exchange (real_env D E) = ev_exchange E"
  "ev_select (real_env D E) = ev_select E" "ev_done (real_env D E) = ev_done E"
  "ev_close (real_env D E) lk w = w" "ev_save (real_env D E) = life_save D"
  "ev_dial (real_env D E) url tok w = (case life_dial D tok w of
     Inl _ \<Rightarrow> (None, after_failed_dial D tok w) | Inr lk \<Rightarrow> (Some lk, w))"
  "ev_SyncOnce (real_env D E) lk w = (case life_round D lk w of
     (out, s) \<Rightarrow> ((case out of Inl _ \<Rightarrow> None | Inr es \<Rightarrow> Some es), after_round s w))"
  by (simp_all add: real_env_def)




section \<open>Properties\<close>


section \<open>Concrete inputs\<close>















end
