(* ===== verification/Terminal.thy ===== *)
theory Terminal
  imports Control_Client "HOL-Library.AList"
begin

text \<open>
  \<^verbatim>\<open>internal/terminal\<close> (\<^verbatim>\<open>registry.go\<close>, \<^verbatim>\<open>session.go\<close>, \<^verbatim>\<open>ws.go\<close>), the terminal endpoint and the quota ticker
  of \<^verbatim>\<open>cmd/worker-agent/main.go\<close>, and the terminal's input of \<^verbatim>\<open>cmd/cclaude/main.go\<close>. A context is a
  number; cancelling it puts it in a list. The programs \<open>docker\<close> and \<open>tmux\<close> and the pseudo terminal
  are parameters. Pings and deadlines are left out: a timeout is the end of the frames.
\<close>

section \<open>The registry of connections\<close>

text \<open>\<open>m\<close> holds the connections of each project, each under the number \<open>Add\<close> gave it. The counter is
  taken not to wrap. A map that is ranged over is an association list, and the order of the range a
  parameter.\<close>

record registry =
  rg_m :: "(string \<times> (int \<times> nat) list) list"
  rg_id :: int

definition NewConnRegistry :: registry where
  "NewConnRegistry = \<lparr>rg_m = [], rg_id = 0\<rparr>"

text \<open>\<open>r.m[projectID]\<close>; a project without a map has no connections.\<close>

definition conns_of :: "registry \<Rightarrow> string \<Rightarrow> (int \<times> nat) list" where
  "conns_of r pid = (case map_of (rg_m r) pid of None \<Rightarrow> [] | Some cs \<Rightarrow> cs)"

definition Add :: "string \<Rightarrow> nat \<Rightarrow> registry \<Rightarrow> int \<times> registry" where
  "Add pid cancel r =
     (let i = rg_id r + 1
      in (i, r\<lparr>rg_m := AList.update pid (AList.update i cancel (conns_of r pid)) (rg_m r), rg_id := i\<rparr>))"

text \<open>The function \<open>Add\<close> returns.\<close>

definition unregister :: "string \<Rightarrow> int \<Rightarrow> registry \<Rightarrow> registry" where
  "unregister pid i r =
     (case map_of (rg_m r) pid of
        None \<Rightarrow> r
      | Some cs \<Rightarrow> r\<lparr>rg_m := AList.update pid (AList.delete i cs) (rg_m r)\<rparr>)"

definition CloseProject ::
    "((int \<times> nat) list \<Rightarrow> (int \<times> nat) list) \<Rightarrow> string \<Rightarrow> registry \<Rightarrow> nat list \<Rightarrow> nat \<times> nat list" where
  "CloseProject rng pid r cancelled =
     (let cancels = map snd (rng (conns_of r pid))
      in (length cancels, foldl (\<lambda>acc c. c # acc) cancelled cancels))"

definition ActiveProjects ::
    "((string \<times> (int \<times> nat) list) list \<Rightarrow> (string \<times> (int \<times> nat) list) list) \<Rightarrow> registry \<Rightarrow> string list" where
  "ActiveProjects rng r = map fst (filter (\<lambda>(pid, conns). 0 < length conns) (rng (rg_m r)))"

section \<open>The terminals of a worker\<close>

text \<open>\<open>wk_open\<close>: the handlers between \<open>Add\<close> and their return, each with its context, its project and
  its number in the registry.\<close>

record worker =
  wk_reg :: registry
  wk_ctxs :: nat
  wk_cancelled :: "nat list"
  wk_open :: "(nat \<times> string \<times> int) list"

definition worker_start :: worker where
  "worker_start = \<lparr>wk_reg = NewConnRegistry, wk_ctxs = 0, wk_cancelled = [], wk_open = []\<rparr>"

text \<open>The endpoint up to \<open>registry.Add\<close>: \<open>None\<close> is the answer 401.\<close>

definition terminal_open ::
    "hmac \<Rightarrow> (bytes \<Rightarrow> claims option) \<Rightarrow> bytes \<Rightarrow> int \<Rightarrow> string \<Rightarrow> worker \<Rightarrow> (nat \<times> string \<times> int) option \<times> worker" where
  "terminal_open hm dec key now header w =
     (case Verify hm dec key (trim_prefix header ''Bearer '') AudTerminal now of
        Inl _ \<Rightarrow> (None, w)
      | Inr cl \<Rightarrow>
          let cctx = wk_ctxs w; (i, reg) = Add (cl_ProjectID cl) cctx (wk_reg w); h = (cctx, cl_ProjectID cl, i)
          in (Some h, w\<lparr>wk_reg := reg, wk_ctxs := cctx + 1, wk_open := wk_open w @ [h]\<rparr>))"

text \<open>Its end, after \<open>terminal.Serve\<close> has returned: the deferred calls, the last one first.\<close>

definition terminal_return :: "nat \<times> string \<times> int \<Rightarrow> worker \<Rightarrow> worker" where
  "terminal_return h w =
     (case h of (cctx, pid, i) \<Rightarrow>
        let w = w\<lparr>wk_cancelled := cctx # wk_cancelled w\<rparr>
        in w\<lparr>wk_reg := unregister pid i (wk_reg w), wk_open := removeAll h (wk_open w)\<rparr>)"

section \<open>The quota ticker\<close>

definition tick_limits :: "project \<Rightarrow> limits" where
  "tick_limits p = \<lparr>lm_FiveHour = p_FiveHourLimit p, lm_SevenDay = p_SevenDayLimit p,
     lm_PoolFiveHour = push_bit 62 1, lm_PoolSevenDay = push_bit 62 1, lm_Reserve = 0, lm_SafetyMargin = 0\<rparr>"

text \<open>The body of the loop for one project; \<open>now\<close> is its reading of the clock.\<close>

definition tick_project ::
    "((int \<times> nat) list \<Rightarrow> (int \<times> nat) list) \<Rightarrow> int \<Rightarrow> string \<Rightarrow> pg \<times> worker \<Rightarrow> pg \<times> worker" where
  "tick_project rng now pid = (\<lambda>(db, w).
     (case pg_GetProjectByID pid db of
        (Inl _, db) \<Rightarrow> (db, w)
      | (Inr p, db) \<Rightarrow>
          (case Check pg_usage_reader pid (p_AccountID p) (tick_limits p) now db of
             ((d, None), db) \<Rightarrow>
               if dn_Over d then (db, w\<lparr>wk_cancelled := snd (CloseProject rng pid (wk_reg w) (wk_cancelled w))\<rparr>)
               else (db, w)
           | ((_, Some _), db) \<Rightarrow> (db, w))))"

definition quota_tick ::
    "((int \<times> nat) list \<Rightarrow> (int \<times> nat) list) \<Rightarrow>
     ((string \<times> (int \<times> nat) list) list \<Rightarrow> (string \<times> (int \<times> nat) list) list) \<Rightarrow>
     (string \<Rightarrow> int) \<Rightarrow> pg \<times> worker \<Rightarrow> pg \<times> worker" where
  "quota_tick rngc rngp now st =
     foldl (\<lambda>st pid. tick_project rngc (now pid) pid st) st (ActiveProjects rngp (wk_reg (snd st)))"

section \<open>Interleavings\<close>

text \<open>Handlers open and return at any time, between any two projects of a tick; the database changes
  under them.\<close>

inductive worker_step :: "pg \<times> worker \<Rightarrow> pg \<times> worker \<Rightarrow> bool" where
  Opens: "terminal_open hm dec key now header w = (r, w') \<Longrightarrow> worker_step (db, w) (db, w')"
| Returns: "h \<in> set (wk_open w) \<Longrightarrow> worker_step (db, w) (db, terminal_return h w)"
| Ticks: "range_order rng \<Longrightarrow> tick_project rng now pid (db, w) = st \<Longrightarrow> worker_step (db, w) st"
| Changes: "worker_step (db, w) (db', w)"

inductive worker_reach :: "pg \<times> worker \<Rightarrow> bool" where
  Starts: "worker_reach (db, worker_start)"
| Steps: "worker_reach x \<Longrightarrow> worker_step x y \<Longrightarrow> worker_reach y"

inductive_cases worker_stepE: "worker_step x y"

text \<open>The registry holds exactly the open handlers, each under its own number and project.\<close>

definition registry_ok :: "worker \<Rightarrow> bool" where
  "registry_ok w \<longleftrightarrow>
     0 \<le> rg_id (wk_reg w) \<and> distinct (map fst (rg_m (wk_reg w))) \<and>
     (\<forall>pid. distinct (map fst (conns_of (wk_reg w) pid))) \<and>
     (\<forall>pid i c. (i, c) \<in> set (conns_of (wk_reg w) pid) \<longleftrightarrow> (c, pid, i) \<in> set (wk_open w)) \<and>
     (\<forall>(c, pid, i) \<in> set (wk_open w). 0 < i \<and> i \<le> rg_id (wk_reg w) \<and> c < wk_ctxs w) \<and>
     distinct (map fst (wk_open w)) \<and> distinct (map (\<lambda>(c, pid, i). i) (wk_open w)) \<and>
     (\<forall>c \<in> set (wk_cancelled w). c < wk_ctxs w)"

lemma update_fresh: "k \<notin> fst ` set xs \<Longrightarrow> AList.update k v xs = xs @ [(k, v)]"
  by (induction xs) auto

lemma conns_of_Add:
  "conns_of (snd (Add pid c r)) q =
     (if q = pid then AList.update (rg_id r + 1) c (conns_of r pid) else conns_of r q)"
  by (simp add: Add_def Let_def conns_of_def update_conv')

lemma conns_of_unregister:
  "conns_of (unregister pid i r) q = (if q = pid then AList.delete i (conns_of r pid) else conns_of r q)"
  by (auto simp: unregister_def conns_of_def update_conv' split: option.split)

lemma keys_Add: "distinct (map fst (rg_m r)) \<Longrightarrow> distinct (map fst (rg_m (snd (Add pid c r))))"
  by (simp add: Add_def Let_def distinct_update)

lemma keys_unregister: "distinct (map fst (rg_m r)) \<Longrightarrow> distinct (map fst (rg_m (unregister pid i r)))"
  by (auto simp: unregister_def distinct_update split: option.split)

lemma CloseProject_cancelled:
  "range_order rng \<Longrightarrow> set (snd (CloseProject rng pid r cancelled)) = set cancelled \<union> snd ` set (conns_of r pid)"
proof -
  assume "range_order rng"
  have "set (foldl (\<lambda>acc c. c # acc) cancelled xs) = set cancelled \<union> set xs" for xs
    by (induction xs arbitrary: cancelled) auto
  then show ?thesis using range_order_set[OF \<open>range_order rng\<close>] by (simp add: CloseProject_def Let_def)
qed

lemma registry_ok_start: "registry_ok worker_start"
  by (simp add: registry_ok_def worker_start_def NewConnRegistry_def conns_of_def)

lemma registry_ok_cancel:
  "registry_ok w \<Longrightarrow> \<forall>c \<in> set cs. c < wk_ctxs w \<Longrightarrow> registry_ok (w\<lparr>wk_cancelled := cs\<rparr>)"
  by (simp add: registry_ok_def)

lemma registry_ok_open:
  assumes "registry_ok w" "terminal_open hm dec key now header w = (r, w')"
  shows "registry_ok w'"
proof (cases "Verify hm dec key (trim_prefix header ''Bearer '') AudTerminal now")
  case (Inl e)
  with assms show ?thesis by (simp add: terminal_open_def)
next
  case (Inr cl)
  let ?pid = "cl_ProjectID cl" and ?c = "wk_ctxs w" and ?i = "rg_id (wk_reg w) + 1"
  have w': "w' = w\<lparr>wk_reg := snd (Add ?pid ?c (wk_reg w)), wk_ctxs := ?c + 1, wk_open := wk_open w @ [(?c, ?pid, ?i)]\<rparr>"
    using assms(2) Inr by (simp add: terminal_open_def Let_def Add_def)
  have idx: "rg_id (snd (Add ?pid ?c (wk_reg w))) = ?i" by (simp add: Add_def Let_def)
  have old: "0 < i \<and> i < ?i \<and> c < ?c" if "(c, pid, i) \<in> set (wk_open w)" for c pid i
    using assms(1) that by (force simp: registry_ok_def)
  then have fresh: "?i \<notin> fst ` set (conns_of (wk_reg w) ?pid)"
    using assms(1) by (fastforce simp: registry_ok_def)
  have "?i \<notin> (\<lambda>(c, pid, i). i) ` set (wk_open w)" "?c \<notin> fst ` set (wk_open w)" using old by force+
  then show ?thesis
    using assms(1) old fresh unfolding registry_ok_def w'
    by (auto simp: keys_Add conns_of_Add update_fresh idx less_Suc_eq dest: old)
qed

lemma registry_ok_return:
  assumes "registry_ok w" "h \<in> set (wk_open w)"
  shows "registry_ok (terminal_return h w)"
proof -
  obtain c pid i where h: "h = (c, pid, i)" using prod_cases3 by blast
  have "distinct (map (\<lambda>(c, pid, i). i) (wk_open w))" using assms(1) by (simp add: registry_ok_def)
  then have "inj_on (\<lambda>(c, pid, i). i) (set (wk_open w))" by (simp add: distinct_map)
  then have inj: "(c', pid', i) \<in> set (wk_open w) \<Longrightarrow> c' = c \<and> pid' = pid" for c' pid'
    using inj_onD[of _ _ "(c', pid', i)" "(c, pid, i)"] assms(2) h by fastforce
  have c: "c < wk_ctxs w" using assms by (force simp: registry_ok_def h)
  have w': "terminal_return h w = w\<lparr>wk_cancelled := c # wk_cancelled w,
      wk_reg := unregister pid i (wk_reg w), wk_open := removeAll (c, pid, i) (wk_open w)\<rparr>"
    by (simp add: terminal_return_def h Let_def)
  have idx: "rg_id (unregister pid i (wk_reg w)) = rg_id (wk_reg w)"
    by (simp add: unregister_def split: option.split)
  have sub: "distinct (map f (removeAll x xs))" if "distinct (map f xs)" for f :: "nat \<times> string \<times> int \<Rightarrow> 'a" and x xs
    using that by (induction xs) auto
  show ?thesis
    using assms(1) c inj unfolding registry_ok_def w'
    by (auto simp: keys_unregister conns_of_unregister idx sub AList.delete_eq distinct_map_filter)
qed

text \<open>One project of a tick: it cancels all of the project's terminals or nothing, and only if the exact
  windows say so.\<close>

definition over_windows :: "int \<Rightarrow> pg \<Rightarrow> project \<Rightarrow> bool" where
  "over_windows now s p \<longleftrightarrow> over_quota (tick_limits p)
     (pg_win s (p_ID p) (now - 5 * hour)) (pg_win s (p_ID p) (now - 7 * 24 * hour))
     (pg_pool s (p_AccountID p) (now - 5 * hour)) (pg_pool s (p_AccountID p) (now - 7 * 24 * hour))"

lemma tick_limits_sane: "sane_limits (tick_limits p)"
  by (simp add: sane_limits_def tick_limits_def)

lemma tick_project_worker:
  assumes "tick_project rng now pid (db, w) = (db', w')"
  shows "w' = w \<or> w' = w\<lparr>wk_cancelled := snd (CloseProject rng pid (wk_reg w) (wk_cancelled w))\<rparr>"
  using assms by (auto simp: tick_project_def split: prod.splits sum.splits option.splits if_splits)

lemma registry_ok_tick:
  assumes "registry_ok w" "range_order rng" "tick_project rng now pid (db, w) = (db', w')"
  shows "registry_ok w'"
proof -
  have "\<forall>c \<in> set (snd (CloseProject rng pid (wk_reg w) (wk_cancelled w))). c < wk_ctxs w"
    using assms(1) unfolding CloseProject_cancelled[OF assms(2)] registry_ok_def by fastforce
  then show ?thesis using tick_project_worker[OF assms(3)] assms(1) registry_ok_cancel by blast
qed

lemma registry_ok_reach: "worker_reach x \<Longrightarrow> registry_ok (snd x)"
proof (induction rule: worker_reach.induct)
  case (Starts db)
  then show ?case by (simp add: registry_ok_start)
next
  case (Steps x y)
  from Steps(2,3) show ?case
  proof (cases rule: worker_step.cases)
    case (Opens hm dec key now header w r w' db)
    with Steps(3) registry_ok_open show ?thesis by auto
  next
    case (Returns h w db)
    with Steps(3) registry_ok_return show ?thesis by auto
  next
    case (Ticks rng now pid db w)
    with Steps(3) registry_ok_tick[of w rng now pid db "fst y" "snd y"] show ?thesis by auto
  qed auto
qed

lemma Check_state:
  assumes "Check pg_usage_reader pid acc l now s = ((d, e), s')"
  shows "pg_usage s' = pg_usage s" "pg_faults s = [] \<Longrightarrow> s' = s"
  using assms
  by (auto simp: Check_def pg_usage_reader_def Let_def pg_WindowUsed_def pg_PoolUsed_def no_faults dest!: pg_query_state
      split: prod.splits sum.splits if_splits)

lemma tick_project_state:
  assumes "tick_project rng now pid (db, w) = (db', w')"
  shows "pg_projects db' = pg_projects db" "pg_usage db' = pg_usage db" "pg_inv db' = pg_inv db"
    "pg_faults db = [] \<Longrightarrow> db' = db"
proof -
  obtain g db1 where g: "pg_GetProjectByID pid db = (g, db1)" by fastforce
  have db1: "db1 = snd (next_fault db)" using pg_query_state[OF g[unfolded pg_GetProjectByID_def]] .
  have "db' = db1 \<or> (\<exists>acc l d e. Check pg_usage_reader pid acc l now db1 = ((d, e), db'))"
    using assms g by (auto simp: tick_project_def split: prod.splits sum.splits option.splits if_splits)
  then show "pg_projects db' = pg_projects db" "pg_usage db' = pg_usage db" "pg_inv db' = pg_inv db"
    "pg_faults db = [] \<Longrightarrow> db' = db"
    using over_used_windows Check_state unfolding db1 by (auto simp: no_faults)
qed

text \<open>Whatever the faults, a terminal is closed only for a window that is used up; without faults, always
  then.\<close>

lemma tick_project_effect:
  assumes "tick_project rng now pid (db, w) = (db', w')" "range_order rng" "pg_inv db"
    and "\<forall>u \<in> set (pg_usage db). 0 \<le> sint (ue_weighted_units u)"
  shows "set (wk_cancelled w') = set (wk_cancelled w) \<or>
      (set (wk_cancelled w') = set (wk_cancelled w) \<union> snd ` set (conns_of (wk_reg w) pid) \<and>
       (\<exists>p \<in> set (pg_projects db). p_ID p = pid \<and> over_windows now db p))"
    "pg_faults db = [] \<Longrightarrow> sums_fit db \<Longrightarrow> p \<in> set (pg_projects db) \<Longrightarrow> p_ID p = pid \<Longrightarrow> over_windows now db p \<Longrightarrow>
      set (wk_cancelled w') = set (wk_cancelled w) \<union> snd ` set (conns_of (wk_reg w) pid)"
proof -
  obtain g db1 where g: "pg_GetProjectByID pid db = (g, db1)" by fastforce
  note gp = pg_GetProjectByID_spec[OF assms(3) g]
  have over: "dn_Over d \<longleftrightarrow> over_windows now db p"
    if "Check pg_usage_reader pid (p_AccountID p) (tick_limits p) now db1 = ((d, None), db2)" "p_ID p = pid" for d db2 p
    using pg_quota_exact[OF that(1) tick_limits_sane] assms(4) that(2)
    unfolding gp(1) over_windows_def by simp
  show "set (wk_cancelled w') = set (wk_cancelled w) \<or>
      (set (wk_cancelled w') = set (wk_cancelled w) \<union> snd ` set (conns_of (wk_reg w) pid) \<and>
       (\<exists>p \<in> set (pg_projects db). p_ID p = pid \<and> over_windows now db p))"
  proof (cases "w' = w")
    case False
    then obtain p d db2 where "g = Inr p" "Check pg_usage_reader pid (p_AccountID p) (tick_limits p) now db1 = ((d, None), db2)"
      "dn_Over d" "w' = w\<lparr>wk_cancelled := snd (CloseProject rng pid (wk_reg w) (wk_cancelled w))\<rparr>"
      using assms(1) g by (auto simp: tick_project_def split: prod.splits sum.splits option.splits if_splits)
    with gp(2) over CloseProject_cancelled[OF assms(2)] have
      "set (wk_cancelled w') = set (wk_cancelled w) \<union> snd ` set (conns_of (wk_reg w) pid)"
      "p \<in> set (pg_projects db) \<and> p_ID p = pid \<and> over_windows now db p" by simp_all
    then show ?thesis by blast
  qed simp
  show "set (wk_cancelled w') = set (wk_cancelled w) \<union> snd ` set (conns_of (wk_reg w) pid)"
    if f: "pg_faults db = []" "sums_fit db" and p: "p \<in> set (pg_projects db)" "p_ID p = pid" "over_windows now db p"
  proof -
    have "g = Inr p" "db1 = db" using gp(1,3) f(1) p by (simp_all add: no_faults)
    moreover obtain d where "Check pg_usage_reader pid (p_AccountID p) (tick_limits p) now db = ((d, None), db)"
      using Check_healthy[OF f] by blast
    ultimately have "w' = w\<lparr>wk_cancelled := snd (CloseProject rng pid (wk_reg w) (wk_cancelled w))\<rparr>"
      using assms(1) g over p by (simp add: tick_project_def)
    then show ?thesis by (simp add: CloseProject_cancelled[OF assms(2)])
  qed
qed

lemma pg_win_tick:
  assumes "tick_project rng now pid (db, w) = (db', w')"
  shows "over_windows t db' p = over_windows t db p" "sums_fit db \<Longrightarrow> pg_faults db = [] \<Longrightarrow> sums_fit db'"
    "wk_reg w' = wk_reg w" "wk_open w' = wk_open w"
proof -
  show "over_windows t db' p = over_windows t db p"
    unfolding over_windows_def pg_win_def pg_pool_def tick_project_state(1,2)[OF assms] ..
  show "sums_fit db \<Longrightarrow> pg_faults db = [] \<Longrightarrow> sums_fit db'" using tick_project_state(4)[OF assms] by simp
  show "wk_reg w' = wk_reg w" "wk_open w' = wk_open w" using tick_project_worker[OF assms] by auto
qed

lemma tick_fold:
  assumes "foldl (\<lambda>st pid. tick_project rng (now pid) pid st) (db, w) pids = (db', w')"
    and "range_order rng" "pg_inv db" "\<forall>u \<in> set (pg_usage db). 0 \<le> sint (ue_weighted_units u)"
  shows "wk_reg w' = wk_reg w \<and> wk_open w' = wk_open w \<and> set (wk_cancelled w) \<subseteq> set (wk_cancelled w') \<and>
    (\<forall>c \<in> set (wk_cancelled w') - set (wk_cancelled w). \<exists>pid \<in> set pids. c \<in> snd ` set (conns_of (wk_reg w) pid) \<and>
       (\<exists>p \<in> set (pg_projects db). p_ID p = pid \<and> over_windows (now pid) db p)) \<and>
    (pg_faults db = [] \<longrightarrow> sums_fit db \<longrightarrow> (\<forall>pid \<in> set pids. \<forall>p \<in> set (pg_projects db).
       p_ID p = pid \<longrightarrow> over_windows (now pid) db p \<longrightarrow> snd ` set (conns_of (wk_reg w) pid) \<subseteq> set (wk_cancelled w')))"
  using assms
proof (induction pids arbitrary: db w)
  case (Cons pid pids)
  obtain db1 w1 where t: "tick_project rng (now pid) pid (db, w) = (db1, w1)" by fastforce
  note st = tick_project_state[OF t] and k = pg_win_tick[OF t]
  note eff = tick_project_effect[OF t Cons.prems(2,3,4)]
  have "foldl (\<lambda>st pid. tick_project rng (now pid) pid st) (db1, w1) pids = (db', w')"
    using Cons.prems(1) t by simp
  from Cons.IH[OF this Cons.prems(2)] Cons.prems(3,4) st(2,3) have IH:
    "wk_reg w' = wk_reg w" "wk_open w' = wk_open w" "set (wk_cancelled w1) \<subseteq> set (wk_cancelled w')"
    "\<forall>c \<in> set (wk_cancelled w') - set (wk_cancelled w1). \<exists>pid \<in> set pids. c \<in> snd ` set (conns_of (wk_reg w) pid) \<and>
       (\<exists>p \<in> set (pg_projects db). p_ID p = pid \<and> over_windows (now pid) db p)"
    "pg_faults db1 = [] \<longrightarrow> sums_fit db1 \<longrightarrow> (\<forall>pid \<in> set pids. \<forall>p \<in> set (pg_projects db).
       p_ID p = pid \<longrightarrow> over_windows (now pid) db p \<longrightarrow> snd ` set (conns_of (wk_reg w) pid) \<subseteq> set (wk_cancelled w'))"
    unfolding st(1) k(1,3,4) by simp_all
  have sub: "set (wk_cancelled w) \<subseteq> set (wk_cancelled w1)" using eff(1) by blast
  have new: "\<exists>pid' \<in> set (pid # pids). c \<in> snd ` set (conns_of (wk_reg w) pid') \<and>
       (\<exists>p \<in> set (pg_projects db). p_ID p = pid' \<and> over_windows (now pid') db p)"
    if "c \<in> set (wk_cancelled w') - set (wk_cancelled w)" for c
  proof (cases "c \<in> set (wk_cancelled w1)")
    case True
    with that eff(1) show ?thesis by auto
  next
    case False
    with that IH(4) show ?thesis by auto
  qed
  have all: "snd ` set (conns_of (wk_reg w) pid') \<subseteq> set (wk_cancelled w')"
    if f: "pg_faults db = []" "sums_fit db" and p: "pid' \<in> set (pid # pids)" "p \<in> set (pg_projects db)" "p_ID p = pid'"
      "over_windows (now pid') db p" for pid' p
  proof (cases "pid' = pid")
    case True
    with eff(2)[OF f p(2)] p(3,4) IH(3) show ?thesis by blast
  next
    case False
    with p have "pid' \<in> set pids" by simp
    with IH(5) f p st(4)[OF f(1)] show ?thesis by blast
  qed
  show ?case using IH(1,2,3) sub new all by blast
qed simp

lemma active_iff:
  assumes "distinct (map fst (rg_m r))" "range_order rng"
  shows "pid \<in> set (ActiveProjects rng r) \<longleftrightarrow> conns_of r pid \<noteq> []"
proof -
  have "pid \<in> set (ActiveProjects rng r) \<longleftrightarrow> (\<exists>cs. (pid, cs) \<in> set (rg_m r) \<and> cs \<noteq> [])"
    by (force simp: ActiveProjects_def range_order_set[OF assms(2)])
  also have "\<dots> \<longleftrightarrow> (\<exists>cs. map_of (rg_m r) pid = Some cs \<and> cs \<noteq> [])"
    by (simp add: map_of_eq_Some_iff[OF assms(1)])
  finally show ?thesis by (simp add: conns_of_def split: option.split)
qed

lemma conns_iff_open:
  assumes "registry_ok w"
  shows "conns_of (wk_reg w) pid \<noteq> [] \<longleftrightarrow> pid \<in> (\<lambda>(c, pid, i). pid) ` set (wk_open w)"
proof -
  have "conns_of (wk_reg w) pid \<noteq> [] \<longleftrightarrow> (\<exists>i c. (i, c) \<in> set (conns_of (wk_reg w) pid))"
    by (cases "conns_of (wk_reg w) pid") auto
  also have "\<dots> \<longleftrightarrow> (\<exists>i c. (c, pid, i) \<in> set (wk_open w))" using assms by (simp add: registry_ok_def)
  finally show ?thesis by force
qed

section \<open>Properties of the registry and the ticker\<close>

text \<open>C33. The registry is right under every interleaving of handlers and ticks: each open terminal is
  registered exactly once, under its own project, number and context; no other entry is left; no
  number or context is used twice; and the active projects are exactly those with an open
  terminal, each listed once.\<close>

theorem registry_tracks_terminals:
  assumes "worker_reach (db, w)" and "range_order rng"
  shows "(\<forall>pid i c. (i, c) \<in> set (conns_of (wk_reg w) pid) \<longleftrightarrow> (c, pid, i) \<in> set (wk_open w)) \<and>
    (\<forall>pid. distinct (map fst (conns_of (wk_reg w) pid))) \<and>
    distinct (map fst (wk_open w)) \<and> distinct (map (\<lambda>(c, pid, i). i) (wk_open w)) \<and>
    set (ActiveProjects rng (wk_reg w)) = (\<lambda>(c, pid, i). pid) ` set (wk_open w) \<and>
    distinct (ActiveProjects rng (wk_reg w))"
proof -
  have ok: "registry_ok w" using registry_ok_reach[OF assms(1)] by simp
  then have keys: "distinct (map fst (rg_m (wk_reg w)))" by (simp add: registry_ok_def)
  have "set (ActiveProjects rng (wk_reg w)) = (\<lambda>(c, pid, i). pid) ` set (wk_open w)"
    using active_iff[OF keys assms(2)] conns_iff_open[OF ok] by blast
  moreover have "mset (map fst (rng (rg_m (wk_reg w)))) = mset (map fst (rg_m (wk_reg w)))"
    using assms(2) by (simp add: range_order_def)
  then have "distinct (map fst (rng (rg_m (wk_reg w))))"
    using keys by (rule mset_eq_imp_distinct_iff[THEN iffD2])
  then have "distinct (ActiveProjects rng (wk_reg w))"
    by (simp add: ActiveProjects_def distinct_map_filter)
  ultimately show ?thesis using ok by (simp add: registry_ok_def)
qed

text \<open>C32. A tick closes exactly what it should: in every reachable state of the worker, a tick cancels
  only terminals of projects whose exact window has reached its limit, even when queries fail; and
  when the database answers it cancels every one of them.\<close>

theorem tick_closes_over_projects:
  assumes "worker_reach (db, w)" and "quota_tick rngc rngp now (db, w) = (db', w')"
    and "range_order rngc" and "range_order rngp" and "pg_inv db"
    and "\<forall>u \<in> set (pg_usage db). 0 \<le> sint (ue_weighted_units u)"
  shows "set (wk_cancelled w) \<subseteq> set (wk_cancelled w') \<and>
    (\<forall>c \<in> set (wk_cancelled w') - set (wk_cancelled w). \<exists>pid i p. (c, pid, i) \<in> set (wk_open w) \<and>
       p \<in> set (pg_projects db) \<and> p_ID p = pid \<and> over_windows (now pid) db p) \<and>
    (pg_faults db = [] \<and> sums_fit db \<longrightarrow> (\<forall>(c, pid, i) \<in> set (wk_open w).
       (\<exists>p \<in> set (pg_projects db). p_ID p = pid \<and> over_windows (now pid) db p) \<longrightarrow> c \<in> set (wk_cancelled w')))"
proof -
  have ok: "(i, c) \<in> set (conns_of (wk_reg w) pid) \<longleftrightarrow> (c, pid, i) \<in> set (wk_open w)" for i c pid
    using registry_ok_reach[OF assms(1)] by (simp add: registry_ok_def)
  have act: "pid \<in> set (ActiveProjects rngp (wk_reg w))" if "(c, pid, i) \<in> set (wk_open w)" for c pid i
  proof -
    from ok[of i c pid] that have "conns_of (wk_reg w) pid \<noteq> []" by auto
    moreover have "distinct (map fst (rg_m (wk_reg w)))"
      using registry_ok_reach[OF assms(1)] by (simp add: registry_ok_def)
    ultimately show ?thesis by (simp add: active_iff assms(4))
  qed
  note T = tick_fold[OF assms(2)[unfolded quota_tick_def snd_conv] assms(3,5,6)]
  have only: "\<exists>pid i p. (c, pid, i) \<in> set (wk_open w) \<and> p \<in> set (pg_projects db) \<and> p_ID p = pid \<and> over_windows (now pid) db p"
    if "c \<in> set (wk_cancelled w') - set (wk_cancelled w)" for c
  proof -
    from T that obtain pid p where p: "c \<in> snd ` set (conns_of (wk_reg w) pid)" "p \<in> set (pg_projects db)"
      "p_ID p = pid" "over_windows (now pid) db p" by blast
    from p(1) obtain i where "(i, c) \<in> set (conns_of (wk_reg w) pid)" by force
    with p ok show ?thesis by blast
  qed
  have all: "c \<in> set (wk_cancelled w')"
    if "pg_faults db = []" "sums_fit db" "(c, pid, i) \<in> set (wk_open w)" "p \<in> set (pg_projects db)" "p_ID p = pid"
      "over_windows (now pid) db p" for c pid i p
  proof -
    have "snd ` set (conns_of (wk_reg w) pid) \<subseteq> set (wk_cancelled w')" using T that act[OF that(3)] by blast
    moreover have "c \<in> snd ` set (conns_of (wk_reg w) pid)" using ok[of i c pid] that(3) by force
    ultimately show ?thesis by blast
  qed
  have sub: "set (wk_cancelled w) \<subseteq> set (wk_cancelled w')" using T by blast
  show ?thesis using sub only all by (intro conjI ballI impI) auto
qed

definition demo_term_tok :: string where
  "demo_term_tok = b64_encode b64_url (the (demo_enc \<lparr>cl_ProjectID = ''p1'', cl_Audience = AudTerminal, cl_ExpiresAt = 200\<rparr>))
     @ ''.'' @ b64_encode b64_url ''key''"

definition demo_worker :: worker where
  "demo_worker = \<lparr>wk_reg = \<lparr>rg_m = [(''p1'', [(1, 0)])], rg_id = 1\<rparr>, wk_ctxs = 1, wk_cancelled = [],
     wk_open = [(0, ''p1'', 1)]\<rparr>"

lemma demo_worker_reach: "worker_reach (db, demo_worker)"
proof -
  have "terminal_open demo_hmac demo_dec ''key'' 100 (''Bearer '' @ demo_term_tok) worker_start =
      (Some (0, ''p1'', 1), demo_worker)" by code_simp
  then show ?thesis using worker_reach.Steps[OF worker_reach.Starts worker_step.Opens] by blast
qed

theorem registry_tracks_terminals_witness:
  "worker_reach (demo_db, demo_worker) \<and> wk_open demo_worker = [(0, ''p1'', 1)] \<and>
   set (ActiveProjects (\<lambda>xs. xs) (wk_reg demo_worker)) = {''p1''}"
  using demo_worker_reach registry_tracks_terminals[OF demo_worker_reach range_order_id]
  by (simp add: demo_worker_def)

definition demo_busy :: pg where
  "demo_busy = demo_db\<lparr>pg_usage := [\<lparr>ue_project_id = ''p1'', ue_occurred_at = 199 * hour, ue_weighted_units = 15,
     ue_source_event_id = ''r1''\<rparr>]\<rparr>"

lemma demo_busy_facts:
  "pg_inv demo_busy" "pg_faults demo_busy = []" "sums_fit demo_busy" "demo_project \<in> set (pg_projects demo_busy)"
  "\<forall>u \<in> set (pg_usage demo_busy). 0 \<le> sint (ue_weighted_units u)" "over_windows (200 * hour) demo_busy demo_project"
proof -
  show i: "pg_inv demo_busy" by code_simp
  have "total_size (pg_idx demo_busy pid) = 0" for pid
    unfolding total_size_rows[OF i] by (simp add: demo_busy_def demo_db_def project_rows_def)
  then show "sums_fit demo_busy"
    by (simp add: sums_fit_def pg_win_def pg_pool_def demo_busy_def demo_db_def fits64_def)
qed (simp_all add: demo_busy_def demo_db_def over_windows_def over_quota_def tick_limits_def pg_win_def demo_project_def
      hour_def)

theorem tick_closes_over_projects_witness:
  "\<exists>db' w'. quota_tick (\<lambda>xs. xs) (\<lambda>xs. xs) (\<lambda>_. 200 * hour) (demo_busy, demo_worker) = (db', w') \<and>
     set (wk_cancelled w') = {0}"
proof -
  obtain db' w' where t: "quota_tick (\<lambda>xs. xs) (\<lambda>xs. xs) (\<lambda>_. 200 * hour) (demo_busy, demo_worker) = (db', w')"
    by fastforce
  from tick_closes_over_projects[OF demo_worker_reach t range_order_id range_order_id demo_busy_facts(1,5)]
  have "(\<forall>c \<in> set (wk_cancelled w') - set (wk_cancelled demo_worker). \<exists>pid i. (c, pid, i) \<in> set (wk_open demo_worker))"
    "\<forall>(c, pid, i) \<in> set (wk_open demo_worker). (\<exists>p \<in> set (pg_projects demo_busy). p_ID p = pid \<and>
       over_windows (200 * hour) demo_busy p) \<longrightarrow> c \<in> set (wk_cancelled w')"
    using demo_busy_facts(2,3) by blast+
  moreover have "p_ID demo_project = ''p1''" by (simp add: demo_project_def)
  ultimately have "set (wk_cancelled w') = {0}"
    using demo_busy_facts(4,6) by (auto simp: demo_worker_def)
  with t show ?thesis by blast
qed

end
