(* ===== verification/Control_Link.thy ===== *)
theory Control_Link
  imports Cclaude Terminal
begin

text \<open>
  The client of \<^verbatim>\<open>internal/control/client.go\<close> on a network that leads to the handlers of
  \<^verbatim>\<open>internal/control/http.go\<close>. A request is lost, or handled with its answer lost, or answered;
  the database fails by its own schedule. Shown is what a client that got through may rely on.
\<close>

section \<open>From one end to the other\<close>

text \<open>The JSON forms of the bodies, and the page of \<open>usagePage\<close>.\<close>

record api_json =
  aj_cdk :: "string \<Rightarrow> bytes"
  aj_session :: "session_body \<Rightarrow> bytes"
  aj_read_session :: "bytes \<Rightarrow> session_body option"
  aj_conn :: "connection_response \<Rightarrow> bytes"
  aj_read_conn :: "bytes \<Rightarrow> connection_response option"
  aj_error :: "string \<Rightarrow> bytes"
  aj_page :: "project \<Rightarrow> decision \<Rightarrow> int64 \<Rightarrow> bytes"

text \<open>What \<open>writeJSON\<close>, \<open>httpErr\<close> and the router put on the wire; nothing, if the handler panicked.\<close>

definition api_reply :: "api_json \<Rightarrow> answer \<Rightarrow> http_reply option" where
  "api_reply J a = (case a of
     HttpErr code msg \<Rightarrow> Some \<lparr>hp_Status = code, hp_Body = aj_error J msg\<rparr>
   | SessionAnswer sb \<Rightarrow> Some \<lparr>hp_Status = 200, hp_Body = aj_session J sb\<rparr>
   | ConnAnswer c \<Rightarrow> Some \<lparr>hp_Status = 200, hp_Body = aj_conn J c\<rparr>
   | UsagePage p d n \<Rightarrow> Some \<lparr>hp_Status = 200, hp_Body = aj_page J p d n\<rparr>
   | NotFound \<Rightarrow> Some \<lparr>hp_Status = 404, hp_Body = ''404 page not found''\<rparr>
   | MethodNotAllowed \<Rightarrow> Some \<lparr>hp_Status = 405, hp_Body = ''Method Not Allowed''\<rparr>
   | Aborted \<Rightarrow> None)"

text \<open>The request as the server sees it, from the address \<open>addr\<close>.\<close>

definition api_request :: "string \<Rightarrow> string \<Rightarrow> http_call \<Rightarrow> http_request" where
  "api_request url addr q = \<lparr>hq_Method = hc_Method q, hq_Path = drop (length url) (hc_URL q), hq_RemoteAddr = addr,
     hq_Authorization = hc_Auth q, hq_Body = hc_Body q\<rparr>"

datatype delivery = Lost | Unanswered | Answered

text \<open>The server's state, the fates of the requests to come with the clocks they are handled at, and
  whether the waits to come end with the timer. A schedule that is used up loses what follows.\<close>

record 's api_link =
  al_api :: "'s \<times> attempts"
  al_sched :: "(delivery \<times> exchange_clock) list"
  al_waits :: "bool list"

definition api_net :: "'s control \<Rightarrow> api_json \<Rightarrow> string \<Rightarrow> string \<Rightarrow> 's api_link net" where
  "api_net S J url addr = \<lparr>
     nt_URL = (\<lambda>_. True),
     nt_Do = (\<lambda>q st. case al_sched st of
        [] \<Rightarrow> (None, st)
      | (Lost, clk) # rest \<Rightarrow> (None, st\<lparr>al_sched := rest\<rparr>)
      | (d, clk) # rest \<Rightarrow>
          (case Handler S clk (api_request url addr q) (al_api st) of
             (a, api) \<Rightarrow> (if d = Answered then api_reply J a else None, st\<lparr>al_api := api, al_sched := rest\<rparr>))),
     nt_After = (\<lambda>_ st. case al_waits st of [] \<Rightarrow> (True, st) | b # rest \<Rightarrow> (b, st\<lparr>al_waits := rest\<rparr>))\<rparr>"

text \<open>\<open>exchangeSession\<close> of \<^verbatim>\<open>cmd/cclaude/main.go\<close>.\<close>

definition exchangeSession :: "'s net \<Rightarrow> api_json \<Rightarrow> client \<Rightarrow> string \<Rightarrow> 's \<Rightarrow> string option \<times> 's" where
  "exchangeSession N J c cdk s =
     (case Exchange N (aj_cdk J) (aj_read_session J) c cdk s of
        ((None, Some ex), ev, s) \<Rightarrow> (Some (sb_SessionToken ex), s)
      | (_, ev, s) \<Rightarrow> (None, s))"

section \<open>What a call that succeeded has got\<close>

text \<open>A call that decoded something got it from its last request; what every request and wait keeps held
  before that.\<close>

lemma try_answer:
  assumes "try_from N q decode n b e s = ((None, Some x), ev, s')" "I s"
    and "\<And>s r s'. I s \<Longrightarrow> nt_Do N q s = (r, s') \<Longrightarrow> I s'" "\<And>d s r s'. I s \<Longrightarrow> nt_After N d s = (r, s') \<Longrightarrow> I s'"
  shows "\<exists>s1 resp. I s1 \<and> nt_Do N q s1 = (Some resp, s') \<and> hp_Status resp < 400 \<and> decode (hp_Body resp) = Some x"
  using assms(1,2)
proof (induction n arbitrary: b e s ev rule: measure_induct_rule[of "\<lambda>n. 5 - n"])
  case (less n)
  note unfolded = less(2)[unfolded try_from.simps[of N q decode n b e s]]
  have n: "n < 5" using unfolded by (auto split: if_splits)
  obtain b' ev0 s1 where w: "wait_turn N n b s = (Some b', ev0, s1)"
    using unfolded n by (auto split: prod.splits option.splits if_splits)
  have I1: "I s1" using w less(3) assms(4) by (auto simp: wait_turn_def split: if_splits prod.splits bool.splits)
  obtain reply s2 where d: "nt_Do N q s1 = (reply, s2)" by fastforce
  show ?case
  proof (cases "read_reply decode reply")
    case (Inl e')
    obtain ev' where "try_from N q decode (n + 1) b' (Some e') s2 = ((None, Some x), ev', s')"
      using unfolded n w d Inl by (auto split: prod.splits if_splits)
    from less(1)[OF _ this assms(3)[OF I1 d]] n show ?thesis by simp
  next
    case (Inr result)
    then have "read_reply decode reply = Inr (None, Some x)" "s2 = s'"
      using unfolded n w d by (auto split: if_splits)
    with I1 d show ?thesis by (auto simp: read_reply_def split: option.splits if_splits)
  qed
qed

lemma api_net_Do:
  assumes "nt_Do (api_net S J url addr) q st = (r, st')"
  obtains (lost) "r = None" "al_api st' = al_api st"
    | (handled) clk a where "Handler S clk (api_request url addr q) (al_api st) = (a, al_api st')"
        "r = None \<or> r = api_reply J a"
proof (cases "al_sched st")
  case Nil
  with assms lost show thesis by (simp add: api_net_def)
next
  case (Cons x rest)
  obtain d clk where x: "x = (d, clk)" by fastforce
  obtain a api where h: "Handler S clk (api_request url addr q) (al_api st) = (a, api)" by (metis prod.collapse)
  show thesis
  proof (cases d)
    case Lost
    with assms Cons x lost show thesis by (auto simp: api_net_def)
  next
    case Unanswered
    with assms Cons x h handled[of clk a] show thesis by (auto simp: api_net_def)
  next
    case Answered
    with assms Cons x h handled[of clk a] show thesis by (auto simp: api_net_def)
  qed
qed

lemma api_net_After:
  "nt_After (api_net S J url addr) d st = (r, st') \<Longrightarrow> al_api st' = al_api st"
  by (auto simp: api_net_def split: list.splits)

text \<open>An exchange only reads: the tables of the database stay as they are.\<close>

definition same_tables :: "pg \<Rightarrow> pg \<Rightarrow> bool" where
  "same_tables s s' \<longleftrightarrow> (\<exists>f. s' = s\<lparr>pg_faults := f\<rparr>)"

lemma same_tables_refl: "same_tables s s"
  unfolding same_tables_def by (rule exI[of _ "pg_faults s"]) simp

lemma same_tables_next: "same_tables s (snd (next_fault s))"
  using same_tables_refl by (auto simp: same_tables_def next_fault_def split: list.split)

lemma same_tables_trans: "same_tables a b \<Longrightarrow> same_tables b c \<Longrightarrow> same_tables a c"
  by (auto simp: same_tables_def)

lemma resolve_same_tables: "pg_ResolveCDK idkey now cdk s = (r, s') \<Longrightarrow> same_tables s s'"
  using same_tables_refl same_tables_next
  by (auto simp: pg_ResolveCDK_def dest!: pg_query_state split: sum.splits prod.splits go_run.splits bool.splits)

lemma resolved_project:
  assumes "pg_ResolveCDK idkey now cdk s = (Returns (Inr p), s')"
  shows "p \<in> set (pg_projects s)"
proof -
  obtain pub secret r s1 where "SplitCDK cdk = Inr (pub, secret)"
    and q: "pg_query (\<lambda>s. case pg_lookup_pub now s pub of None \<Rightarrow> Inl DbError | Some r \<Rightarrow> Inr r) s = (r, s1)"
    using assms by (auto simp: pg_ResolveCDK_def split: sum.splits prod.splits)
  with assms obtain h where "r = Inr (h, p)" by (auto simp: pg_ResolveCDK_def split: sum.splits go_run.splits bool.splits)
  with pg_query_cases[OF q] have l: "pg_lookup_pub now s1 pub = Some (h, p)" "s1 = snd (next_fault s)"
    by (auto split: option.splits)
  define P where "P = (\<lambda>(c, p :: project). p_ID p = ck_project_id c \<and> ck_public_id c = pub \<and> cdk_live now c)"
  obtain c xs where "filter P (List.product (pg_cdks s1) (pg_projects s1)) = (c, p) # xs"
    using l(1) unfolding pg_lookup_pub_def P_def by (auto split: list.splits)
  then have "(c, p) \<in> set (List.product (pg_cdks s1) (pg_projects s1))" by (metis filter_eq_ConsD in_set_conv_decomp)
  with l(2) show ?thesis by simp
qed

lemma exchange_answer:
  assumes "exchange (fst (pg_control idkey hm enc dec body key lim base)) clk r (s, m) = (a, s', m')"
  shows "same_tables s s' \<and> (\<forall>sb. a = SessionAnswer sb \<longrightarrow>
    (\<exists>cdk p. body (hq_Body r) = Some cdk \<and> pg_ResolveCDK idkey (xc_query clk) cdk s = (Returns (Inr p), s') \<and>
       Mint hm enc key (p_ID p) AudSession (15 * minute) (xc_mint clk) = Inr (sb_SessionToken sb)))"
proof -
  let ?S = "fst (pg_control idkey hm enc dec body key lim base)"
  obtain ok m1 where al: "allowAuth ?S (clientIP r) (xc_cutoff clk) (xc_stamp clk) m = (ok, m1)" by fastforce
  show ?thesis
  proof (cases "ok \<and> body (hq_Body r) \<noteq> None")
    case False
    with assms al show ?thesis by (auto simp: exchange_def same_tables_refl split: bool.splits option.splits)
  next
    case True
    then obtain cdk where b: "body (hq_Body r) = Some cdk" "ok" by blast
    obtain x s1 where x: "pg_ResolveCDK idkey (xc_query clk) cdk s = (x, s1)" by fastforce
    have "s1 = s'" using assms al b x by (auto simp: exchange_def split: go_run.splits sum.splits)
    with assms al b x resolve_same_tables[OF x] show ?thesis
      by (auto simp: exchange_def split: go_run.splits sum.splits)
  qed
qed

section \<open>Tokens on their way\<close>

text \<open>What tokens are made of, and what is asked of the JSON forms: such strings survive.\<close>

definition plain_text :: "string \<Rightarrow> bool" where
  "plain_text t \<longleftrightarrow> set t \<subseteq> insert (CHR ''.'') (set b64_url)"

definition api_json_ok :: "api_json \<Rightarrow> bool" where
  "api_json_ok J \<longleftrightarrow>
     (\<forall>sb sb'. plain_text (sb_SessionToken sb) \<longrightarrow> aj_read_session J (aj_session J sb) = Some sb' \<longrightarrow>
        sb_SessionToken sb' = sb_SessionToken sb) \<and>
     (\<forall>c c'. plain_text (cr_TerminalToken c) \<longrightarrow> plain_text (cr_SyncToken c) \<longrightarrow> aj_read_conn J (aj_conn J c) = Some c' \<longrightarrow>
        cr_TerminalToken c' = cr_TerminalToken c \<and> cr_SyncToken c' = cr_SyncToken c)"

text \<open>Whatever the JSON form of claims makes of a time, it keeps the project.\<close>

definition claims_kept :: "(claims \<Rightarrow> bytes option) \<Rightarrow> (bytes \<Rightarrow> claims option) \<Rightarrow> string \<Rightarrow> bool" where
  "claims_kept enc dec pid \<longleftrightarrow> (\<forall>aud \<in> {AudSession, AudTerminal, AudSync}. \<forall>e b c. enc \<lparr>cl_ProjectID = pid, cl_Audience = aud, cl_ExpiresAt = e\<rparr> = Some b \<longrightarrow>
     dec b = Some c \<longrightarrow> cl_ProjectID c = pid)"

lemma plain_text_nil: "plain_text ''''"
  by (simp add: plain_text_def)

lemma Mint_plain:
  assumes "Mint hm enc key pid aud ttl now = Inr tok"
  shows "plain_text tok"
proof -
  have b: "set (b64_encode b64_url bs) \<subseteq> set b64_url" for bs by (rule set_b64_encode) simp
  obtain x where "tok = b64_encode b64_url x @ ''.'' @ b64_encode b64_url (hm key (b64_encode b64_url x))"
    using assms by (auto simp: Mint_def Let_def tok_sign_def split: option.splits)
  then show ?thesis using b[of x] b[of "hm key (b64_encode b64_url x)"] unfolding plain_text_def by auto
qed

lemma Mint_kept:
  assumes "Mint hm enc key pid aud ttl now = Inr tok" "claims_kept enc dec pid" "Verify hm dec key tok aud' t = Inr cl"
    and "aud \<in> {AudSession, AudTerminal, AudSync}"
  shows "cl_ProjectID cl = pid"
proof -
  obtain b where b: "enc \<lparr>cl_ProjectID = pid, cl_Audience = aud, cl_ExpiresAt = now + ttl\<rparr> = Some b"
    "tok = b64_encode b64_url b @ ''.'' @ tok_sign hm key (b64_encode b64_url b)"
    using assms(1) by (auto simp: Mint_def Let_def split: option.splits)
  then have "split_ch (CHR ''.'') tok = [b64_encode b64_url b, tok_sign hm key (b64_encode b64_url b)]"
    unfolding split_two using tok_sign_clean b64_encode_clean by simp
  with assms(3) have "dec b = Some cl"
    by (auto simp: Verify_def b64_decode_encode split: option.splits if_splits)
  with assms(2,4) b(1) show ?thesis unfolding claims_kept_def by blast
qed

lemma minted_kept:
  assumes "claims_kept (ca_enc S) dec pid" "Verify (ca_hmac S) dec (ca_Key S) (minted S pid aud now) aud' t = Inr cl"
    and "aud \<in> {AudSession, AudTerminal, AudSync}"
  shows "cl_ProjectID cl = pid"
  using assms Mint_kept[of "ca_hmac S" "ca_enc S" "ca_Key S" pid aud connTokenTTL now]
  by (auto simp: minted_def Verify_def split_ch_single split: sum.splits)

lemma minted_plain: "plain_text (minted S pid aud now)"
proof (cases "Mint (ca_hmac S) (ca_enc S) (ca_Key S) pid aud connTokenTTL now")
  case (Inr tok)
  with Mint_plain[OF Inr] show ?thesis by (simp add: minted_def)
qed (simp add: minted_def plain_text_def)

section \<open>What a client holds\<close>

lemma exchanged:
  assumes S: "S = fst (pg_control idkey hm enc dec body key lim base)" and J: "api_json_ok J"
    and e: "exchangeSession (api_net S J url addr) J \<lparr>cc_Base = url, cc_RetryBase = rb\<rparr> cdk st = (Some tok, st')"
  shows "\<exists>cdk' (clk :: exchange_clock) p s1 s2. body (aj_cdk J cdk) = Some cdk' \<and> same_tables (fst (al_api st)) s1 \<and>
    pg_ResolveCDK idkey (xc_query clk) cdk' s1 = (Returns (Inr p), s2) \<and>
    Mint hm enc key (p_ID p) AudSession (15 * minute) (xc_mint clk) = Inr tok"
proof -
  let ?q = "\<lparr>hc_Method = ''POST'', hc_URL = url @ ''/v1/auth/exchange'', hc_Auth = '''', hc_Body = aj_cdk J cdk\<rparr>"
  let ?r = "api_request url addr ?q" and ?N = "api_net S J url addr"
  have h: "Handler S clk ?r x = exchange S clk ?r x" for clk x
    by (simp add: Handler_def api_request_def Let_def)
  let ?I = "\<lambda>st1. same_tables (fst (al_api st)) (fst (al_api st1))"
  obtain ex ev where t: "try_from ?N ?q (aj_read_session J) 0 (first_backoff rb) None st = ((None, Some ex), ev, st')"
    and tok: "tok = sb_SessionToken ex"
    using e by (auto simp: exchangeSession_def Exchange_def doJSON_def split: prod.splits option.splits)
  have keep: "?I s'" if "?I s" "nt_Do ?N ?q s = (r, s')" for s r s'
    using that(2)
  proof (cases rule: api_net_Do)
    case (handled clk a)
    obtain d m d' m' where "al_api s = (d, m)" "al_api s' = (d', m')" by fastforce
    moreover from this handled(1)[unfolded h, unfolded S] have "same_tables d d'"
      using exchange_answer[of idkey hm enc dec body key lim base clk ?r d m a d' m'] by (simp add: S)
    ultimately show ?thesis using that(1) same_tables_trans[of "fst (al_api st)" d d'] by simp
  qed (use that(1) in simp)
  have "\<exists>s1 resp. ?I s1 \<and> nt_Do ?N ?q s1 = (Some resp, st') \<and> hp_Status resp < 400 \<and> aj_read_session J (hp_Body resp) = Some ex"
    by (rule try_answer[OF t]) (use keep api_net_After same_tables_refl in \<open>auto simp: api_net_def split: list.splits\<close>)
  then obtain s1 resp where A: "?I s1" "nt_Do ?N ?q s1 = (Some resp, st')" "hp_Status resp < 400"
    "aj_read_session J (hp_Body resp) = Some ex" by blast
  from A(2) obtain clk a where H: "exchange S clk ?r (al_api s1) = (a, al_api st')" "api_reply J a = Some resp"
    by (cases rule: api_net_Do) (auto simp: h)
  obtain d m d' m' where dm: "al_api s1 = (d, m)" "al_api st' = (d', m')" by fastforce
  note E = exchange_answer[OF H(1)[unfolded S dm]]
  obtain sb where sb: "a = SessionAnswer sb"
    using H A(3) by (cases "al_api s1") (auto simp: exchange_def api_reply_def split: prod.splits bool.splits option.splits go_run.splits sum.splits)
  with E obtain cdk' p where p: "body (aj_cdk J cdk) = Some cdk'" "pg_ResolveCDK idkey (xc_query clk) cdk' d = (Returns (Inr p), d')"
    "Mint hm enc key (p_ID p) AudSession (15 * minute) (xc_mint clk) = Inr (sb_SessionToken sb)"
    by (auto simp: api_request_def)
  have "hp_Body resp = aj_session J sb" using H(2) sb by (auto simp: api_reply_def)
  then have "aj_read_session J (aj_session J sb) = Some ex" using A(4) by simp
  with J[unfolded api_json_ok_def, THEN conjunct1] Mint_plain[OF p(3)] tok have "tok = sb_SessionToken sb" by blast
  moreover have "same_tables (fst (al_api st)) d" using A(1) dm(1) by simp
  ultimately show ?thesis using p by blast
qed

lemma connected:
  assumes J: "api_json_ok J"
    and e: "Connection (api_net S J url addr) (aj_read_conn J) \<lparr>cc_Base = url, cc_RetryBase = rb\<rparr> tok st = ((None, Some conn), ev, st')"
  shows "\<exists>t cl p now s s'. Verify (ca_hmac S) (ca_dec S) (ca_Key S) tok AudSession t = Inr cl \<and>
    ca_GetProject S (cl_ProjectID cl) s = (Inr p, s') \<and> cr_SyncToken conn = minted S (p_ID p) AudSync now \<and>
    (cr_TerminalToken conn = '''' \<or> cr_TerminalToken conn = minted S (p_ID p) AudTerminal now)"
proof -
  let ?q = "\<lparr>hc_Method = ''GET'', hc_URL = url @ ''/v1/connection'', hc_Auth = ''Bearer '' @ tok, hc_Body = ''''\<rparr>"
  let ?r = "api_request url addr ?q" and ?N = "api_net S J url addr"
  obtain resp where d: "nt_Do ?N ?q st = (Some resp, st')" "hp_Status resp = 200" "aj_read_conn J (hp_Body resp) = Some conn"
    using e by (auto simp: Connection_def Let_def split: prod.splits option.splits if_splits)
  from d(1) obtain clk a where H: "Handler S clk ?r (al_api st) = (a, al_api st')" "api_reply J a = Some resp"
    by (cases rule: api_net_Do) auto
  obtain s' where c: "connection S (xc_query clk) (xc_mint clk) ?r (fst (al_api st)) = (a, s')"
    using H(1) by (auto simp: Handler_def api_request_def Let_def split: prod.splits)
  obtain cr where cr: "a = ConnAnswer cr"
    using c H(2) d(2) by (auto simp: connection_def api_reply_def split: prod.splits option.splits)
  from connection_ConnAnswer[OF c[unfolded cr]] obtain p s1 dn disk where P: "authed S (xc_query clk) ?r (fst (al_api st)) = (Some p, s1)"
    "cr = connection_answer S (xc_mint clk) p dn (disk_or_zero disk)" by metis
  have auth: "trim_prefix (hq_Authorization ?r) ''Bearer '' = tok" by (simp add: api_request_def)
  obtain cl where V: "Verify (ca_hmac S) (ca_dec S) (ca_Key S) tok AudSession (xc_query clk) = Inr cl"
    "ca_GetProject S (cl_ProjectID cl) (fst (al_api st)) = (Inr p, s1)"
    using authed_Some[OF P(1)] unfolding auth by blast
  have toks: "cr_SyncToken cr = minted S (p_ID p) AudSync (xc_mint clk)"
    "cr_TerminalToken cr = '''' \<or> cr_TerminalToken cr = minted S (p_ID p) AudTerminal (xc_mint clk)"
    by (auto simp: P(2) connection_answer_def Let_def)
  have "plain_text (cr_SyncToken cr)" unfolding toks(1) by (rule minted_plain)
  moreover have "plain_text (cr_TerminalToken cr)" using toks(2) minted_plain plain_text_nil by metis
  moreover have "hp_Body resp = aj_conn J cr" using H(2) cr by (auto simp: api_reply_def)
  then have "aj_read_conn J (aj_conn J cr) = Some conn" using d(3) by simp
  ultimately have "cr_SyncToken conn = cr_SyncToken cr" "cr_TerminalToken conn = cr_TerminalToken cr"
    using J[unfolded api_json_ok_def, THEN conjunct2] by blast+
  with toks V show ?thesis by metis
qed

lemma fetched_project: "pg_GetProjectByID pid s = (Inr p, s') \<Longrightarrow> p_ID p = pid"
  by (auto simp: pg_GetProjectByID_def dest!: pg_query_cases filter_eq_ConsD split: list.splits)

text \<open>Whatever is sent on a connection, it stays with the project it was opened for.\<close>

lemma serve_same_project:
  "ss_ProjectID (cn_sess (writeSyncJSON P v c)) = ss_ProjectID (cn_sess c)"
  "ss_ProjectID (cn_sess (serve_hello q c)) = ss_ProjectID (cn_sess c)"
  "ss_ProjectID (cn_sess (serve_manifest P c)) = ss_ProjectID (cn_sess c)"
  "ss_ProjectID (cn_sess (serve_put P q r c)) = ss_ProjectID (cn_sess c)"
  "ss_ProjectID (cn_sess (serve_get P q c)) = ss_ProjectID (cn_sess c)"
  "ss_ProjectID (cn_sess (serve_delete P q c)) = ss_ProjectID (cn_sess c)"
  "ss_ProjectID (cn_sess (closed c)) = ss_ProjectID (cn_sess c)"
  by (simp_all add: writeSyncJSON_def serve_hello_def serve_manifest_def serve_put_def serve_get_def serve_delete_def
      closed_def Let_def split: prod.split sum.split)

lemma serve_loop_project: "ss_ProjectID (cn_sess (serve_loop P fr c)) = ss_ProjectID (cn_sess c)"
  by (induction P fr c rule: serve_loop.induct)
    (simp_all add: serve_same_project Let_def split: option.split list.split ws_frame.split)

lemma served_project:
  assumes "ServeSync hm dec key P modeOf (sessionFactory root) now up (''Bearer '' @ tok) fr w = Served x"
  shows "\<exists>cl. Verify hm dec key tok AudSync now = Inr cl \<and> ss_ProjectID (cn_sess x) = cl_ProjectID cl"
proof (cases "Verify hm dec key tok AudSync now")
  case (Inr cl)
  obtain sess w' where f: "sessionFactory root (cl_ProjectID cl) '''' (modeOf (cl_ProjectID cl)) w = (sess, w')" by (metis prod.collapse)
  from assms Inr f sessionFactory_project[OF f] show ?thesis
    by (auto simp: ServeSync_def Let_def serve_loop_project serve_same_project split: if_splits)
qed (use assms in \<open>simp add: ServeSync_def\<close>)

section \<open>Properties\<close>

text \<open>C26. A key leads nowhere else: however the network loses requests and answers, however the database
  fails, and whatever happens in between, if a client exchanges its key and gets a connection with the
  session, then the sync session its sync token opens, whatever is sent on it, and the terminal its
  other token opens are those of a project that \<open>ResolveCDK\<close> has found for this very key on the control API's database.\<close>

theorem client_reaches_only_its_project:
  assumes S: "S = fst (pg_control idkey hm enc dec body key lim base)"
    and J: "api_json_ok J" and cdk: "body (aj_cdk J cdk) = Some cdk"
    and kept: "\<forall>p \<in> set (pg_projects (fst (al_api st))). claims_kept enc dec (p_ID p)"
    and e: "exchangeSession (api_net S J url addr) J \<lparr>cc_Base = url, cc_RetryBase = rb\<rparr> cdk st = (Some tok, st1)"
    and c: "Connection (api_net S J url addr) (aj_read_conn J) \<lparr>cc_Base = url, cc_RetryBase = rb\<rparr> tok st2 = ((None, Some conn), ev, st3)"
  shows "\<exists>t p s1 s2. same_tables (fst (al_api st)) s1 \<and> pg_ResolveCDK idkey t cdk s1 = (Returns (Inr p), s2) \<and>
    (\<forall>P modeOf root now up fr w x. ServeSync hm dec key P modeOf (sessionFactory root) now up (''Bearer '' @ cr_SyncToken conn) fr w
       = Served x \<longrightarrow> ss_ProjectID (cn_sess x) = p_ID p) \<and>
    (\<forall>now wk cctx pid i wk'. terminal_open hm dec key now (''Bearer '' @ cr_TerminalToken conn) wk = (Some (cctx, pid, i), wk') \<longrightarrow>
       pid = p_ID p)"
proof -
  have f: "ca_hmac S = hm" "ca_enc S = enc" "ca_dec S = dec" "ca_Key S = key" "ca_GetProject S = pg_GetProjectByID"
    unfolding S by (simp_all add: pg_control_def New_def)
  from exchanged[OF S J e] cdk obtain clk :: exchange_clock and p s1 s2 where R: "same_tables (fst (al_api st)) s1"
    "pg_ResolveCDK idkey (xc_query clk) cdk s1 = (Returns (Inr p), s2)"
    "Mint hm enc key (p_ID p) AudSession (15 * minute) (xc_mint clk) = Inr tok" by auto
  have k: "claims_kept enc dec (p_ID p)"
    using kept R(1) resolved_project[OF R(2)] by (auto simp: same_tables_def)
  from connected[OF J c, unfolded f] obtain t cl p' now0 s s' where C: "Verify hm dec key tok AudSession t = Inr cl"
    "pg_GetProjectByID (cl_ProjectID cl) s = (Inr p', s')" "cr_SyncToken conn = minted S (p_ID p') AudSync now0"
    "cr_TerminalToken conn = '''' \<or> cr_TerminalToken conn = minted S (p_ID p') AudTerminal now0" by metis
  have p': "p_ID p' = p_ID p"
    using fetched_project[OF C(2)] Mint_kept[OF R(3) k C(1)] by simp
  have V: "cl_ProjectID cl' = p_ID p" if "Verify hm dec key (cr_SyncToken conn) aud now = Inr cl'" for aud now cl'
    using minted_kept[of S dec "p_ID p"] that k unfolding C(3) p' f by blast
  have VT: "cl_ProjectID cl' = p_ID p" if "Verify hm dec key (cr_TerminalToken conn) aud now = Inr cl'" for aud now cl'
    using C(4) that minted_kept[of S dec "p_ID p"] k unfolding p' f by (auto simp: Verify_def split_ch_single)
  have "ss_ProjectID (cn_sess x) = p_ID p"
    if "ServeSync hm dec key P modeOf (sessionFactory root) now up (''Bearer '' @ cr_SyncToken conn) fr w = Served x"
    for P modeOf root now up fr w and x :: "pg conn"
    using V served_project[OF that] by metis
  moreover have "pid = p_ID p"
    if "terminal_open hm dec key now (''Bearer '' @ cr_TerminalToken conn) wk = (Some (cctx, pid, i), wk')" for now wk cctx pid i wk'
    using that VT by (auto simp: terminal_open_def Let_def split: sum.splits prod.splits)
  ultimately show ?thesis using R(1,2) by blast
qed

section \<open>Concrete inputs\<close>

definition demo_api_json :: api_json where
  "demo_api_json = \<lparr>aj_cdk = (\<lambda>k. k), aj_session = sb_SessionToken,
     aj_read_session = (\<lambda>b. Some \<lparr>sb_SessionToken = b, sb_ProjectID = '''', sb_ProjectSlug = ''''\<rparr>),
     aj_conn = (\<lambda>c. cr_TerminalToken c @ ''|'' @ cr_SyncToken c),
     aj_read_conn = (\<lambda>b. Some (demo_conn\<lparr>cr_TerminalToken := takeWhile (\<lambda>c. c \<noteq> CHR ''|'') b,
        cr_SyncToken := drop 1 (dropWhile (\<lambda>c. c \<noteq> CHR ''|'') b)\<rparr>)),
     aj_error = (\<lambda>m. m), aj_page = (\<lambda>p d n. '''')\<rparr>"

lemma demo_api_json_ok: "api_json_ok demo_api_json"
proof -
  have t: "takeWhile (\<lambda>c. c \<noteq> CHR ''|'') (a @ CHR ''|'' # b) = a" "dropWhile (\<lambda>c. c \<noteq> CHR ''|'') (a @ CHR ''|'' # b) = CHR ''|'' # b"
    if "plain_text a" for a b
  proof -
    have "CHR ''|'' \<notin> set a" using that by (auto simp: plain_text_def b64_url_def b64_upper_def)
    then show "takeWhile (\<lambda>c. c \<noteq> CHR ''|'') (a @ CHR ''|'' # b) = a" "dropWhile (\<lambda>c. c \<noteq> CHR ''|'') (a @ CHR ''|'' # b) = CHR ''|'' # b"
      by (induction a) auto
  qed
  show ?thesis by (auto simp: api_json_ok_def demo_api_json_def t)
qed

definition demo_keyed :: pg where
  "demo_keyed = demo_db\<lparr>pg_cdks := [demo_row]\<rparr>"

lemma demo_keyed_facts:
  "pg_inv demo_keyed" "pg_faults demo_keyed = []" "sums_fit demo_keyed" "pg_projects demo_keyed = [demo_project]"
  "pg_ResolveCDK demo_idkey t ''ccw_6162.6364'' demo_keyed = (Returns (Inr demo_project), demo_keyed)"
proof -
  have k: "length (demo_idkey pw sa t m th n) = n" for pw sa t m th n by (simp add: demo_idkey_def)
  have c: "pg_CreateCDK demo_idkey (Some (CHR ''a'' # ''b'')) (Some (CHR ''c'' # ''d'')) (Some ''salt'') ''k1'' (p_ID demo_project) demo_db
      = (Inr ''ccw_6162.6364'', demo_keyed)" by (simp only: demo_create demo_keyed_def)
  show i: "pg_inv demo_keyed" using pg_CreateCDK_inv[OF c demo_facts(1)] .
  show f: "pg_faults demo_keyed = []" "pg_projects demo_keyed = [demo_project]" "sums_fit demo_keyed"
    using demo_sums by (simp_all add: demo_keyed_def demo_db_def)
  show "pg_ResolveCDK demo_idkey t ''ccw_6162.6364'' demo_keyed = (Returns (Inr demo_project), demo_keyed)"
  proof -
    have d: "demo_project \<in> set (pg_projects demo_db)" by (simp add: demo_db_def)
    have z: "demo_keyed\<lparr>pg_faults := []\<rparr> = demo_keyed" using f(1) by simp
    have "fst (pg_ResolveCDK demo_idkey t ''ccw_6162.6364'' demo_keyed) = Returns (Inr demo_project)"
      using created_key_resolves[OF demo_facts(1) k c d, of t] unfolding z by blast
    with pg_ResolveCDK_healthy[OF f(1)] show ?thesis by (metis prod.collapse)
  qed
qed

text \<open>The first request of the exchange is lost.\<close>

definition demo_bad_net :: "pg api_link" where
  "demo_bad_net = \<lparr>al_api = (demo_keyed, Map.empty),
     al_sched = [(Lost, demo_clock 0), (Answered, demo_clock 0), (Answered, demo_clock 0)], al_waits = []\<rparr>"

abbreviation (input) demo_net :: "pg api_link net" where
  "demo_net \<equiv> api_net demo_control demo_api_json ''https://a'' ''1.2.3.4:5''"

lemma demo_exchanged:
  obtains tok cl m where "Verify demo_hmac digit_dec ''key'' tok AudSession 0 = Inr cl" "cl_ProjectID cl = p_ID demo_project"
    "exchangeSession demo_net demo_api_json demo_api_client ''ccw_6162.6364'' demo_bad_net =
       (Some tok, \<lparr>al_api = (demo_keyed, m), al_sched = [(Answered, demo_clock 0)], al_waits = []\<rparr>)"
proof -
  have b: "0 \<le> (0::int) + 15 * minute" "(0::int) + 15 * minute \<le> 15 * minute" by (simp_all add: minute_def second_def)
  have c: "claims_codec digit_enc digit_dec (p_ID demo_project) (15 * minute)" by (rule digit_codec) (simp add: demo_project_def)
  obtain tok where t: "Mint demo_hmac digit_enc ''key'' (p_ID demo_project) AudSession (15 * minute) 0 = Inr tok"
    and v: "\<And>aud t. Verify demo_hmac digit_dec ''key'' tok aud t = (if 0 + 15 * minute < t then Inl ErrExpired
       else if aud \<noteq> AudSession then Inl ErrAudience
       else Inr \<lparr>cl_ProjectID = p_ID demo_project, cl_Audience = AudSession, cl_ExpiresAt = 0 + 15 * minute\<rparr>)"
    using claims_codec_mint[OF c _ b, of AudSession demo_hmac "''key''" thesis] by blast
  let ?r = "\<lparr>hq_Method = ''POST'', hq_Path = ''/v1/auth/exchange'', hq_RemoteAddr = ''1.2.3.4:5'', hq_Authorization = '''',
     hq_Body = ''ccw_6162.6364''\<rparr>"
  have f: "ca_hmac demo_control = demo_hmac" "ca_enc demo_control = digit_enc" "ca_Key demo_control = ''key''"
    "ca_ResolveCDK demo_control = pg_ResolveCDK demo_idkey" "ca_body demo_control = Some"
    by (simp_all add: demo_control_def pg_control_def New_def)
  obtain m where m: "allowAuth demo_control (clientIP ?r) 0 0 Map.empty = (True, m)"
    by (simp add: allowAuth_def attempts_of_def demo_control_def pg_control_def New_def auth_max_def Let_def)
  have h: "Handler demo_control (demo_clock 0) ?r (demo_keyed, Map.empty) =
      (SessionAnswer \<lparr>sb_SessionToken = tok, sb_ProjectID = p_ID demo_project, sb_ProjectSlug = p_Slug demo_project\<rparr>, demo_keyed, m)"
    using m t by (simp add: Handler_def exchange_def demo_clock_def f demo_keyed_facts(5))
  have "exchangeSession demo_net demo_api_json demo_api_client ''ccw_6162.6364'' demo_bad_net =
       (Some tok, \<lparr>al_api = (demo_keyed, m), al_sched = [(Answered, demo_clock 0)], al_waits = []\<rparr>)"
    by (simp add: exchangeSession_def Exchange_def doJSON_def try_from.simps[of _ _ _ 0] try_from.simps[of _ _ _ "Suc 0"]
        wait_turn_def api_net_def demo_bad_net_def demo_api_json_def demo_api_client_def api_request_def h
        read_reply_def api_reply_def)
  moreover have "Verify demo_hmac digit_dec ''key'' tok AudSession 0 =
      Inr \<lparr>cl_ProjectID = p_ID demo_project, cl_Audience = AudSession, cl_ExpiresAt = 0 + 15 * minute\<rparr>"
    unfolding v using b(1) by simp
  ultimately show thesis using that by simp
qed

lemma demo_connected:
  assumes "Verify demo_hmac digit_dec ''key'' tok AudSession 0 = Inr cl" "cl_ProjectID cl = p_ID demo_project"
    and "st = \<lparr>al_api = (demo_keyed, m), al_sched = [(Answered, demo_clock 0)], al_waits = []\<rparr>"
  obtains conn ev st' x where "Connection demo_net (aj_read_conn demo_api_json) demo_api_client tok st = ((None, Some conn), ev, st')"
    "ServeSync demo_hmac digit_dec ''key'' demo_server modeFor (sessionFactory ''/'') minute True (''Bearer '' @ cr_SyncToken conn) []
       (demo_keyed, demo_fs) = Served x"
proof -
  let ?r = "\<lparr>hq_Method = ''GET'', hq_Path = ''/v1/connection'', hq_RemoteAddr = ''1.2.3.4:5'', hq_Authorization = ''Bearer '' @ tok,
     hq_Body = ''''\<rparr>"
  have b: "(0::int) \<le> 0" "(0::int) + connTokenTTL \<le> 2 * minute" by (simp_all add: connTokenTTL_def)
  have c: "claims_codec digit_enc digit_dec (p_ID demo_project) (2 * minute)" by (rule digit_codec) (simp add: demo_project_def)
  have p: "demo_project \<in> set (pg_projects demo_keyed)" by (simp add: demo_keyed_facts(4))
  have a: "hq_Authorization ?r = ''Bearer '' @ tok" by simp
  obtain cr where C: "connection demo_control 0 0 ?r demo_keyed = (ConnAnswer cr, demo_keyed)"
    and V: "\<forall>P modeOf root t' fs. t' \<le> 0 + 2 * minute \<longrightarrow>
       (\<exists>c. ServeSync demo_hmac digit_dec ''key'' P modeOf (sessionFactory root) t' True (''Bearer '' @ cr_SyncToken cr) []
          (demo_keyed, fs) = Served c \<and> ss_ProjectID (cn_sess c) = p_ID demo_project)"
    using session_token_connects[OF demo_keyed_facts(1-3) p c b demo_control_def assms(1,2) a] by blast
  obtain q d disk where cr: "cr = connection_answer demo_control 0 q d disk" using connection_ConnAnswer[OF C] by metis
  have "plain_text (cr_SyncToken cr) \<and> plain_text (cr_TerminalToken cr)"
    unfolding cr by (simp add: connection_answer_def Let_def minted_plain plain_text_nil)
  moreover obtain conn where conn: "aj_read_conn demo_api_json (aj_conn demo_api_json cr) = Some conn"
    by (simp add: demo_api_json_def)
  ultimately have sync: "cr_SyncToken conn = cr_SyncToken cr" using demo_api_json_ok unfolding api_json_ok_def by blast
  have h: "Handler demo_control (demo_clock 0) ?r (demo_keyed, m) = (ConnAnswer cr, demo_keyed, m)"
    using C by (simp add: Handler_def demo_clock_def)
  have "\<exists>ev st'. Connection demo_net (aj_read_conn demo_api_json) demo_api_client tok st = ((None, Some conn), ev, st')"
    using conn h by (simp add: Connection_def api_net_def demo_api_client_def api_request_def api_reply_def assms(3))
  moreover have "minute \<le> 0 + 2 * minute" by (simp add: minute_def second_def)
  ultimately show thesis using that V sync by metis
qed

theorem client_reaches_only_its_project_witness:
  "\<exists>tok st1 conn ev st2 x.
     exchangeSession demo_net demo_api_json demo_api_client ''ccw_6162.6364'' demo_bad_net = (Some tok, st1) \<and>
     Connection demo_net (aj_read_conn demo_api_json) demo_api_client tok st1 = ((None, Some conn), ev, st2) \<and>
     ServeSync demo_hmac digit_dec ''key'' demo_server modeFor (sessionFactory ''/'') minute True (''Bearer '' @ cr_SyncToken conn) []
       (demo_keyed, demo_fs) = Served x \<and> ss_ProjectID (cn_sess x) = ''p1''"
proof -
  obtain tok cl m st1 where v: "Verify demo_hmac digit_dec ''key'' tok AudSession 0 = Inr cl" "cl_ProjectID cl = p_ID demo_project"
    and st: "st1 = \<lparr>al_api = (demo_keyed, m), al_sched = [(Answered, demo_clock 0)], al_waits = []\<rparr>"
    and e: "exchangeSession demo_net demo_api_json demo_api_client ''ccw_6162.6364'' demo_bad_net = (Some tok, st1)"
    using demo_exchanged by metis
  obtain conn ev st2 x where c: "Connection demo_net (aj_read_conn demo_api_json) demo_api_client tok st1 = ((None, Some conn), ev, st2)"
    and x: "ServeSync demo_hmac digit_dec ''key'' demo_server modeFor (sessionFactory ''/'') minute True (''Bearer '' @ cr_SyncToken conn) []
       (demo_keyed, demo_fs) = Served x" using demo_connected[OF v st] by metis
  have no_bar: "CHR ''|'' \<notin> set (nat_digits n)" for n using nat_digits_all[of n] by (auto simp: is_digit_def)
  have k: "\<forall>p \<in> set (pg_projects (fst (al_api demo_bad_net))). claims_kept digit_enc digit_dec (p_ID p)"
    by (auto simp: demo_bad_net_def demo_keyed_facts(4) demo_project_def claims_kept_def digit_enc_def digit_dec_def
        split_ch_append_sep split_ch_single no_bar AudSession_def AudTerminal_def AudSync_def split: if_splits)
  have b: "Some (aj_cdk demo_api_json ''ccw_6162.6364'') = Some ''ccw_6162.6364''" by (simp add: demo_api_json_def)
  from client_reaches_only_its_project[OF demo_control_def demo_api_json_ok b k e[unfolded demo_api_client_def] c[unfolded demo_api_client_def]] x
  obtain t p s1 s2 where p: "same_tables (fst (al_api demo_bad_net)) s1"
    "pg_ResolveCDK demo_idkey t ''ccw_6162.6364'' s1 = (Returns (Inr p), s2)" "ss_ProjectID (cn_sess x) = p_ID p"
    by metis
  from p(1) resolved_project[OF p(2)] have "p_ID p = ''p1''"
    by (auto simp: same_tables_def demo_bad_net_def demo_keyed_facts(4) demo_project_def)
  with e c x p(3) show ?thesis by auto
qed

end
