(* ===== verification/Terminal_Stream.thy ===== *)
theory Terminal_Stream
  imports Terminal
begin

text \<open>
  \<^verbatim>\<open>internal/terminal/session.go\<close> and \<^verbatim>\<open>internal/terminal/ws.go\<close>, how \<^verbatim>\<open>cmd/worker-agent/main.go\<close> attaches a
  pseudo terminal, and the loops of \<open>runTerminal\<close> and \<open>resizeLoop\<close> in \<^verbatim>\<open>cmd/cclaude/main.go\<close>. Running a
  program and starting one under a pseudo terminal are effects on a state \<open>'h\<close> of the host; the
  pseudo terminal has a state \<open>'p\<close>. Heartbeats and deadlines are not modelled: a timeout is the end of
  the frames.
\<close>

section \<open>Names and commands\<close>

definition Names :: "string \<Rightarrow> string \<times> string" where
  "Names projectID = (projectID, ''main'')"

definition in_container :: "string list" where
  "in_container = [''-e'', ''LANG=C.UTF-8'', ''-e'', ''LC_ALL=C.UTF-8'']"

definition EnsureSessionCmds :: "string \<Rightarrow> string \<Rightarrow> string list list" where
  "EnsureSessionCmds containerName projectID =
     [[''docker'', ''exec''] @ in_container @ [containerName, ''tmux'', ''-L'', projectID, ''has-session'', ''-t'', ''main''],
      [''docker'', ''exec''] @ in_container @ [containerName, ''tmux'', ''-L'', projectID, ''new-session'', ''-d'', ''-s'', ''main'',
        ''-c'', ''/workspace'', ''claude'']]"

definition AttachCmd :: "string \<Rightarrow> string \<Rightarrow> string list" where
  "AttachCmd containerName projectID =
     [''docker'', ''exec'', ''-it''] @ in_container @ [containerName, ''tmux'', ''-L'', projectID, ''attach-session'', ''-t'', ''main'']"

section \<open>Attaching\<close>

record 'h host =
  hs_Run :: "string list \<Rightarrow> 'h \<Rightarrow> bool \<times> 'h"
  hs_PtyStart :: "string list \<Rightarrow> 'h \<Rightarrow> bool \<times> 'h"

definition containerFor :: "string \<Rightarrow> pg \<Rightarrow> string \<times> pg" where
  "containerFor pid db =
     (case pg_GetProjectByID pid db of
        (Inr p, db') \<Rightarrow> (if p_ContainerName p \<noteq> [] then p_ContainerName p else ''ccw-'' @ pid, db')
      | (Inl _, db') \<Rightarrow> (''ccw-'' @ pid, db'))"

text \<open>The result is the command the pseudo terminal runs, or \<open>None\<close> for an error.\<close>

definition startPTY :: "'h host \<Rightarrow> string \<Rightarrow> pg \<times> 'h \<Rightarrow> string list option \<times> pg \<times> 'h" where
  "startPTY H pid = (\<lambda>(db, h).
     (case containerFor pid db of (container, db) \<Rightarrow>
      let cmds = EnsureSessionCmds container pid; args = AttachCmd container pid in
      (case hs_Run H (cmds ! 0) h of (has, h) \<Rightarrow>
      (case (if has then (True, h) else hs_Run H (cmds ! 1) h) of
         (False, h) \<Rightarrow> (None, db, h)
       | (True, h) \<Rightarrow>
          (case hs_PtyStart H args h of
             (False, h) \<Rightarrow> (None, db, h)
           | (True, h) \<Rightarrow> (Some args, db, h))))))"

section \<open>The stream\<close>








section \<open>The client's side\<close>




section \<open>A terminal is transparent\<close>

text \<open>The pseudo terminal as a log of what was done to it.\<close>

datatype pty_event = Wrote bytes | Resized "16 word" "16 word"


fun wrote :: "pty_event list \<Rightarrow> bytes" where
  "wrote [] = []"
| "wrote (Wrote b # es) = b @ wrote es"
| "wrote (Resized r c # es) = wrote es"

lemma wrote_append [simp]: "wrote (a @ b) = wrote a @ wrote b"
  by (induction a rule: wrote.induct) simp_all













section \<open>The session outlives its terminals\<close>

text \<open>What is documented of \<open>tmux\<close>: \<open>has-session\<close> tells whether the server of this socket in this container
  has the session, \<open>new-session\<close> makes it and fails on one that is there, attaching changes none.
  \<open>sess\<close> is the set of container and socket pairs with a session.\<close>

definition tmux_host :: "'h host \<Rightarrow> ('h \<Rightarrow> (string \<times> string) set) \<Rightarrow> bool" where
  "tmux_host H sess \<longleftrightarrow> (\<forall>c p h.
     (fst (hs_Run H (EnsureSessionCmds c p ! 0) h) \<longleftrightarrow> (c, p) \<in> sess h) \<and>
     sess (snd (hs_Run H (EnsureSessionCmds c p ! 0) h)) = sess h \<and>
     (fst (hs_Run H (EnsureSessionCmds c p ! 1) h) \<longrightarrow> (c, p) \<notin> sess h) \<and>
     sess (snd (hs_Run H (EnsureSessionCmds c p ! 1) h)) =
       (if fst (hs_Run H (EnsureSessionCmds c p ! 1) h) then insert (c, p) (sess h) else sess h) \<and>
     sess (snd (hs_PtyStart H (AttachCmd c p) h)) = sess h)"

lemma containerFor_state: "containerFor pid db = (c, db') \<Longrightarrow> db' = snd (next_fault db)"
  by (auto simp: containerFor_def pg_GetProjectByID_def dest!: pg_query_state split: prod.splits sum.splits)

text \<open>C34. Reconnecting comes back to the same session: an attach that succeeds runs \<open>tmux attach-session\<close>
  in the project's own container, on the project's own socket, and the session is there; it was
  made only if it was not there before, and no attach, successful or not, ends a session or makes
  one for another project.\<close>

theorem attach_keeps_sessions:
  assumes "tmux_host H sess" and "startPTY H pid (db, h) = (r, db', h')"
  shows "sess h \<subseteq> sess h' \<and> sess h' \<subseteq> insert (fst (containerFor pid db), pid) (sess h) \<and>
    (\<forall>cmd. r = Some cmd \<longrightarrow> cmd = AttachCmd (fst (containerFor pid db)) pid \<and>
       (fst (containerFor pid db), pid) \<in> sess h') \<and>
    ((fst (containerFor pid db), pid) \<in> sess h \<longrightarrow> sess h' = sess h)"
proof -
  obtain c db1 where c: "containerFor pid db = (c, db1)" by fastforce
  obtain has h1 where t1: "hs_Run H (EnsureSessionCmds c pid ! 0) h = (has, h1)" by fastforce
  obtain made h2 where t2: "hs_Run H (EnsureSessionCmds c pid ! 1) h1 = (made, h2)" by fastforce
  let ?h3 = "if has then h1 else h2"
  obtain ok h4 where t3: "hs_PtyStart H (AttachCmd c pid) ?h3 = (ok, h4)" by fastforce
  note T = assms(1)[unfolded tmux_host_def, rule_format]
  have s1: "sess h1 = sess h" "has \<longleftrightarrow> (c, pid) \<in> sess h" using T[of c pid h] t1 by simp_all
  have s2: "sess h2 = (if made then insert (c, pid) (sess h) else sess h)"
    using T[of c pid h1] t2 s1 by simp
  have s4: "sess h4 = sess ?h3" using T[of c pid ?h3] t3 by simp
  have "(r = None \<and> (h' = h2 \<and> \<not> has \<or> h' = h4)) \<or> (r = Some (AttachCmd c pid) \<and> (has \<or> made) \<and> h' = h4)"
    using assms(2) c t1 t2 t3 unfolding startPTY_def by (auto simp: Let_def split: if_splits bool.splits)
  then show ?thesis using s1 s2 s4 c by (auto split: if_splits)
qed

text \<open>Two first attaches at once: both find no session, and the second to make it fails, so its client is
  turned away although the session is there.\<close>

lemma concurrent_first_attach_fails:
  assumes "tmux_host H sess" "(c, pid) \<notin> sess h"
    and "hs_Run H (EnsureSessionCmds c pid ! 0) h = (has1, h1)" "hs_Run H (EnsureSessionCmds c pid ! 0) h1 = (has2, h2)"
    and "hs_Run H (EnsureSessionCmds c pid ! 1) h2 = (True, h3)" "hs_Run H (EnsureSessionCmds c pid ! 1) h3 = (made, h4)"
  shows "\<not> has1 \<and> \<not> has2 \<and> \<not> made \<and> (c, pid) \<in> sess h4"
proof -
  note T = assms(1)[unfolded tmux_host_def, rule_format]
  show ?thesis using T[of c pid h] T[of c pid h1] T[of c pid h2] T[of c pid h3] assms(2-) by auto
qed


section \<open>Concrete inputs\<close>

definition demo_host :: "(string \<times> string) set host" where
  "demo_host = \<lparr>hs_Run = (\<lambda>cmd h. let k = (cmd ! 6, cmd ! 9) in
       if cmd ! 10 = ''has-session'' then (k \<in> h, h) else if k \<in> h then (False, h) else (True, insert k h)),
     hs_PtyStart = (\<lambda>cmd h. (True, h))\<rparr>"

theorem attach_keeps_sessions_witness:
  "tmux_host demo_host (\<lambda>h. h) \<and>
   startPTY demo_host ''p1'' (demo_db, {}) = (Some (AttachCmd ''ccw-ws'' ''p1''), demo_db, {(''ccw-ws'', ''p1'')}) \<and>
   snd (snd (startPTY demo_host ''p1'' (demo_db, {(''ccw-ws'', ''p1'')}))) = {(''ccw-ws'', ''p1'')}"
proof -
  have t: "tmux_host demo_host (\<lambda>h. h)"
    by (simp add: tmux_host_def demo_host_def EnsureSessionCmds_def in_container_def Let_def)
  have c: "containerFor ''p1'' demo_db = (''ccw-ws'', demo_db)"
    by (simp add: containerFor_def pg_GetProjectByID_def pg_query_healthy demo_db_def demo_project_def)
  have s: "startPTY demo_host ''p1'' (demo_db, {}) = (Some (AttachCmd ''ccw-ws'' ''p1''), demo_db, {(''ccw-ws'', ''p1'')})"
    by (simp add: startPTY_def c demo_host_def EnsureSessionCmds_def in_container_def Let_def)
  obtain r db' h' where again: "startPTY demo_host ''p1'' (demo_db, {(''ccw-ws'', ''p1'')}) = (r, db', h')"
    using prod_cases3 by blast
  from attach_keeps_sessions[OF t again] have "h' = {(''ccw-ws'', ''p1'')}" by (simp add: c)
  with t s again show ?thesis by simp
qed


end
