(* ===== verification/Runtime.thy ===== *)
theory Runtime
  imports Pg_Store
begin

text \<open>
  \<^verbatim>\<open>internal/runtime/docker.go\<close>: what is set up for a project before its container runs. \<open>DockerAPI\<close> is an
  interface without an implementation in the repository; \<open>docker_ok\<close> states what is relied on.
\<close>

section \<open>Specifications\<close>




datatype docker_error = DockerError






section \<open>Isolation\<close>







section \<open>Property\<close>





end
