(* ===== verification/Migrations.thy ===== *)
theory Migrations
  imports Pg_Store "HOL-Library.Char_ord" "HOL-Library.List_Lexorder"
begin

text \<open>
  \<open>Migrate\<close> of \<^verbatim>\<open>internal/store/postgres.go\<close>. The database is the table \<open>schema_migrations\<close> and a schema
  of any type; \<open>sql\<close> gives what the SQL text of a migration makes of a schema, \<open>None\<close> if it fails.
  Faults strike single statements, as in the store: a statement that is refused or whose
  acknowledgement is lost is an error to the program, and inside a transaction undoes it; a lost
  acknowledgement of the commit leaves it done.
\<close>

section \<open>The program\<close>

datatype migrate_error = MigrateDb | MigrateSql string

record 'd migdb =
  md_table :: bool
  md_names :: "string list"
  md_schema :: 'd
  md_faults :: "fault list"

definition mig_fault :: "'d migdb \<Rightarrow> fault \<times> 'd migdb" where
  "mig_fault s = (case md_faults s of [] \<Rightarrow> (Carried, s) | f # fs \<Rightarrow> (f, s\<lparr>md_faults := fs\<rparr>))"

text \<open>The transaction of one migration: \<open>Begin\<close>, the SQL text, the row, \<open>Commit\<close>.\<close>

definition migrate_tx :: "(string \<Rightarrow> 'd \<Rightarrow> 'd option) \<Rightarrow> string \<Rightarrow> 'd migdb \<Rightarrow> migrate_error option \<times> 'd migdb" where
  "migrate_tx sql n s =
     (case mig_fault s of (begins, s) \<Rightarrow>
      if begins \<noteq> Carried then (Some MigrateDb, s)
      else (case mig_fault s of (execs, s) \<Rightarrow>
        (case sql n (md_schema s) of
           None \<Rightarrow> (Some (MigrateSql n), s)
         | Some d \<Rightarrow>
             if execs \<noteq> Carried then (Some (MigrateSql n), s)
             else (case mig_fault s of (inserts, s) \<Rightarrow>
               if inserts \<noteq> Carried \<or> n \<in> set (md_names s) then (Some MigrateDb, s)
               else (case mig_fault s of (commits, s) \<Rightarrow>
                 let s' = s\<lparr>md_names := md_names s @ [n], md_schema := d\<rparr> in
                 (case commits of Carried \<Rightarrow> (None, s') | Refused \<Rightarrow> (Some MigrateDb, s)
                  | AckLost \<Rightarrow> (Some MigrateDb, s')))))))"

fun migrate_each :: "(string \<Rightarrow> 'd \<Rightarrow> 'd option) \<Rightarrow> string list \<Rightarrow> 'd migdb \<Rightarrow> migrate_error option \<times> 'd migdb" where
  "migrate_each sql [] s = (None, s)"
| "migrate_each sql (n # ns) s =
     (case mig_fault s of (queries, s) \<Rightarrow>
      if queries \<noteq> Carried \<or> \<not> md_table s then (Some MigrateDb, s)
      else if n \<in> set (md_names s) then migrate_each sql ns s
      else (case migrate_tx sql n s of
              (Some e, s) \<Rightarrow> (Some e, s)
            | (None, s) \<Rightarrow> migrate_each sql ns s))"

text \<open>\<open>entries\<close> are the embedded files. Go sorts strings by their bytes, as the order on lists of characters
  does.\<close>

definition Migrate :: "(string \<Rightarrow> 'd \<Rightarrow> 'd option) \<Rightarrow> string list \<Rightarrow> 'd migdb \<Rightarrow> migrate_error option \<times> 'd migdb" where
  "Migrate sql entries s =
     (case mig_fault s of (creates, s) \<Rightarrow>
      let s' = s\<lparr>md_table := True\<rparr> in
      (case creates of
         Carried \<Rightarrow> migrate_each sql (sort entries) s'
       | Refused \<Rightarrow> (Some MigrateDb, s)
       | AckLost \<Rightarrow> (Some MigrateDb, s')))"

section \<open>Each migration once, in order\<close>

text \<open>The specification: the migrations of a list, one after the other.\<close>

fun run_all :: "(string \<Rightarrow> 'd \<Rightarrow> 'd option) \<Rightarrow> string list \<Rightarrow> 'd \<Rightarrow> 'd option" where
  "run_all sql [] d = Some d"
| "run_all sql (n # ns) d = (case sql n d of None \<Rightarrow> None | Some d' \<Rightarrow> run_all sql ns d')"

lemma run_all_snoc:
  "run_all sql (ns @ [n]) d = (case run_all sql ns d of None \<Rightarrow> None | Some d' \<Rightarrow> sql n d')"
  by (induction ns arbitrary: d) (auto split: option.split)

text \<open>What holds at any time: the recorded names are the first \<open>k\<close>, and the schema is what they make.\<close>

definition migrated :: "(string \<Rightarrow> 'd \<Rightarrow> 'd option) \<Rightarrow> string list \<Rightarrow> 'd \<Rightarrow> nat \<Rightarrow> 'd migdb \<Rightarrow> bool" where
  "migrated sql ns d0 k s \<longleftrightarrow> k \<le> length ns \<and> md_names s = take k ns \<and> run_all sql (take k ns) d0 = Some (md_schema s)"

lemma mig_fault_same:
  "mig_fault s = (f, s') \<Longrightarrow> md_names s' = md_names s \<and> md_schema s' = md_schema s \<and> md_table s' = md_table s"
  by (auto simp: mig_fault_def split: list.splits)

lemma mig_fault_healthy: "md_faults s = [] \<Longrightarrow> mig_fault s = (Carried, s)"
  by (simp add: mig_fault_def)

lemma migrate_tx_cases:
  assumes "migrate_tx sql n s = (r, s')" "n \<notin> set (md_names s)"
  shows "md_table s' = md_table s \<and>
    ((r \<noteq> None \<and> md_names s' = md_names s \<and> md_schema s' = md_schema s) \<or>
     (md_names s' = md_names s @ [n] \<and> sql n (md_schema s) = Some (md_schema s')))"
  using assms
  by (auto simp: migrate_tx_def Let_def dest!: mig_fault_same split: prod.splits if_splits option.splits fault.splits)

lemma migrate_tx_healthy:
  assumes "md_faults s = []" "n \<notin> set (md_names s)" "sql n (md_schema s) = Some d"
  shows "migrate_tx sql n s = (None, s\<lparr>md_names := md_names s @ [n], md_schema := d\<rparr>)"
  using assms by (simp add: migrate_tx_def mig_fault_healthy Let_def)

lemma migrated_name: "migrated sql ns d0 k s \<Longrightarrow> j < k \<Longrightarrow> ns ! j \<in> set (md_names s)"
  unfolding migrated_def using nth_mem[of j "take k ns"] by simp

lemma migrate_each_keeps:
  assumes "migrate_each sql (drop j ns) s = (r, s')" "migrated sql ns d0 k s" "distinct ns" "j \<le> k"
  shows "\<exists>k' \<ge> k. migrated sql ns d0 k' s' \<and> (r = None \<longrightarrow> k' = length ns)"
  using assms
proof (induction "drop j ns" arbitrary: j k s)
  case Nil
  then show ?case by (auto simp: migrated_def)
next
  case (Cons n rest)
  have j: "j < length ns" "n = ns ! j" "rest = drop (Suc j) ns"
    using Cons.hyps(2) by (metis drop_eq_Nil not_le_imp_less list.distinct(1), metis Cons_nth_drop_Suc drop_eq_Nil
        list.inject list.distinct(1) not_le_imp_less, metis Cons_nth_drop_Suc drop_eq_Nil list.inject list.distinct(1) not_le_imp_less)
  obtain f s1 where f: "mig_fault s = (f, s1)" by fastforce
  note same = mig_fault_same[OF f]
  have run: "migrate_each sql (n # rest) s = (r, s')" using Cons.prems(1) Cons.hyps(2) by simp
  have m1: "migrated sql ns d0 k s1" using Cons.prems(2) same by (simp add: migrated_def)
  show ?case
  proof (cases "f \<noteq> Carried \<or> \<not> md_table s1")
    case True
    with run f m1 show ?thesis by auto
  next
    case ok: False
    show ?thesis
    proof (cases "n \<in> set (md_names s1)")
      case True
      then obtain i where "i < k" "i < length ns" "ns ! i = ns ! j"
        using m1 j(2) by (auto simp: migrated_def in_set_conv_nth)
      then have "j < k" using nth_eq_iff_index_eq[OF Cons.prems(3) _ j(1)] by blast
      moreover have "migrate_each sql (drop (Suc j) ns) s1 = (r, s')" using run f ok True j(3) by simp
      ultimately show ?thesis using Cons.hyps(1)[OF j(3) _ m1 Cons.prems(3)] by simp
    next
      case False
      then have k: "k = j" using migrated_name[OF m1, of j] Cons.prems(4) j(2) by fastforce
      obtain e s2 where t: "migrate_tx sql n s1 = (e, s2)" by fastforce
      from migrate_tx_cases[OF t False] consider
        (failed) "e \<noteq> None" "md_names s2 = md_names s1" "md_schema s2 = md_schema s1"
        | (applied) "md_names s2 = md_names s1 @ [n]" "sql n (md_schema s1) = Some (md_schema s2)" by blast
      then show ?thesis
      proof cases
        case failed
        then have "migrated sql ns d0 k s2" using m1 by (simp add: migrated_def)
        moreover have "s' = s2" "r = e" using run f ok False t failed(1) by (auto split: option.splits)
        ultimately show ?thesis using failed(1) by auto
      next
        case applied
        have "take (Suc j) ns = take j ns @ [n]" using j(1,2) by (simp add: take_Suc_conv_app_nth)
        then have m2: "migrated sql ns d0 (Suc k) s2"
          using m1 applied j(1) unfolding migrated_def k by (simp add: run_all_snoc)
        show ?thesis
        proof (cases e)
          case None
          then have "migrate_each sql (drop (Suc j) ns) s2 = (r, s')" using run f ok False t j(3) by simp
          from Cons.hyps(1)[OF j(3) this m2 Cons.prems(3)] k show ?thesis by (auto dest: Suc_leD)
        next
          case (Some e')
          then have "s' = s2" "r = e" using run f ok False t by auto
          with Some m2 show ?thesis by (intro exI[of _ "Suc k"]) simp
        qed
      qed
    qed
  qed
qed

lemma migrate_each_healthy:
  assumes "md_faults s = []" "md_table s" "migrated sql ns d0 k s" "distinct ns" "j \<le> k"
    and "run_all sql ns d0 = Some d"
  shows "migrate_each sql (drop j ns) s = (None, s\<lparr>md_names := ns, md_schema := d\<rparr>)"
  using assms(1,2,3,5)
proof (induction "drop j ns" arbitrary: j k s)
  case Nil
  then have "k = length ns" by (auto simp: migrated_def)
  with Nil show ?case using assms(6) by (simp add: migrated_def)
next
  case (Cons n rest)
  have j: "j < length ns" using Cons.hyps(2) by (metis drop_eq_Nil not_le_imp_less list.distinct(1))
  have "n # rest = ns ! j # drop (Suc j) ns" using Cons.hyps(2) Cons_nth_drop_Suc[OF j] by simp
  then have n: "n = ns ! j" "rest = drop (Suc j) ns" by simp_all
  have f: "mig_fault s = (Carried, s)" using Cons.prems(1) by (rule mig_fault_healthy)
  show ?case
  proof (cases "j = k")
    case False
    then have "n \<in> set (md_names s)" using migrated_name[OF Cons.prems(3), of j] Cons.prems(4) n(1) by simp
    then have "migrate_each sql (drop j ns) s = migrate_each sql (drop (Suc j) ns) s"
      using Cons.hyps(2)[symmetric] f Cons.prems(2) n(2) by simp
    with Cons.hyps(1)[OF n(2) Cons.prems(1,2,3)] False Cons.prems(4) show ?thesis by simp
  next
    case True
    have fresh: "n \<notin> set (md_names s)"
    proof
      assume "n \<in> set (md_names s)"
      then obtain i where "i < k" "i < length ns" "ns ! i = ns ! j"
        using Cons.prems(3) n(1) by (auto simp: migrated_def in_set_conv_nth)
      then show False using nth_eq_iff_index_eq[OF assms(4) _ j, of i] True by blast
    qed
    have take: "take (Suc j) ns = take j ns @ [n]" using j n(1) by (simp add: take_Suc_conv_app_nth)
    have all: "run_all sql (xs @ ys) e = (case run_all sql xs e of None \<Rightarrow> None | Some e' \<Rightarrow> run_all sql ys e')" for xs ys e
      by (induction xs arbitrary: e) (auto split: option.split)
    obtain d' where d': "run_all sql (take (Suc j) ns) d0 = Some d'"
      using assms(6) all[of "take (Suc j) ns" "drop (Suc j) ns" d0] by (auto split: option.splits)
    have a: "sql n (md_schema s) = Some d'"
      using d'[unfolded take] Cons.prems(3) True by (simp add: run_all_snoc migrated_def)
    let ?s = "s\<lparr>md_names := md_names s @ [n], md_schema := d'\<rparr>"
    have "migrated sql ns d0 (Suc j) ?s"
      using Cons.prems(3) j d'[unfolded take] unfolding migrated_def take True[symmetric] by simp
    from Cons.hyps(1)[OF n(2) _ _ this] Cons.prems(1,2)
    have "migrate_each sql (drop (Suc j) ns) ?s = (None, s\<lparr>md_names := ns, md_schema := d\<rparr>)" by simp
    then show ?thesis
      using Cons.hyps(2)[symmetric] f Cons.prems(1,2) n(2) fresh migrate_tx_healthy[where sql = sql, OF Cons.prems(1) fresh a]
      by simp
  qed
qed

section \<open>Properties\<close>

text \<open>A history of runs: each under its own schedule of faults.\<close>

definition migrate_runs :: "(string \<Rightarrow> 'd \<Rightarrow> 'd option) \<Rightarrow> string list \<Rightarrow> fault list list \<Rightarrow> 'd migdb \<Rightarrow> 'd migdb" where
  "migrate_runs sql entries schedules s =
     foldl (\<lambda>s fs. snd (Migrate sql entries (s\<lparr>md_faults := fs\<rparr>))) s schedules"

lemma Migrate_keeps:
  assumes "Migrate sql entries s = (r, s')" "migrated sql (sort entries) d0 k s" "distinct entries"
  shows "\<exists>k' \<ge> k. migrated sql (sort entries) d0 k' s' \<and> (r = None \<longrightarrow> k' = length entries)"
proof -
  obtain f s1 where f: "mig_fault s = (f, s1)" by fastforce
  have m: "migrated sql (sort entries) d0 k s1" "migrated sql (sort entries) d0 k (s1\<lparr>md_table := True\<rparr>)"
    using assms(2) mig_fault_same[OF f] by (simp_all add: migrated_def)
  show ?thesis
  proof (cases "f = Carried")
    case True
    then have "migrate_each sql (drop 0 (sort entries)) (s1\<lparr>md_table := True\<rparr>) = (r, s')"
      using assms(1) f by (simp add: Migrate_def Let_def)
    from migrate_each_keeps[OF this m(2)] assms(3) show ?thesis by simp
  next
    case False
    then have "r \<noteq> None" "s' = s1 \<or> s' = s1\<lparr>md_table := True\<rparr>"
      using assms(1) f by (cases f; simp add: Migrate_def Let_def; blast)+
    with m show ?thesis by auto
  qed
qed

text \<open>C36. Each migration runs once: however often the services start and whatever statement fails at
  whatever point, the database has run the first so many migrations in the order of their names,
  each exactly once and none half, and the table names them; a run that reports success has
  completed them all; and once nothing fails any more, the next run does complete them and a
  further run changes nothing.\<close>

theorem migrations_run_once:
  assumes "distinct entries"
    and "s = migrate_runs sql entries schedules \<lparr>md_table = False, md_names = [], md_schema = d0, md_faults = []\<rparr>"
  shows "\<exists>k \<le> length entries. md_names s = take k (sort entries) \<and>
    run_all sql (take k (sort entries)) d0 = Some (md_schema s) \<and>
    (\<forall>fs s'. Migrate sql entries (s\<lparr>md_faults := fs\<rparr>) = (None, s') \<longrightarrow> md_names s' = sort entries) \<and>
    (\<forall>d. run_all sql (sort entries) d0 = Some d \<longrightarrow>
       (\<exists>s'. Migrate sql entries (s\<lparr>md_faults := []\<rparr>) = (None, s') \<and> md_schema s' = d \<and>
          md_names s' = sort entries \<and> Migrate sql entries s' = (None, s')))"
proof -
  let ?ns = "sort entries"
  have "\<exists>k. migrated sql ?ns d0 k s"
    unfolding assms(2)
  proof (induction schedules rule: rev_induct)
    case Nil
    have "migrated sql ?ns d0 0 \<lparr>md_table = False, md_names = [], md_schema = d0, md_faults = []\<rparr>"
      by (simp add: migrated_def)
    then show ?case by (auto simp: migrate_runs_def)
  next
    case (snoc fs schedules)
    let ?s = "migrate_runs sql entries schedules \<lparr>md_table = False, md_names = [], md_schema = d0, md_faults = []\<rparr>"
    from snoc obtain k where "migrated sql ?ns d0 k (?s\<lparr>md_faults := fs\<rparr>)" by (auto simp: migrated_def)
    from Migrate_keeps[OF surjective_pairing this assms(1)] show ?case by (auto simp: migrate_runs_def)
  qed
  then obtain k where k: "migrated sql ?ns d0 k s" ..
  then have k': "migrated sql ?ns d0 k (s\<lparr>md_faults := fs\<rparr>)" for fs by (simp add: migrated_def)
  have complete: "md_names s' = ?ns" if "Migrate sql entries (s\<lparr>md_faults := fs\<rparr>) = (None, s')" for fs s'
    using Migrate_keeps[OF that k' assms(1)] by (auto simp: migrated_def)
  have healthy: "Migrate sql entries t = (None, t\<lparr>md_table := True, md_names := ?ns, md_schema := d\<rparr>)"
    if "migrated sql ?ns d0 j t" "md_faults t = []" "run_all sql ?ns d0 = Some d" for t j d
  proof -
    have "migrate_each sql (drop 0 ?ns) (t\<lparr>md_table := True\<rparr>) =
        (None, t\<lparr>md_table := True\<rparr>\<lparr>md_names := ?ns, md_schema := d\<rparr>)"
      by (rule migrate_each_healthy[where k = j]) (use that assms(1) in \<open>simp_all add: migrated_def\<close>)
    then show ?thesis using that(2) by (simp add: Migrate_def mig_fault_healthy Let_def)
  qed
  have again: "\<exists>s'. Migrate sql entries (s\<lparr>md_faults := []\<rparr>) = (None, s') \<and> md_schema s' = d \<and>
          md_names s' = ?ns \<and> Migrate sql entries s' = (None, s')" if d: "run_all sql ?ns d0 = Some d" for d
  proof -
    let ?s = "s\<lparr>md_faults := [], md_table := True, md_names := ?ns, md_schema := d\<rparr>"
    have "migrated sql ?ns d0 (length ?ns) ?s" using d by (simp add: migrated_def)
    from healthy[OF this _ d] healthy[OF k' _ d, of "[]"] show ?thesis by (intro exI[of _ ?s]) simp
  qed
  show ?thesis using k complete again by (intro exI[of _ k]) (simp add: migrated_def)
qed

definition demo_sql :: "string \<Rightarrow> string list \<Rightarrow> string list option" where
  "demo_sql n d = (if n \<in> set d then None else Some (d @ [n]))"

theorem migrations_run_once_witness:
  "\<exists>s s'. s = migrate_runs demo_sql [''002'', ''001''] [[Carried, Carried, Carried, Carried, Carried, AckLost], [Refused]]
       \<lparr>md_table = False, md_names = [], md_schema = [], md_faults = []\<rparr> \<and>
     md_names s = [''001''] \<and> Migrate demo_sql [''002'', ''001''] (s\<lparr>md_faults := []\<rparr>) = (None, s') \<and>
     md_schema s' = [''001'', ''002'']"
proof -
  let ?s = "migrate_runs demo_sql [''002'', ''001''] [[Carried, Carried, Carried, Carried, Carried, AckLost], [Refused]]
       \<lparr>md_table = False, md_names = [], md_schema = [], md_faults = []\<rparr>"
  have n: "md_names ?s = [''001'']" by code_simp
  have r: "run_all demo_sql (sort [''002'', ''001'']) [] = Some [''001'', ''002'']" by code_simp
  have "distinct [''002'', ''001'']" by simp
  from migrations_run_once[OF this refl, of demo_sql _ "[]"]
  have "\<forall>d. run_all demo_sql (sort [''002'', ''001'']) [] = Some d \<longrightarrow>
       (\<exists>s'. Migrate demo_sql [''002'', ''001''] (?s\<lparr>md_faults := []\<rparr>) = (None, s') \<and> md_schema s' = d)" by blast
  from this[rule_format, OF r] n show ?thesis by blast
qed

end
