(* ===== verification/Store_Schema.thy ===== *)
theory Store_Schema
  imports Pg_Store
begin

text \<open>
  All operations of \<^verbatim>\<open>internal/store\<close> as one relation, and what each of them keeps: the constraints of the
  schema, and every account, project and key there was.
\<close>

section \<open>Calls\<close>


section \<open>What every call keeps\<close>















section \<open>Property\<close>



end
