(* ===== verification/Admin_Cli.thy ===== *)
theory Admin_Cli
  imports Control_Api
begin

text \<open>
  \<^verbatim>\<open>internal/config/config.go\<close>, \<open>New\<close> of \<^verbatim>\<open>internal/store/postgres.go\<close>, the command \<^verbatim>\<open>cmd/ccwadmin\<close> and the
  limits \<^verbatim>\<open>cmd/control-api\<close> reads from its environment. The environment is a function, the
  arguments a list; an exit with a code is \<open>Inl\<close>.
\<close>

section \<open>Configuration\<close>

record config =
  cf_DatabaseURL :: string
  cf_TokenSigningKey :: bytes
  cf_WorkspaceRoot :: string
  cf_ListenAddr :: string
  cf_AgentListenAddr :: string
  cf_AdminSocketPath :: string
  cf_ClaudeImage :: string

datatype config_error = NoDatabaseURL | NoWorkspaceRoot | NoTokenKey | BadTokenKey

definition or_default :: "string \<Rightarrow> string \<Rightarrow> string" where
  "or_default v def = (if v = '''' then def else v)"

definition Load :: "(string \<Rightarrow> string) \<Rightarrow> config_error + config" where
  "Load getenv =
     (let c = \<lparr>cf_DatabaseURL = getenv ''CCW_DATABASE_URL'', cf_TokenSigningKey = [],
         cf_WorkspaceRoot = getenv ''CCW_WORKSPACE_ROOT'',
         cf_ListenAddr = or_default (getenv ''CCW_LISTEN_ADDR'') ''127.0.0.1:8080'',
         cf_AgentListenAddr = or_default (getenv ''CCW_AGENT_LISTEN_ADDR'') ''127.0.0.1:8081'',
         cf_AdminSocketPath = or_default (getenv ''CCW_ADMIN_SOCKET'') ''/run/ccw/admin.sock'',
         cf_ClaudeImage = or_default (getenv ''CCW_CLAUDE_IMAGE'') ''ccw-claude:latest''\<rparr>
      in
      if cf_DatabaseURL c = '''' then Inl NoDatabaseURL
      else if cf_WorkspaceRoot c = '''' then Inl NoWorkspaceRoot
      else let keyHex = getenv ''CCW_TOKEN_KEY'' in
        if keyHex = '''' then Inl NoTokenKey
        else (case hex_decode keyHex of
            None \<Rightarrow> Inl BadTokenKey
          | Some key \<Rightarrow> if length key < 32 then Inl BadTokenKey else Inr (c\<lparr>cf_TokenSigningKey := key\<rparr>)))"

section \<open>Numbers from outside\<close>

text \<open>\<open>strconv.ParseInt(s, 10, 64)\<close>, without its error texts.\<close>

definition ParseInt :: "string \<Rightarrow> int64 option" where
  "ParseInt s =
     (let neg = (s \<noteq> [] \<and> hd s = CHR ''-'');
          ds = (if s \<noteq> [] \<and> (hd s = CHR ''-'' \<or> hd s = CHR ''+'') then tl s else s);
          i = (if neg then - int (digits_value ds) else int (digits_value ds))
      in if ds = [] \<or> \<not> list_all is_digit ds \<or> \<not> fits64 i then None else Some (word_of_int i))"

definition envInt :: "(string \<Rightarrow> string) \<Rightarrow> string \<Rightarrow> int64 \<Rightarrow> int64" where
  "envInt getenv k def =
     (let v = getenv k in if v \<noteq> '''' then (case ParseInt v of Some n \<Rightarrow> n | None \<Rightarrow> def) else def)"

definition argInt :: "string list \<Rightarrow> nat \<Rightarrow> int64 \<Rightarrow> int64" where
  "argInt args i def =
     (if i < length args then (case ParseInt (args ! i) of Some n \<Rightarrow> n | None \<Rightarrow> def) else def)"

definition limitsFor :: "(string \<Rightarrow> string) \<Rightarrow> project \<Rightarrow> limits" where
  "limitsFor getenv p =
     \<lparr>lm_FiveHour = p_FiveHourLimit p, lm_SevenDay = p_SevenDayLimit p,
      lm_PoolFiveHour = envInt getenv ''CCW_POOL_5H'' (push_bit 62 1),
      lm_PoolSevenDay = envInt getenv ''CCW_POOL_7D'' (push_bit 62 1),
      lm_Reserve = envInt getenv ''CCW_POOL_RESERVE'' 0,
      lm_SafetyMargin = envInt getenv ''CCW_POOL_SAFETY_MARGIN'' 0\<rparr>"

section \<open>Connecting\<close>

datatype store_error = ConnectFailed | PingFailed

text \<open>\<open>store.New\<close>; \<open>pool\<close> tells whether \<open>pgxpool.New\<close> accepts the address.\<close>

definition store_New :: "(string \<Rightarrow> bool) \<Rightarrow> string \<Rightarrow> pg \<Rightarrow> store_error option \<times> pg" where
  "store_New pool dsn s =
     (if \<not> pool dsn then (Some ConnectFailed, s)
      else (case pg_query (\<lambda>s. Inr ()) s of
              (Inl _, s) \<Rightarrow> (Some PingFailed, s)
            | (Inr _, s) \<Rightarrow> (None, s)))"

section \<open>The administrator's command\<close>

text \<open>What the run draws: the identifiers of a new account, project and key, and the random bytes of the
  key and of its salt.\<close>

record admin_draws =
  ad_account :: string
  ad_project :: string
  ad_cdk :: string
  ad_pub :: "bytes option"
  ad_secret :: "bytes option"
  ad_salt :: "bytes option"

text \<open>What a successful run prints.\<close>

record admin_report =
  ar_slug :: string
  ar_id :: string
  ar_container :: string
  ar_diskGiB :: int64
  ar_five_hour :: int64
  ar_seven_day :: int64
  ar_cdk :: string

definition ccwadmin ::
    "string list \<Rightarrow> (string \<Rightarrow> string) \<Rightarrow> (string \<Rightarrow> bool) \<Rightarrow> (pg \<Rightarrow> db_error option \<times> pg) \<Rightarrow> argon2_idkey \<Rightarrow>
       admin_draws \<Rightarrow> pg \<Rightarrow> (nat + admin_report) \<times> pg" where
  "ccwadmin args getenv pool migrate idkey dr s =
     (if length args < 3 \<or> args ! 1 \<noteq> ''init-project'' then (Inl 2, s)
      else let slug = args ! 2; diskGiB = argInt args 3 20; fiveHour = argInt args 4 1000000;
               sevenDay = argInt args 5 10000000 in
      (case Load getenv of
         Inl _ \<Rightarrow> (Inl 1, s)
       | Inr cfg \<Rightarrow>
      (case store_New pool (cf_DatabaseURL cfg) s of
         (Some _, s) \<Rightarrow> (Inl 1, s)
       | (None, s) \<Rightarrow>
      (case migrate s of
         (Some _, s) \<Rightarrow> (Inl 1, s)
       | (None, s) \<Rightarrow>
      (case pg_EnsureAccount (ad_account dr) ''default'' ''default-pool'' s of
         ((_, Some _), s) \<Rightarrow> (Inl 1, s)
       | ((accountID, None), s) \<Rightarrow>
      (case pg_CreateProject (ad_project dr) accountID slug (''ccw-'' @ slug) (push_bit 30 diskGiB) fiveHour sevenDay s of
         ((_, Some _), s) \<Rightarrow> (Inl 1, s)
       | ((projectID, None), s) \<Rightarrow>
      (case pg_CreateCDK idkey (ad_pub dr) (ad_secret dr) (ad_salt dr) (ad_cdk dr) projectID s of
         (Inl _, s) \<Rightarrow> (Inl 1, s)
       | (Inr cdk, s) \<Rightarrow>
           (Inr \<lparr>ar_slug = slug, ar_id = projectID, ar_container = ''ccw-'' @ slug, ar_diskGiB = diskGiB,
              ar_five_hour = fiveHour, ar_seven_day = sevenDay, ar_cdk = cdk\<rparr>, s))))))))"

section \<open>What a run leaves\<close>

lemma store_New_state: "store_New pool dsn s = (e, s') \<Longrightarrow> s' = s \<or> s' = snd (next_fault s)"
  by (auto simp: store_New_def dest!: pg_query_state split: if_splits prod.splits sum.splits)

lemma pg_CreateProject_None:
  assumes "pg_CreateProject uuid acc slug cn d f v s = ((i, None), s')"
  shows "i = uuid" "slug \<notin> p_Slug ` set (pg_projects s)"
    "pg_projects s' = pg_projects s @ [\<lparr>p_ID = uuid, p_AccountID = acc, p_Slug = slug, p_ContainerName = cn,
       p_DiskLimit = d, p_FiveHourLimit = f, p_SevenDayLimit = v\<rparr>]"
  using assms by (auto simp: pg_CreateProject_def dest!: pg_exec_None split: prod.splits if_splits)

lemma pg_EnsureAccount_projects:
  assumes "pg_EnsureAccount uuid name pool s = (x, s')"
  shows "pg_projects s' = pg_projects s"
  using assms
  by (auto simp: pg_EnsureAccount_def dest!: pg_query_state elim!: pg_exec_cases split: prod.splits sum.splits if_splits)

lemma pg_CreateCDK_projects:
  assumes "pg_CreateCDK idkey rp rs rsalt uuid pid s = (x, s')"
  shows "pg_projects s' = pg_projects s"
  using assms
  by (auto simp: pg_CreateCDK_def elim!: pg_exec_cases split: prod.splits sum.splits option.splits if_splits)

text \<open>The steps of a run that gets as far as making the project.\<close>

lemma ccwadmin_Inr:
  assumes "ccwadmin args getenv pool migrate idkey dr s = (Inr rep, s')"
  obtains s1 s2 s3 s4 acc where "3 \<le> length args" "s1 = s \<or> s1 = snd (next_fault s)" "migrate s1 = (None, s2)"
    "pg_EnsureAccount (ad_account dr) ''default'' ''default-pool'' s2 = ((acc, None), s3)"
    "pg_CreateProject (ad_project dr) acc (args ! 2) (''ccw-'' @ args ! 2) (push_bit 30 (argInt args 3 20))
       (argInt args 4 1000000) (argInt args 5 10000000) s3 = ((ad_project dr, None), s4)"
    "pg_CreateCDK idkey (ad_pub dr) (ad_secret dr) (ad_salt dr) (ad_cdk dr) (ad_project dr) s4 = (Inr (ar_cdk rep), s')"
    "ar_id rep = ad_project dr" "ar_slug rep = args ! 2"
proof -
  let ?slug = "args ! 2" and ?disk = "push_bit 30 (argInt args 3 20)"
  obtain cfg where cfg: "Load getenv = Inr cfg" "3 \<le> length args"
    using assms by (auto simp: ccwadmin_def Let_def split: if_splits sum.splits)
  obtain e1 s1 where n: "store_New pool (cf_DatabaseURL cfg) s = (e1, s1)" by fastforce
  obtain e2 s2 where m: "migrate s1 = (e2, s2)" by fastforce
  obtain acc e3 s3 where a: "pg_EnsureAccount (ad_account dr) ''default'' ''default-pool'' s2 = ((acc, e3), s3)"
    using prod.exhaust by metis
  obtain pid e4 s4 where p: "pg_CreateProject (ad_project dr) acc ?slug (''ccw-'' @ ?slug) ?disk
       (argInt args 4 1000000) (argInt args 5 10000000) s3 = ((pid, e4), s4)" using prod.exhaust by metis
  obtain r s5 where k: "pg_CreateCDK idkey (ad_pub dr) (ad_secret dr) (ad_salt dr) (ad_cdk dr) pid s4 = (r, s5)" by fastforce
  have "e1 = None \<and> e2 = None \<and> e3 = None \<and> e4 = None \<and> r = Inr (ar_cdk rep) \<and> s5 = s' \<and>
      ar_id rep = pid \<and> ar_slug rep = ?slug"
    using assms n m a p k cfg
    by (simp add: ccwadmin_def Let_def split: if_splits option.splits sum.splits) auto
  then have st: "migrate s1 = (None, s2)"
    "pg_EnsureAccount (ad_account dr) ''default'' ''default-pool'' s2 = ((acc, None), s3)"
    "pg_CreateProject (ad_project dr) acc ?slug (''ccw-'' @ ?slug) ?disk
       (argInt args 4 1000000) (argInt args 5 10000000) s3 = ((pid, None), s4)"
    "pg_CreateCDK idkey (ad_pub dr) (ad_secret dr) (ad_salt dr) (ad_cdk dr) pid s4 = (Inr (ar_cdk rep), s')"
    "ar_id rep = pid" "ar_slug rep = ?slug"
    using m a p k by auto
  have "pid = ad_project dr" using pg_CreateProject_None(1)[OF st(3)] .
  with st that[OF cfg(2) store_New_state[OF n]] show thesis by simp
qed

section \<open>Properties\<close>

text \<open>C39. A successful \<open>init-project\<close> keeps its word, whatever faults the database had on the way: there is
  a new project with the slug, its container name and the limits asked for (the disk limit in bytes,
  modulo 2^64), the printed key resolves to exactly that project, the other projects stay and the
  schema's constraints hold.\<close>

theorem init_project_issues_working_key:
  assumes "ccwadmin args getenv pool migrate idkey dr s = (Inr rep, s')"
    and "pg_inv s" and "\<And>t e t'. migrate t = (e, t') \<Longrightarrow> pg_inv t \<Longrightarrow> pg_inv t' \<and> pg_projects t' = pg_projects t"
    and "\<And>p s t m th k. length (idkey p s t m th k) = k"
    and "ad_pub dr = Some (b # bp)" "ad_secret dr = Some (c # bs)" "ad_salt dr = Some salt"
  shows "pg_inv s' \<and> (\<exists>p. pg_projects s' = pg_projects s @ [p] \<and> p_ID p = ar_id rep \<and>
    p_Slug p = args ! 2 \<and> p_ContainerName p = ''ccw-'' @ args ! 2 \<and>
    p_DiskLimit p = word_of_int (sint (argInt args 3 20) * 2 ^ 30) \<and>
    p_FiveHourLimit p = argInt args 4 1000000 \<and> p_SevenDayLimit p = argInt args 5 10000000 \<and>
    fst (pg_ResolveCDK idkey now (ar_cdk rep) (s'\<lparr>pg_faults := []\<rparr>)) = Returns (Inr p))"
proof -
  from ccwadmin_Inr[OF assms(1)] obtain s1 s2 s3 s4 acc where
    st: "s1 = s \<or> s1 = snd (next_fault s)" "migrate s1 = (None, s2)"
    "pg_EnsureAccount (ad_account dr) ''default'' ''default-pool'' s2 = ((acc, None), s3)"
    "pg_CreateProject (ad_project dr) acc (args ! 2) (''ccw-'' @ args ! 2) (push_bit 30 (argInt args 3 20))
       (argInt args 4 1000000) (argInt args 5 10000000) s3 = ((ad_project dr, None), s4)"
    "pg_CreateCDK idkey (ad_pub dr) (ad_secret dr) (ad_salt dr) (ad_cdk dr) (ad_project dr) s4 = (Inr (ar_cdk rep), s')"
    "ar_id rep = ad_project dr"
    by metis
  have "pg_inv s1" "pg_projects s1 = pg_projects s" using st(1) assms(2) by auto
  with assms(3)[OF st(2)] have i2: "pg_inv s2" "pg_projects s2 = pg_projects s" by auto
  have i4: "pg_inv s4" using pg_CreateProject_inv[OF st(4) pg_EnsureAccount_inv[OF st(3) i2(1)]] .
  define p where "p = \<lparr>p_ID = ad_project dr, p_AccountID = acc, p_Slug = args ! 2, p_ContainerName = ''ccw-'' @ args ! 2,
       p_DiskLimit = push_bit 30 (argInt args 3 20), p_FiveHourLimit = argInt args 4 1000000,
       p_SevenDayLimit = argInt args 5 10000000\<rparr>"
  have ps: "pg_projects s4 = pg_projects s @ [p]"
    using pg_CreateProject_None(3)[OF st(4)] pg_EnsureAccount_projects[OF st(3)] i2(2) by (simp add: p_def)
  have "pg_CreateCDK idkey (Some (b # bp)) (Some (c # bs)) (Some salt) (ad_cdk dr) (p_ID p) s4 = (Inr (ar_cdk rep), s')"
    using st(5) assms(5-7) by (simp add: p_def)
  from created_key_resolves[OF i4 assms(4) this] ps
  have "pg_inv s'" "fst (pg_ResolveCDK idkey now (ar_cdk rep) (s'\<lparr>pg_faults := []\<rparr>)) = Returns (Inr p)" by simp_all
  moreover have "push_bit 30 w = (word_of_int (sint w * 2 ^ 30) :: int64)" for w :: int64
    by (simp add: push_bit_eq_mult flip: wi_hom_mult)
  moreover have "pg_projects s' = pg_projects s @ [p]" using pg_CreateCDK_projects[OF st(5)] ps by simp
  ultimately show ?thesis using st(6) by (intro conjI exI[of _ p]) (simp_all add: p_def)
qed

text \<open>A run that fails after it made the project cannot be repeated: a later run for the same slug
  exits with an error, whatever its other arguments and the state of the database, so no key is
  ever issued for that project.\<close>

theorem half_made_project_is_stuck:
  assumes "args ! 2 \<in> p_Slug ` set (pg_projects s)"
    and "\<And>t e t'. migrate t = (e, t') \<Longrightarrow> pg_projects t' = pg_projects t"
  shows "\<exists>code s'. ccwadmin args getenv pool migrate idkey dr s = (Inl code, s') \<and> code \<noteq> 0"
proof (cases "ccwadmin args getenv pool migrate idkey dr s")
  case (Pair r s')
  show ?thesis
  proof (cases r)
    case (Inr rep)
    with Pair have "ccwadmin args getenv pool migrate idkey dr s = (Inr rep, s')" by simp
    from ccwadmin_Inr[OF this] obtain s1 s2 s3 s4 acc where
      st: "s1 = s \<or> s1 = snd (next_fault s)" "migrate s1 = (None, s2)"
      "pg_EnsureAccount (ad_account dr) ''default'' ''default-pool'' s2 = ((acc, None), s3)"
      "pg_CreateProject (ad_project dr) acc (args ! 2) (''ccw-'' @ args ! 2) (push_bit 30 (argInt args 3 20))
         (argInt args 4 1000000) (argInt args 5 10000000) s3 = ((ad_project dr, None), s4)"
      by metis
    have "pg_projects s3 = pg_projects s"
      using pg_EnsureAccount_projects[OF st(3)] assms(2)[OF st(2)] st(1) by auto
    with pg_CreateProject_None(2)[OF st(4)] assms(1) show ?thesis by simp
  next
    case (Inl code)
    with Pair show ?thesis
      by (auto simp: ccwadmin_def Let_def split: if_splits sum.splits prod.splits option.splits)
  qed
qed

section \<open>Concrete inputs\<close>

definition demo_env :: "string \<Rightarrow> string" where
  "demo_env k = (if k = ''CCW_DATABASE_URL'' then ''db'' else if k = ''CCW_WORKSPACE_ROOT'' then ''/w''
     else if k = ''CCW_TOKEN_KEY'' then replicate 64 CHR ''a'' else '''')"

definition demo_draws :: admin_draws where
  "demo_draws = \<lparr>ad_account = ''u1'', ad_project = ''u2'', ad_cdk = ''u3'', ad_pub = Some ''ab'', ad_secret = Some ''cd'',
     ad_salt = Some ''salt''\<rparr>"

definition demo_empty :: "fault list \<Rightarrow> pg" where
  "demo_empty fs = \<lparr>pg_accounts = [], pg_projects = [], pg_cdks = [], pg_usage = [], pg_files = [], pg_faults = fs\<rparr>"

definition demo_init :: "pg \<Rightarrow> (nat + admin_report) \<times> pg" where
  "demo_init = ccwadmin [''ccwadmin'', ''init-project'', ''a'', ''2''] demo_env (\<lambda>_. True) (\<lambda>s. (None, s)) demo_idkey demo_draws"

lemma demo_load: "\<exists>cfg. Load demo_env = Inr cfg"
proof -
  have "isl (Load demo_env) = False" by code_simp
  then show ?thesis by (cases "Load demo_env") auto
qed

lemma demo_new: "NewCDK (Some ''ab'') (Some ''cd'') = Inr (''ccw_6162.6364'', ''6162'')"
  "SplitCDK ''ccw_6162.6364'' = Inr (''6162'', ''6364'')" "argInt [''ccwadmin'', ''init-project'', ''a'', ''2''] 3 20 = 2"
  "argInt [''ccwadmin'', ''init-project'', ''a'', ''2''] 4 d = d" "argInt [''ccwadmin'', ''init-project'', ''a'', ''2''] 5 d = d"
  by (code_simp, code_simp, code_simp) (simp_all add: argInt_def)

lemma demo_init_run:
  "\<exists>rep s. demo_init (demo_empty []) = (Inr rep, s)"
  "\<exists>s. demo_init (demo_empty [Carried, Carried, Carried, Carried, Refused]) = (Inl 1, s) \<and> ''a'' \<in> p_Slug ` set (pg_projects s)"
proof -
  obtain cfg where cfg: "Load demo_env = Inr cfg" using demo_load ..
  obtain h where h: "HashSecret demo_idkey ''6364'' (Some ''salt'') = Inr h" by (simp add: HashSecret_def)
  note run = demo_init_def ccwadmin_def cfg store_New_def pg_query_def pg_exec_def next_fault_def demo_empty_def
    demo_draws_def pg_EnsureAccount_def pg_CreateProject_def pg_CreateCDK_def demo_new h project_exists_def Let_def
  show "\<exists>rep s. demo_init (demo_empty []) = (Inr rep, s)" by (simp add: run)
  show "\<exists>s. demo_init (demo_empty [Carried, Carried, Carried, Carried, Refused]) = (Inl 1, s) \<and>
      ''a'' \<in> p_Slug ` set (pg_projects s)" by (simp add: run)
qed

theorem init_project_issues_working_key_witness:
  "\<exists>rep s' p. demo_init (demo_empty []) = (Inr rep, s') \<and> pg_projects s' = [p] \<and> p_Slug p = ''a'' \<and>
     p_DiskLimit p = 2147483648 \<and> fst (pg_ResolveCDK demo_idkey 7 (ar_cdk rep) (s'\<lparr>pg_faults := []\<rparr>)) = Returns (Inr p)"
proof -
  obtain rep s' where r: "demo_init (demo_empty []) = (Inr rep, s')" using demo_init_run(1) by blast
  have i: "pg_inv (demo_empty [])" by (simp add: pg_inv_def demo_empty_def)
  have k: "length (demo_idkey pw sa t m th n) = n" for pw sa t m th n by (simp add: demo_idkey_def)
  have d: "ad_pub demo_draws = Some (CHR ''a'' # ''b'')" "ad_secret demo_draws = Some (CHR ''c'' # ''d'')"
    "ad_salt demo_draws = Some ''salt''" by (simp_all add: demo_draws_def)
  have m: "pg_inv t' \<and> pg_projects t' = pg_projects t" if "(\<lambda>s. (None :: db_error option, s)) t = (e, t')" "pg_inv t" for t e t'
    using that by simp
  from init_project_issues_working_key[OF r[unfolded demo_init_def] i m k d, where now = 7] demo_new(3) r show ?thesis
    by (fastforce simp: demo_empty_def)
qed

theorem half_made_project_is_stuck_witness:
  "\<exists>s code s'. demo_init (demo_empty [Carried, Carried, Carried, Carried, Refused]) = (Inl 1, s) \<and>
     demo_init (s\<lparr>pg_faults := []\<rparr>) = (Inl code, s') \<and> code \<noteq> 0"
proof -
  obtain s where s: "demo_init (demo_empty [Carried, Carried, Carried, Carried, Refused]) = (Inl 1, s)"
    "''a'' \<in> p_Slug ` set (pg_projects s)" using demo_init_run(2) by blast
  have a: "[''ccwadmin'', ''init-project'', ''a'', ''2''] ! 2 \<in> p_Slug ` set (pg_projects (s\<lparr>pg_faults := []\<rparr>))"
    using s(2) by simp
  from half_made_project_is_stuck[OF a, of "\<lambda>s. (None, s)" demo_env "\<lambda>_. True" demo_idkey demo_draws] s(1)
  show ?thesis unfolding demo_init_def by auto
qed

end
