(* ===== verification/Programs.thy ===== *)
theory Programs
  imports Admin_Cli Terminal Cclaude Saved_Files
begin

text \<open>
  The three programs as they start: \<^verbatim>\<open>cmd/control-api\<close>, \<^verbatim>\<open>cmd/worker-agent\<close> and \<^verbatim>\<open>cmd/cclaude\<close>. An exit with a
  code is \<open>Inl\<close>. The servers' sockets and time-outs are not modelled: what is started is the handler.
  The theorems are about the programs together: the tokens of one are those the other accepts.
\<close>

section \<open>The servers\<close>

text \<open>The address to listen on, and the handlers' server.\<close>

definition control_api_main ::
    "(string \<Rightarrow> string) \<Rightarrow> (string \<Rightarrow> bool) \<Rightarrow> (pg \<Rightarrow> db_error option \<times> pg) \<Rightarrow> argon2_idkey \<Rightarrow> hmac \<Rightarrow>
       (claims \<Rightarrow> bytes option) \<Rightarrow> (bytes \<Rightarrow> claims option) \<Rightarrow> (bytes \<Rightarrow> string option) \<Rightarrow> pg \<Rightarrow>
       (nat + string \<times> pg control \<times> attempts) \<times> pg" where
  "control_api_main getenv pool migrate idkey hm enc dec body s =
     (case Load getenv of
        Inl _ \<Rightarrow> (Inl 1, s)
      | Inr cfg \<Rightarrow>
     (case store_New pool (cf_DatabaseURL cfg) s of
        (Some _, s) \<Rightarrow> (Inl 1, s)
      | (None, s) \<Rightarrow>
     (case migrate s of
        (Some _, s) \<Rightarrow> (Inl 1, s)
      | (None, s) \<Rightarrow>
          let agentBase = or_default (getenv ''CCW_AGENT_WS_BASE'') ''wss://localhost/ws'';
              srv = pg_control idkey hm enc dec body (cf_TokenSigningKey cfg) (limitsFor getenv) agentBase
          in (Inr (cf_ListenAddr cfg, srv), s))))"

definition worker_main ::
    "(string \<Rightarrow> string) \<Rightarrow> (string \<Rightarrow> bool) \<Rightarrow> pg \<Rightarrow> (nat + config \<times> worker) \<times> pg" where
  "worker_main getenv pool s =
     (case Load getenv of
        Inl _ \<Rightarrow> (Inl 1, s)
      | Inr cfg \<Rightarrow>
     (case store_New pool (cf_DatabaseURL cfg) s of
        (Some _, s) \<Rightarrow> (Inl 1, s)
      | (None, s) \<Rightarrow> (Inr (cfg, worker_start), s)))"

text \<open>The endpoints of the worker, by what they take from its configuration; that of the terminals up to
  \<open>terminal.Serve\<close>.\<close>

definition terminal_endpoint ::
    "hmac \<Rightarrow> (bytes \<Rightarrow> claims option) \<Rightarrow> config \<Rightarrow> int \<Rightarrow> string \<Rightarrow> worker \<Rightarrow> (nat \<times> string \<times> int) option \<times> worker" where
  "terminal_endpoint hm dec cfg now header w = terminal_open hm dec (cf_TokenSigningKey cfg) now header w"

definition sync_endpoint ::
    "hmac \<Rightarrow> (bytes \<Rightarrow> claims option) \<Rightarrow> config \<Rightarrow> pg sync_server \<Rightarrow> int \<Rightarrow> bool \<Rightarrow> string \<Rightarrow> ws_frame list \<Rightarrow>
       pg \<times> node \<Rightarrow> pg served" where
  "sync_endpoint hm dec cfg P now upgraded header frames w =
     ServeSync hm dec (cf_TokenSigningKey cfg) (P\<lparr>sv_maxMessage := 2 ^ 30 + 64 * 2 ^ 10\<rparr>) modeFor
       (sessionFactory (cf_WorkspaceRoot cfg)) now upgraded header frames w"

section \<open>The client\<close>


section \<open>Starting\<close>

lemma Load_key:
  assumes "Load getenv = Inr cfg"
  shows "hex_decode (getenv ''CCW_TOKEN_KEY'') = Some (cf_TokenSigningKey cfg)"
  using assms by (auto simp: Load_def Let_def split: if_splits option.splits)

lemma control_api_main_Inr:
  assumes "control_api_main getenv pool migrate idkey hm enc dec body s = (Inr (addr, S, m), s')"
  obtains key where "hex_decode (getenv ''CCW_TOKEN_KEY'') = Some key" "m = Map.empty"
    "S = fst (pg_control idkey hm enc dec body key (limitsFor getenv)
           (or_default (getenv ''CCW_AGENT_WS_BASE'') ''wss://localhost/ws''))"
proof -
  obtain cfg where l: "Load getenv = Inr cfg" using assms by (cases "Load getenv") (auto simp: control_api_main_def)
  have "(S, m) = pg_control idkey hm enc dec body (cf_TokenSigningKey cfg) (limitsFor getenv)
      (or_default (getenv ''CCW_AGENT_WS_BASE'') ''wss://localhost/ws'')"
    using assms l by (auto simp: control_api_main_def Let_def split: prod.splits option.splits)
  with Load_key[OF l] show thesis
    by (intro that[of "cf_TokenSigningKey cfg"]) (auto simp: pg_control_def New_def)
qed

text \<open>A restart with the same key makes the same server of it.\<close>

lemma restarted_api:
  assumes "control_api_main getenv pool migrate idkey hm enc dec body s = (Inr (addr, S, m), s1)"
    and "control_api_main getenv2 pool2 migrate2 idkey hm enc dec body db = (Inr (addr2, S2, m2), db2)"
    and "getenv2 ''CCW_TOKEN_KEY'' = getenv ''CCW_TOKEN_KEY''"
  shows "authed S2 = authed S \<and> m2 = Map.empty"
proof -
  obtain key key2 where k: "hex_decode (getenv ''CCW_TOKEN_KEY'') = Some key" "hex_decode (getenv2 ''CCW_TOKEN_KEY'') = Some key2"
    "m2 = Map.empty"
    and S: "S = fst (pg_control idkey hm enc dec body key (limitsFor getenv)
         (or_default (getenv ''CCW_AGENT_WS_BASE'') ''wss://localhost/ws''))"
      "S2 = fst (pg_control idkey hm enc dec body key2 (limitsFor getenv2)
         (or_default (getenv2 ''CCW_AGENT_WS_BASE'') ''wss://localhost/ws''))"
    using control_api_main_Inr[OF assms(1)] control_api_main_Inr[OF assms(2)] by metis
  have "key2 = key" using k assms(3) by simp
  then have "authed S2 t r v = authed S t r v" for t r v unfolding S by (simp add: authed_def split: sum.split)
  then show ?thesis using k(3) by (simp add: fun_eq_iff)
qed

lemma worker_main_Inr:
  assumes "worker_main getenv pool s = (Inr (cfg, w), s')"
  shows "hex_decode (getenv ''CCW_TOKEN_KEY'') = Some (cf_TokenSigningKey cfg) \<and> w = worker_start"
  using assms by (cases "Load getenv") (auto simp: worker_main_def Load_key split: prod.splits option.splits)

lemma Verify_empty: "Verify hm dec key '''' aud t = Inl ErrInvalid"
  by (simp add: Verify_def split_ch_single)

text \<open>Who is let in to a terminal, by what the token says.\<close>

lemma terminal_endpoint_iff:
  "fst (terminal_endpoint hm dec cfg t header w) =
     (case Verify hm dec (cf_TokenSigningKey cfg) (trim_prefix header ''Bearer '') AudTerminal t of
        Inl _ \<Rightarrow> None | Inr cl \<Rightarrow> Some (wk_ctxs w, cl_ProjectID cl, rg_id (wk_reg w) + 1))"
  by (simp add: terminal_endpoint_def terminal_open_def Let_def Add_def split: sum.split)

lemma sync_endpoint_iff:
  "sync_endpoint hm dec cfg P t up header fr w = Unauthorized \<longleftrightarrow>
     (\<exists>e. Verify hm dec (cf_TokenSigningKey cfg) (trim_prefix header ''Bearer '') AudSync t = Inl e)"
  by (auto simp: sync_endpoint_def ServeSync_def Let_def split: sum.splits prod.splits)

section \<open>Properties\<close>

text \<open>C23. The programs agree on tokens: a control API and a worker started with one \<open>CCW_TOKEN_KEY\<close> on whatever
  else is in their environments and databases. The terminal token of a connection opens a terminal
  of the worker, of the connection's own project, for two minutes, unless the project is over its
  limits; its sync token opens a sync session for two minutes, over the limits or not; neither
  serves for the other. A control API restarted with the key honours the sessions of the first one,
  and has forgotten the attempts its rate limit counted.\<close>

theorem services_share_tokens:
  assumes "control_api_main getenv pool migrate idkey hm enc dec body s = (Inr (addr, S, m), s1)"
    and "worker_main getenv' pool' u = (Inr (cfg, w0), u1)"
    and "getenv' ''CCW_TOKEN_KEY'' = getenv ''CCW_TOKEN_KEY''"
    and "connection S ta now r v = (ConnAnswer c, v')"
    and "claims_codec enc dec (cr_ProjectID c) horizon" and "0 \<le> now" and "now + 2 * minute \<le> horizon"
  shows "fst (terminal_endpoint hm dec cfg t (''Bearer '' @ cr_TerminalToken c) w) =
       (if cr_Over c \<or> now + 2 * minute < t then None else Some (wk_ctxs w, cr_ProjectID c, rg_id (wk_reg w) + 1)) \<and>
    (sync_endpoint hm dec cfg P t up (''Bearer '' @ cr_SyncToken c) fr x = Unauthorized \<longleftrightarrow> now + 2 * minute < t) \<and>
    fst (terminal_endpoint hm dec cfg t (''Bearer '' @ cr_SyncToken c) w) = None \<and>
    sync_endpoint hm dec cfg P t up (''Bearer '' @ cr_TerminalToken c) fr x = Unauthorized \<and>
    (\<forall>getenv2 pool2 migrate2 db addr2 S2 m2 db2.
       control_api_main getenv2 pool2 migrate2 idkey hm enc dec body db = (Inr (addr2, S2, m2), db2) \<longrightarrow>
       getenv2 ''CCW_TOKEN_KEY'' = getenv ''CCW_TOKEN_KEY'' \<longrightarrow> authed S2 = authed S \<and> m2 = Map.empty)"
proof -
  from control_api_main_Inr[OF assms(1)] obtain key where K: "hex_decode (getenv ''CCW_TOKEN_KEY'') = Some key"
    and S: "S = fst (pg_control idkey hm enc dec body key (limitsFor getenv)
           (or_default (getenv ''CCW_AGENT_WS_BASE'') ''wss://localhost/ws''))" by metis
  have key: "cf_TokenSigningKey cfg = key" using worker_main_Inr[OF assms(2)] assms(3) K by simp
  have ttl: "connTokenTTL = 2 * minute" by (simp add: connTokenTTL_def)
  from connection_ConnAnswer[OF assms(4)] obtain p d disk where c: "c = connection_answer S now p d disk" by metis
  have pid: "cr_ProjectID c = p_ID p" by (simp add: c connection_answer_def Let_def)
  have b: "now + connTokenTTL \<le> horizon" using assms(7) by (simp add: ttl)
  have VT: "Verify hm dec key (minted S (p_ID p) aud now) aud' t =
      (if now + 2 * minute < t then Inl ErrExpired else if aud' \<noteq> aud then Inl ErrAudience
       else Inr \<lparr>cl_ProjectID = p_ID p, cl_Audience = aud, cl_ExpiresAt = now + 2 * minute\<rparr>)"
    if "aud = AudTerminal \<or> aud = AudSync" for aud aud' t
    using minted_verifies[of S dec "p_ID p" horizon aud now aud' t] assms(5,6) b that by (auto simp: S pid ttl)
  have auds: "AudTerminal \<noteq> AudSync" "AudSync \<noteq> AudTerminal" by (simp_all add: AudTerminal_def AudSync_def)
  have tok: "cr_TerminalToken c = (if cr_Over c then '''' else minted S (p_ID p) AudTerminal now)"
    "cr_SyncToken c = minted S (p_ID p) AudSync now" by (simp_all add: c connection_answer_def Let_def)
  note ends = terminal_endpoint_iff sync_endpoint_iff key tok pid trim_prefix_append
  have "fst (terminal_endpoint hm dec cfg t (''Bearer '' @ cr_TerminalToken c) w) =
       (if cr_Over c \<or> now + 2 * minute < t then None else Some (wk_ctxs w, cr_ProjectID c, rg_id (wk_reg w) + 1))"
    unfolding ends by (simp add: VT Verify_empty)
  moreover have "sync_endpoint hm dec cfg P t up (''Bearer '' @ cr_SyncToken c) fr x = Unauthorized \<longleftrightarrow> now + 2 * minute < t"
    unfolding ends by (simp add: VT Verify_empty)
  moreover have "fst (terminal_endpoint hm dec cfg t (''Bearer '' @ cr_SyncToken c) w) = None"
    unfolding ends using auds by (simp add: VT Verify_empty)
  moreover have "sync_endpoint hm dec cfg P t up (''Bearer '' @ cr_TerminalToken c) fr x = Unauthorized"
    unfolding ends using auds by (simp add: VT Verify_empty)
  ultimately show ?thesis using restarted_api[OF assms(1)] by blast
qed


section \<open>Concrete inputs\<close>

definition demo_getenv :: "string \<Rightarrow> string" where
  "demo_getenv k = (if k = ''CCW_DATABASE_URL'' then ''pg'' else if k = ''CCW_WORKSPACE_ROOT'' then ''/''
     else if k = ''CCW_TOKEN_KEY'' then replicate 64 (CHR ''0'') else '''')"

lemma demo_Load: "\<exists>cfg. Load demo_getenv = Inr cfg"
proof -
  have "(case Load demo_getenv of Inl _ \<Rightarrow> False | Inr _ \<Rightarrow> True)" by code_simp
  then show ?thesis by (cases "Load demo_getenv") auto
qed

text \<open>The sync token of a connection made at the start is good a minute later and no longer good two minutes
  after that.\<close>

theorem services_share_tokens_witness:
  "\<exists>S m cfg tok c. control_api_main demo_getenv (\<lambda>_. True) (\<lambda>s. (None, s)) demo_idkey demo_hmac digit_enc digit_dec Some demo_db
       = (Inr (''127.0.0.1:8080'', S, m), demo_db) \<and>
     worker_main demo_getenv (\<lambda>_. True) demo_db = (Inr (cfg, worker_start), demo_db) \<and>
     connection S 0 0 (demo_req ''1.2.3.4:5'' (''Bearer '' @ tok) '''') demo_db = (ConnAnswer c, demo_db) \<and>
     sync_endpoint demo_hmac digit_dec cfg demo_server minute True (''Bearer '' @ cr_SyncToken c) [] (demo_db, demo_fs) \<noteq> Unauthorized \<and>
     sync_endpoint demo_hmac digit_dec cfg demo_server (3 * minute) True (''Bearer '' @ cr_SyncToken c) [] (demo_db, demo_fs) = Unauthorized"
proof -
  obtain cfg where l: "Load demo_getenv = Inr cfg" using demo_Load by blast
  have addr: "cf_ListenAddr cfg = ''127.0.0.1:8080''"
    using l by (auto simp: Load_def Let_def or_default_def demo_getenv_def split: if_splits option.splits)
  have f: "pg_faults demo_db = []" "demo_project \<in> set (pg_projects demo_db)" "p_ID demo_project = ''p1''"
    by (simp_all add: demo_db_def demo_project_def)
  have n: "store_New (\<lambda>_. True) dsn demo_db = (None, demo_db)" for dsn
    by (simp add: store_New_def pg_query_healthy[OF f(1)])
  define S where "S = fst (pg_control demo_idkey demo_hmac digit_enc digit_dec Some (cf_TokenSigningKey cfg)
    (limitsFor demo_getenv) (or_default (demo_getenv ''CCW_AGENT_WS_BASE'') ''wss://localhost/ws''))"
  have m: "control_api_main demo_getenv (\<lambda>_. True) (\<lambda>s. (None, s)) demo_idkey demo_hmac digit_enc digit_dec Some demo_db
      = (Inr (''127.0.0.1:8080'', S, Map.empty), demo_db)"
    by (simp add: control_api_main_def l n addr S_def pg_control_def New_def Let_def)
  have w: "worker_main demo_getenv (\<lambda>_. True) demo_db = (Inr (cfg, worker_start), demo_db)"
    by (simp add: worker_main_def l n)
  have c: "claims_codec digit_enc digit_dec ''p1'' (2 * minute)" by (rule digit_codec) simp
  have b: "0 \<le> 2 * minute" "0 < minute" by (simp_all add: minute_def second_def)
  obtain tok where "\<And>aud now. Verify demo_hmac digit_dec (cf_TokenSigningKey cfg) tok aud now =
      (if 0 + 2 * minute < now then Inl ErrExpired else if aud \<noteq> AudSession then Inl ErrAudience
       else Inr \<lparr>cl_ProjectID = ''p1'', cl_Audience = AudSession, cl_ExpiresAt = 0 + 2 * minute\<rparr>)"
    using claims_codec_mint[OF c, of AudSession 0 "2 * minute" demo_hmac "cf_TokenSigningKey cfg" thesis] b by auto
  then obtain cl where v: "Verify demo_hmac digit_dec (cf_TokenSigningKey cfg) tok AudSession 0 = Inr cl" "cl_ProjectID cl = ''p1''"
    using b by simp
  let ?r = "demo_req ''1.2.3.4:5'' (''Bearer '' @ tok) ''''"
  have v': "Verify demo_hmac digit_dec (cf_TokenSigningKey cfg) (trim_prefix (hq_Authorization ?r) ''Bearer '') AudSession 0 = Inr cl"
    using v(1) by (simp add: demo_req_def)
  have s: "sums_fit demo_db" using demo_sums[of "[]"] by (simp add: demo_db_def)
  obtain d disk where a: "connection S 0 0 ?r demo_db = (ConnAnswer (connection_answer S 0 demo_project d disk), demo_db)"
    unfolding S_def by (rule connection_healthy[OF f(1) demo_facts(1) s f(2) v']) (simp_all add: f(3) v(2))
  have pid: "cr_ProjectID (connection_answer S 0 demo_project d disk) = ''p1''"
    by (simp add: connection_answer_def Let_def f(3))
  note T = services_share_tokens[OF m w refl a c[folded pid]]
  have "sync_endpoint demo_hmac digit_dec cfg P t up (''Bearer '' @ cr_SyncToken (connection_answer S 0 demo_project d disk)) fr x
      = Unauthorized \<longleftrightarrow> 2 * minute < t" for P t up fr x
    using T[THEN conjunct2, THEN conjunct1] by simp
  with m w a b show ?thesis by (intro exI conjI) (assumption | simp)+
qed



end
