(* ===== verification/Spec2Isabelle.thy ===== *)
theory Spec2Isabelle
  imports Sync_Life Control_Link Terminal_Stream Runtime Migrations Store_Schema Usage_Collector Programs
begin

text \<open>
  A verification development for \<^emph>\<open>ccw\<close>, a remote workspace for a coding agent: a control API hands
  out signed tokens, a worker agent runs one container per project and serves its terminal and its
  workspace, and a client program on the user's machine shows the terminal and keeps a directory in
  step with the workspace. The development models the Go program under \<^verbatim>\<open>internal/\<close> and
  \<^verbatim>\<open>cmd/\<close>; file names below are relative to the repository.

  \<^bold>\<open>How the parts interact.\<close> A user has an access key (\<^verbatim>\<open>internal/auth/cdk.go\<close>); the control API
  resolves it to a project (\<^verbatim>\<open>internal/project/service.go\<close>, \<^verbatim>\<open>internal/store/postgres.go\<close>), checks
  the quota (\<^verbatim>\<open>internal/quota/service.go\<close>) and mints tokens (\<^verbatim>\<open>internal/token/token.go\<close>). With a
  sync token the client opens a WebSocket (\<^verbatim>\<open>internal/sync/syncclient_ws.go\<close>) to the worker
  (\<^verbatim>\<open>internal/sync/ws.go\<close>), whose session (\<^verbatim>\<open>internal/sync/syncserver.go\<close>) works on the revision
  index in PostgreSQL (\<^verbatim>\<open>internal/store/sync.go\<close>) and the workspace directory
  (\<^verbatim>\<open>internal/sync/server.go\<close>). Each round the client (\<^verbatim>\<open>internal/sync/syncclient.go\<close>) scans its
  directory (\<^verbatim>\<open>internal/sync/client.go\<close>), compares three versions of every path
  (\<^verbatim>\<open>internal/sync/manifest.go\<close>) and executes the plan.

  \<^bold>\<open>Theories and code.\<close>

  \<^item> \<open>Go_Prelude\<close>, \<open>Go_Encoding\<close>: what the code uses of Go (strings, 64-bit arithmetic, maps and the
    order of \<open>range\<close>, hex, base64), with the collections \<open>go_str\<close> and \<open>go_map\<close>.
  \<^item> \<open>Os_Files\<close>: the file system as a tree of directories, files and symbolic links, with path
    walking; \<open>Sync_Paths\<close>: \<open>SafeRelPath\<close> and \<open>DefaultExcluded\<close>; \<open>Dir_Store\<close>: \<open>DirStore\<close> and \<open>ScanDir\<close>.
  \<^item> \<open>Manifest\<close>: \<open>Diff\<close>, \<open>BuildLocal\<close> and \<open>ConflictName\<close> with the table \<open>decide\<close> as specification.
  \<^item> \<open>Storage_Gate\<close>: \<^verbatim>\<open>internal/storage/accounting.go\<close>.
  \<^item> \<open>Rev_Store\<close>: the locales \<open>revision_store\<close> (what the session relies on) and \<open>reachable_store\<close>;
    \<open>Sync_Server\<close>: the handlers of \<open>SyncSession\<close>, proved inside these locales; \<open>Sync_History\<close>: runs of
    handlers and container edits, still inside; \<open>Pg_Store\<close>: the database as tables with a schedule
    of faults (a statement is carried out, refused, or carried out with its answer lost), the
    queries of \<^verbatim>\<open>internal/store\<close>, and the interpretations; \<open>Sync_Service\<close>: the composition that
    \<^verbatim>\<open>cmd/worker-agent/main.go\<close> makes; \<open>Session_Factory\<close>: the directory its sessions work on.
  \<^item> \<open>Auth_CDK\<close>, \<open>Token\<close>, \<open>Quota\<close>: access keys with the resolvers (locale \<open>cdk_resolver\<close>), tokens
    (\<open>token_scheme\<close>), quota decisions (\<open>usage_source\<close>); \<open>Usage_Collector\<close>: the parser of usage logs and
    the scanner with cursors of \<^verbatim>\<open>internal/usage/collector.go\<close>.
  \<^item> \<open>Sync_Client\<close>: one round of the client over any transport, with the locale \<open>sync_transport\<close>;
    \<open>Sync_Wire\<close>: the server's loop on frames; \<open>Sync_Link\<close>: the client's transport on a network that
    breaks, and the interpretation of \<open>sync_transport\<close> on it; \<open>Sync_Life\<close>: \<open>runSync\<close> with its real
    parts (dial, round, baseline file), round after round in an environment.
  \<^item> \<open>Control_Api\<close>: the rate limit, the handlers and the routes of \<^verbatim>\<open>internal/control/http.go\<close>;
    \<open>Control_Client\<close>: \<^verbatim>\<open>internal/control/client.go\<close> with its retries; \<open>Control_Link\<close>: the two on a network
    that loses requests and answers.
  \<^item> \<open>Terminal\<close>: \<^verbatim>\<open>internal/terminal/registry.go\<close>, the terminal endpoint and the quota ticker of the
    worker, as steps that interleave; \<open>Terminal_Stream\<close>: \<^verbatim>\<open>session.go\<close> and \<^verbatim>\<open>ws.go\<close>, attaching, and the
    client's side of the stream.
  \<^item> \<open>Runtime\<close>: \<^verbatim>\<open>internal/runtime/docker.go\<close>; \<open>Migrations\<close>: \<open>Migrate\<close> of \<^verbatim>\<open>internal/store/postgres.go\<close>;
    \<open>Store_Schema\<close>: all calls of the store as one relation.
  \<^item> \<open>Admin_Cli\<close>: \<^verbatim>\<open>internal/config/config.go\<close> and \<^verbatim>\<open>cmd/ccwadmin\<close>; \<open>Cclaude\<close>: the main loop and \<open>runSync\<close> of
    \<^verbatim>\<open>cmd/cclaude\<close>; \<open>Saved_Files\<close>: the files the client keeps for itself; \<open>Programs\<close>: the start of the three
    programs, and the theorems about them together.

  \<^bold>\<open>What is shown.\<close> Synchronisation: a put is a compare-and-swap on the revision; of
  two writers on one base one wins; a revision names one version of a path for ever; a failure changes
  nothing but in the case of a failed commit; resolved paths stay in the workspace; the plan of a round
  is the decision table and loses no local change; whatever frames a client sends are handler runs on
  its own project; after a round over the wire, under any faults of store and network, what the client
  has recorded is true of the server, and its baseline file stays true over any number of rounds.
  Access: tokens verify exactly in their window, keys resolve to their project, no client exceeds the
  rate limit, a connection grants a terminal exactly when the exact sums allow it, a key leads through
  all services to its own project, and whatever fails on the way, to no other. Terminals: the registry
  is the set of open handlers, a tick cancels exactly the projects over their limits, the stream is
  transparent. Operation: migrations run once and in order under any faults, the schema's constraints
  are kept by every call, calls of the client end, a successful \<open>init-project\<close> has done
  what it reports. Usage: no line of a log is lost or counted twice by a scan that succeeds. Several
  theorems state the limits the code has: a failed commit leaves the file, a download carries no digest
  and is therefore uploaded again, a deleted name cannot be used again, a failed lookup of the slug
  makes every file count as deleted, a broken upload shifts the answers, a link in the last segment is
  followed, the client never reconnects.

  \<^bold>\<open>Parameters.\<close> SHA-256, HMAC, Argon2id, JSON, the random bytes, the clock, the order of \<open>range\<close>
  over a map, the network, \<^verbatim>\<open>docker\<close>, \<^verbatim>\<open>tmux\<close> and the meaning of the migrations' SQL are arguments; what
  is assumed of them is a named hypothesis (\<open>range_order\<close>, \<open>json_ok\<close>, \<open>faithful_claims\<close>,
  \<open>claims_codec\<close>, \<open>claims_kept\<close>, \<open>api_json_ok\<close>, \<open>fresh_tmp\<close>, \<open>tmux_host\<close>, \<open>docker_ok\<close>, \<open>context_ok\<close>; for
  \<open>Sync_Life\<close> \<open>deployed\<close>, \<open>outside_ok\<close> and \<open>good_round\<close>). Path walking follows at most 40
  links in the kernel and 255 in Go's \<open>EvalSymlinks\<close>, as those do. File sizes are below 2^63 and
  histories shorter than 2^63 steps, so revisions do not wrap; limits and sums of usage wrap as in
  Go. No fuel is used: the retry loop ends at five attempts by its own count, and the two loops that
  may run for ever (\<open>runSync\<close>, \<open>main_loop\<close>) are partial functions into \<open>option\<close>.

  \<^bold>\<open>Not modelled.\<close> Permissions and full disks; time-outs of connections, pings and deadlines (a
  time-out is the end of the frames); the mutexes (a locked region is one step); sockets, routes of
  the worker's multiplexer and the shutdown of the servers; the text of error messages and the status
  line; the rendering of \<^verbatim>\<open>usage.html\<close>; the terminal's raw mode. These are input and output of the
  operating system or of libraries, which the code only calls. \<open>AccountUsageProvider\<close> of
  \<^verbatim>\<open>internal/quota/service.go\<close> and \<open>RemoveContainer\<close> of \<^verbatim>\<open>internal/runtime/docker.go\<close> are interfaces that
  nothing implements or calls.
\<close>

end
